(* ===== verification/Prelude.thy ===== *)
theory Prelude
  imports Main "HOL-Library.Word"
begin

text \<open>
  The vocabulary every other theory shares.

  \<^item> Rust's fixed-width integers as words: \<open>i64\<close>, \<open>u32\<close>, \<open>u64\<close> and \<open>usize\<close>
    (64 bits, the target the workspace is built for).  An \<open>i64\<close> is read with
    \<open>sint\<close>, the unsigned ones with \<open>unat\<close>.
  \<^item> The outcome of a Rust expression: \<open>Ok v\<close>, \<open>Err e\<close> (a \<open>Result\<close> that the
    \<open>?\<close> operator returns early with) or \<open>Panic\<close> (an unwinding panic).
  \<^item> Actions: state transformers that end in an outcome.  \<open>bind_act\<close> is sequencing
    with the early exits of \<open>?\<close> and of a panic, \<open>run_all\<close> a straight line of
    statements.
\<close>

named_theorems action_iff \<open>inversion rules for actions that end in a given outcome\<close>

type_synonym i64 = "64 word"
type_synonym u64 = "64 word"
type_synonym u32 = "32 word"
type_synonym u16 = "16 word"
type_synonym usize = "64 word"

subsection \<open>Outcomes and actions\<close>

datatype ('e, 'a) outcome = Ok 'a | Err 'e | Panic

type_synonym ('s, 'e, 'a) action = "'s \<Rightarrow> ('e, 'a) outcome \<times> 's"

definition ret :: "'a \<Rightarrow> ('s, 'e, 'a) action" where
  "ret x s = (Ok x, s)"

definition bind_act :: "('s, 'e, 'a) action \<Rightarrow> ('a \<Rightarrow> ('s, 'e, 'b) action) \<Rightarrow> ('s, 'e, 'b) action" where
  "bind_act m k s =
     (case m s of
        (Ok x, s1) \<Rightarrow> k x s1
      | (Err e, s1) \<Rightarrow> (Err e, s1)
      | (Panic, s1) \<Rightarrow> (Panic, s1))"

fun run_all :: "('s, 'e, unit) action list \<Rightarrow> ('s, 'e, unit) action" where
  "run_all [] = ret ()"
| "run_all (a # as) = bind_act a (\<lambda>_. run_all as)"

text \<open>A method that cannot fail, such as \<open>gauge.set(v)\<close>, as an action.\<close>

definition step_act :: "('s \<Rightarrow> 's) \<Rightarrow> ('s, 'e, unit) action" where
  "step_act f s = (Ok (), f s)"

text \<open>\<open>map_err\<close>: the conversion \<open>?\<close> applies to an error.\<close>

fun map_err_outcome :: "('e \<Rightarrow> 'f) \<Rightarrow> ('e, 'a) outcome \<Rightarrow> ('f, 'a) outcome" where
  "map_err_outcome f (Ok x) = Ok x"
| "map_err_outcome f (Err e) = Err (f e)"
| "map_err_outcome f Panic = Panic"

definition map_err :: "('e \<Rightarrow> 'f) \<Rightarrow> ('s, 'e, 'a) action \<Rightarrow> ('s, 'f, 'a) action" where
  "map_err f m s = (case m s of (r, s1) \<Rightarrow> (map_err_outcome f r, s1))"

lemma map_err_outcome_iff [simp]:
  "map_err_outcome f r = Ok x \<longleftrightarrow> r = Ok x"
  "map_err_outcome f r = Panic \<longleftrightarrow> r = Panic"
  "map_err_outcome f r = Err e \<longleftrightarrow> (\<exists>d. r = Err d \<and> e = f d)"
  by (cases r; auto)+

lemma ret_iff [action_iff]: "ret x s = (r, t) \<longleftrightarrow> r = Ok x \<and> t = s"
  by (auto simp: ret_def)

lemma step_act_iff [action_iff]: "step_act f s = (r, t) \<longleftrightarrow> r = Ok () \<and> t = f s"
  by (auto simp: step_act_def)

lemma bind_act_Ok_iff [action_iff]:
  "bind_act m k s = (Ok y, t) \<longleftrightarrow> (\<exists>x s1. m s = (Ok x, s1) \<and> k x s1 = (Ok y, t))"
  by (auto simp: bind_act_def split: prod.splits outcome.splits)

lemma bind_act_Err_iff [action_iff]:
  "bind_act m k s = (Err e, t) \<longleftrightarrow>
     m s = (Err e, t) \<or> (\<exists>x s1. m s = (Ok x, s1) \<and> k x s1 = (Err e, t))"
  by (auto simp: bind_act_def split: prod.splits outcome.splits)

lemma bind_act_Panic_iff [action_iff]:
  "bind_act m k s = (Panic, t) \<longleftrightarrow>
     m s = (Panic, t) \<or> (\<exists>x s1. m s = (Ok x, s1) \<and> k x s1 = (Panic, t))"
  by (auto simp: bind_act_def split: prod.splits outcome.splits)

lemma map_err_iff [action_iff]:
  "map_err f m s = (Ok x, t) \<longleftrightarrow> m s = (Ok x, t)"
  "map_err f m s = (Panic, t) \<longleftrightarrow> m s = (Panic, t)"
  "map_err f m s = (Err e, t) \<longleftrightarrow> (\<exists>d. m s = (Err d, t) \<and> e = f d)"
  by (auto simp: map_err_def split: prod.splits)

lemma bind_act_of_Ok: "m s = (Ok x, s1) \<Longrightarrow> bind_act m k s = k x s1"
  by (simp add: bind_act_def)

lemma bind_act_of_Err: "m s = (Err e, s1) \<Longrightarrow> bind_act m k s = (Err e, s1)"
  by (simp add: bind_act_def)

lemma bind_act_of_Panic: "m s = (Panic, s1) \<Longrightarrow> bind_act m k s = (Panic, s1)"
  by (simp add: bind_act_def)

lemma bind_ret [simp]: "bind_act (ret x) k = k x"
  by (rule ext) (simp add: bind_act_def ret_def)

lemma bind_step [simp]: "bind_act (step_act f) k s = k () (f s)"
  by (simp add: bind_act_def step_act_def)

lemma bind_act_assoc: "bind_act (bind_act m k) h = bind_act m (\<lambda>x. bind_act (k x) h)"
  by (rule ext) (auto simp: bind_act_def split: prod.splits outcome.splits)

lemma run_all_append: "run_all (xs @ ys) = bind_act (run_all xs) (\<lambda>_. run_all ys)"
  by (induction xs) (simp_all add: bind_act_assoc)

subsection \<open>Lists\<close>

lemma fold_fun_upd_notin:
  "k \<notin> fst ` set ws \<Longrightarrow> fold (\<lambda>(k, v) f. f(k := v)) ws f k = f k"
  by (induction ws arbitrary: f) auto

lemma fold_fun_upd_distinct:
  "distinct (map fst ws) \<Longrightarrow> (k, v) \<in> set ws \<Longrightarrow> fold (\<lambda>(k, v) f. f(k := v)) ws f k = v"
  by (induction ws arbitrary: f) (auto simp: fold_fun_upd_notin)

end
