(* ===== verification/RustStr.thy ===== *)
theory RustStr
  imports Prelude
begin

text \<open>
  The part of Rust's \<open>str\<close> and integer parsing that the crates use.  A \<open>&str\<close> is
  its UTF-8 bytes, one \<open>char\<close> per byte, so \<open>length\<close> counts what \<open>str::len\<close>
  counts.  Modelled: \<open>strip_prefix\<close>, \<open>split\<close> and \<open>split_once\<close> on an ASCII
  character, \<open>lines\<close>, \<open>trim\<close>, \<open>parse\<close> to \<open>u32\<close> and \<open>i64\<close>, and
  \<open>Display\<close> of integers.  The lemmas: joining and splitting are inverse, trimming
  leaves printable text alone, and parsing the printed form of an integer gives it back.
\<close>

subsection \<open>Prefixes and splitting\<close>

fun strip_prefix :: "string \<Rightarrow> string \<Rightarrow> string option" where
  "strip_prefix [] s = Some s"
| "strip_prefix (p # ps) [] = None"
| "strip_prefix (p # ps) (c # cs) = (if p = c then strip_prefix ps cs else None)"

text \<open>\<open>str::split(c)\<close>: always at least one piece; adjacent separators give an empty one.\<close>

fun split_on :: "char \<Rightarrow> string \<Rightarrow> string list" where
  "split_on sep [] = [[]]"
| "split_on sep (c # cs) =
     (if c = sep then [] # split_on sep cs
      else (case split_on sep cs of [] \<Rightarrow> [[c]] | w # ws \<Rightarrow> (c # w) # ws))"

text \<open>\<open>str::split_once(c)\<close>, and \<open>find(c)\<close> followed by slicing around the index.\<close>

fun split_once :: "char \<Rightarrow> string \<Rightarrow> (string \<times> string) option" where
  "split_once sep [] = None"
| "split_once sep (c # cs) =
     (if c = sep then Some ([], cs)
      else (case split_once sep cs of None \<Rightarrow> None | Some (a, b) \<Rightarrow> Some (c # a, b)))"

fun join_with :: "char \<Rightarrow> string list \<Rightarrow> string" where
  "join_with sep [] = []"
| "join_with sep [w] = w"
| "join_with sep (w # ws) = w @ sep # join_with sep ws"

lemma strip_prefix_append [simp]: "strip_prefix p (p @ s) = Some s"
  by (induction p) auto

lemma strip_prefix_Some_iff: "strip_prefix p s = Some r \<longleftrightarrow> s = p @ r"
  by (induction p s rule: strip_prefix.induct) auto

lemma split_on_not_Nil [simp]: "split_on sep s \<noteq> []"
  by (cases s) (auto split: list.splits)

lemma split_on_no_sep: "sep \<notin> set s \<Longrightarrow> split_on sep s = [s]"
  by (induction s) auto

lemma split_on_append_sep: "sep \<notin> set w \<Longrightarrow> split_on sep (w @ sep # s) = w # split_on sep s"
  by (induction w) auto

lemma split_on_join:
  "ws \<noteq> [] \<Longrightarrow> \<forall>w\<in>set ws. sep \<notin> set w \<Longrightarrow> split_on sep (join_with sep ws) = ws"
  by (induction sep ws rule: join_with.induct) (auto simp: split_on_no_sep split_on_append_sep)

lemma join_split_on: "join_with sep (split_on sep s) = s"
proof (induction s)
  case (Cons c s)
  obtain w ws where "split_on sep s = w # ws"
    by (metis split_on_not_Nil neq_Nil_conv)
  with Cons show ?case by (cases ws) auto
qed simp

lemma split_once_append: "sep \<notin> set a \<Longrightarrow> split_once sep (a @ sep # b) = Some (a, b)"
  by (induction a) auto

lemma split_once_None_iff: "split_once sep s = None \<longleftrightarrow> sep \<notin> set s"
  by (induction s) (auto split: option.splits)

lemma split_once_Some: "split_once sep s = Some (a, b) \<Longrightarrow> s = a @ sep # b \<and> sep \<notin> set a"
  by (induction s arbitrary: a) (auto split: if_splits option.splits)

subsection \<open>Lines\<close>

text \<open>
  \<open>str::lines\<close>: pieces end at a line feed, a carriage return before it belongs to the line
  ending, the last line feed is optional and a last line without one keeps its carriage
  return.
\<close>

definition newline :: char where "newline = CHR 0x0A"

definition carriage_return :: char where "carriage_return = CHR 0x0D"

definition strip_cr :: "string \<Rightarrow> string" where
  "strip_cr l = (if l \<noteq> [] \<and> last l = carriage_return then butlast l else l)"

fun line_pieces :: "string list \<Rightarrow> string list" where
  "line_pieces [] = []"
| "line_pieces [l] = (if l = [] then [] else [l])"
| "line_pieces (l # ls) = strip_cr l # line_pieces ls"

definition lines :: "string \<Rightarrow> string list" where
  "lines s = line_pieces (split_on newline s)"

lemma line_pieces_terminated:
  "line_pieces (ls @ [[]]) = map strip_cr ls"
proof (induction ls)
  case (Cons l ls)
  then show ?case by (cases ls) auto
qed simp

lemma line_pieces_Cons: "ls \<noteq> [] \<Longrightarrow> line_pieces (l # ls) = strip_cr l # line_pieces ls"
  by (cases ls) auto

lemma strip_cr_CRLF [simp]: "strip_cr (l @ [carriage_return]) = l"
  by (simp add: strip_cr_def)

lemma strip_cr_id: "carriage_return \<notin> set l \<Longrightarrow> strip_cr l = l"
  by (auto simp: strip_cr_def) (metis last_in_set)

lemma lines_Cons:
  "newline \<notin> set l \<Longrightarrow> lines (l @ newline # s) = strip_cr l # lines s"
  by (simp add: lines_def split_on_append_sep line_pieces_Cons)

lemma lines_Nil [simp]: "lines [] = []"
  by (simp add: lines_def)

subsection \<open>Trimming\<close>

text \<open>
  The UTF-8 encodings of the characters with the Unicode property White\_Space, which
  \<open>str::trim\<close> removes.  In valid UTF-8 no encoding is a prefix or a suffix of another
  character's, so matching bytes is matching characters.
\<close>

definition white_space :: "string list" where
  "white_space =
     [[CHR 0x09], [CHR 0x0A], [CHR 0x0B], [CHR 0x0C], [CHR 0x0D], [CHR 0x20],
      [CHR 0xC2, CHR 0x85], [CHR 0xC2, CHR 0xA0], [CHR 0xE1, CHR 0x9A, CHR 0x80],
      [CHR 0xE2, CHR 0x80, CHR 0x80], [CHR 0xE2, CHR 0x80, CHR 0x81],
      [CHR 0xE2, CHR 0x80, CHR 0x82], [CHR 0xE2, CHR 0x80, CHR 0x83],
      [CHR 0xE2, CHR 0x80, CHR 0x84], [CHR 0xE2, CHR 0x80, CHR 0x85],
      [CHR 0xE2, CHR 0x80, CHR 0x86], [CHR 0xE2, CHR 0x80, CHR 0x87],
      [CHR 0xE2, CHR 0x80, CHR 0x88], [CHR 0xE2, CHR 0x80, CHR 0x89],
      [CHR 0xE2, CHR 0x80, CHR 0x8A], [CHR 0xE2, CHR 0x80, CHR 0xA8],
      [CHR 0xE2, CHR 0x80, CHR 0xA9], [CHR 0xE2, CHR 0x80, CHR 0xAF],
      [CHR 0xE2, CHR 0x81, CHR 0x9F], [CHR 0xE3, CHR 0x80, CHR 0x80]]"

fun head_len :: "string list \<Rightarrow> string \<Rightarrow> nat" where
  "head_len [] s = 0"
| "head_len (w # ws) s = (case strip_prefix w s of Some r \<Rightarrow> length w | None \<Rightarrow> head_len ws s)"

text \<open>Removes encodings of \<open>ws\<close> from the front for as long as one is there.\<close>

function trim_front :: "string list \<Rightarrow> string \<Rightarrow> string" where
  "trim_front ws s =
     (if s = [] \<or> head_len ws s = 0 then s else trim_front ws (drop (head_len ws s) s))"
  by pat_completeness auto
termination
  by (relation "measure (\<lambda>(ws, s). length s)") auto

declare trim_front.simps [simp del]

definition trim_start :: "string \<Rightarrow> string" where
  "trim_start s = trim_front white_space s"

definition trim_end :: "string \<Rightarrow> string" where
  "trim_end s = rev (trim_front (map rev white_space) (rev s))"

definition trim :: "string \<Rightarrow> string" where
  "trim s = trim_end (trim_start s)"

text \<open>Printable ASCII other than the blank: no white space starts or ends with it.\<close>

definition printable :: "char \<Rightarrow> bool" where
  "printable c \<longleftrightarrow> 33 \<le> (of_char c :: nat) \<and> (of_char c :: nat) < 127"

lemma trim_front_Nil [simp]: "trim_front ws [] = []"
  by (subst trim_front.simps) simp

lemma trim_front_Cons:
  "trim_front ws (c # cs) =
     (if head_len ws (c # cs) = 0 then c # cs else trim_front ws (drop (head_len ws (c # cs)) (c # cs)))"
  by (subst trim_front.simps) simp

lemma head_len_zero: "\<forall>w\<in>set ws. w \<noteq> [] \<and> hd w \<noteq> c \<Longrightarrow> head_len ws (c # cs) = 0"
proof (induction ws)
  case (Cons w ws)
  then show ?case by (cases w) auto
qed simp

lemma white_space_unprintable:
  "\<forall>w\<in>set white_space. w \<noteq> [] \<and> \<not> printable (hd w)"
  "\<forall>w\<in>set (map rev white_space). w \<noteq> [] \<and> \<not> printable (hd w)"
  by (simp_all add: white_space_def printable_def)

lemma head_len_printable:
  assumes "printable c"
  shows "head_len white_space (c # cs) = 0" and "head_len (map rev white_space) (c # cs) = 0"
proof -
  show "head_len white_space (c # cs) = 0"
    using assms white_space_unprintable(1) by (intro head_len_zero) auto
  show "head_len (map rev white_space) (c # cs) = 0"
    using assms white_space_unprintable(2) by (intro head_len_zero) auto
qed

lemma trim_front_stop: "s = [] \<or> head_len ws s = 0 \<Longrightarrow> trim_front ws s = s"
  by (subst trim_front.simps) simp

lemma trim_id:
  assumes "s = [] \<or> printable (hd s) \<and> printable (last s)"
  shows "trim s = s"
proof (cases "s = []")
  case True
  then show ?thesis by (simp add: trim_def trim_start_def trim_end_def trim_front_stop)
next
  case False
  obtain c cs where s: "s = c # cs" using False by (cases s) auto
  obtain d ds where r: "rev s = d # ds" using False by (cases "rev s") auto
  have "d = last s" using r by (metis last_rev list.sel(1) rev_rev_ident False hd_rev)
  with assms False s have "printable c" "printable d" by auto
  then have "trim_front white_space s = s" and "trim_front (map rev white_space) (rev s) = rev s"
    using s r head_len_printable by (auto intro!: trim_front_stop)
  then show ?thesis by (simp add: trim_def trim_start_def trim_end_def)
qed

subsection \<open>Integers\<close>

definition digit_val :: "char \<Rightarrow> nat option" where
  "digit_val c = (let n = of_char c in if 48 \<le> n \<and> n \<le> 57 then Some (n - 48) else None)"

definition digit_char :: "nat \<Rightarrow> char" where
  "digit_char d = char_of (48 + d)"

fun parse_digits :: "nat \<Rightarrow> string \<Rightarrow> nat option" where
  "parse_digits acc [] = Some acc"
| "parse_digits acc (c # cs) =
     (case digit_val c of None \<Rightarrow> None | Some d \<Rightarrow> parse_digits (10 * acc + d) cs)"

text \<open>
  \<open>str::parse\<close> to an unsigned type of any width: an optional \<open>+\<close>, then at least one
  digit and nothing else.  The width only bounds the value.
\<close>

definition parse_unsigned :: "string \<Rightarrow> nat option" where
  "parse_unsigned s =
     (let ds = (case strip_prefix ''+'' s of Some r \<Rightarrow> r | None \<Rightarrow> s)
      in if ds = [] then None else parse_digits 0 ds)"

definition parse_u32 :: "string \<Rightarrow> u32 option" where
  "parse_u32 s =
     (case parse_unsigned s of
        None \<Rightarrow> None
      | Some n \<Rightarrow> if n < 2 ^ 32 then Some (of_nat n) else None)"

definition parse_i64 :: "string \<Rightarrow> i64 option" where
  "parse_i64 s =
     (case strip_prefix ''-'' s of
        Some ds \<Rightarrow>
          (if ds = [] then None
           else case parse_digits 0 ds of
             None \<Rightarrow> None
           | Some n \<Rightarrow> if n \<le> 2 ^ 63 then Some (- of_nat n) else None)
      | None \<Rightarrow>
          (case parse_unsigned s of
             None \<Rightarrow> None
           | Some n \<Rightarrow> if n < 2 ^ 63 then Some (of_nat n) else None))"

fun show_nat :: "nat \<Rightarrow> string" where
  "show_nat n = (if n < 10 then [digit_char n] else show_nat (n div 10) @ [digit_char (n mod 10)])"

declare show_nat.simps [simp del]

definition show_u32 :: "u32 \<Rightarrow> string" where
  "show_u32 w = show_nat (unat w)"

definition show_i64 :: "i64 \<Rightarrow> string" where
  "show_i64 w = (if sint w < 0 then CHR ''-'' # show_nat (nat (- sint w)) else show_nat (nat (sint w)))"

definition is_digit :: "char \<Rightarrow> bool" where
  "is_digit c \<longleftrightarrow> 48 \<le> (of_char c :: nat) \<and> (of_char c :: nat) \<le> 57"

lemma of_char_digit_char: "d < 10 \<Longrightarrow> (of_char (digit_char d) :: nat) = 48 + d"
  by (simp add: digit_char_def)

lemma digit_val_digit_char [simp]: "d < 10 \<Longrightarrow> digit_val (digit_char d) = Some d"
  by (simp add: digit_val_def of_char_digit_char Let_def)

lemma is_digit_digit_char [simp]: "d < 10 \<Longrightarrow> is_digit (digit_char d)"
  by (simp add: is_digit_def of_char_digit_char)

lemma is_digit_printable: "is_digit c \<Longrightarrow> printable c"
  by (simp add: is_digit_def printable_def)

lemma not_is_digit [simp]:
  "\<not> is_digit (CHR ''-'')" "\<not> is_digit (CHR ''+'')" "\<not> is_digit (CHR '':'')"
  "\<not> is_digit (CHR '','')" "\<not> is_digit newline" "\<not> is_digit carriage_return"
  by (simp_all add: is_digit_def newline_def carriage_return_def)

lemma show_nat_digits: "\<forall>c\<in>set (show_nat n). is_digit c"
proof (induction n rule: show_nat.induct)
  case (1 n)
  then show ?case by (subst show_nat.simps) auto
qed

lemma show_nat_not_Nil [simp]: "show_nat n \<noteq> []"
  by (subst show_nat.simps) simp

lemma parse_digits_snoc:
  "parse_digits acc (s @ [c]) =
     (case parse_digits acc s of None \<Rightarrow> None | Some m \<Rightarrow> map_option (\<lambda>d. 10 * m + d) (digit_val c))"
  by (induction acc s rule: parse_digits.induct) (auto split: option.splits)

lemma parse_digits_show_nat: "parse_digits 0 (show_nat n) = Some n"
proof (induction n rule: show_nat.induct)
  case (1 n)
  show ?case
  proof (cases "n < 10")
    case True
    then show ?thesis by (subst show_nat.simps) simp
  next
    case False
    with 1 show ?thesis by (subst show_nat.simps) (simp add: parse_digits_snoc)
  qed
qed

lemma digit_char_eval [simp]:
  "digit_char 0 = CHR ''0''" "digit_char 1 = CHR ''1''" "digit_char (Suc 0) = CHR ''1''"
  "digit_char 2 = CHR ''2''" "digit_char 3 = CHR ''3''" "digit_char 4 = CHR ''4''"
  "digit_char 5 = CHR ''5''" "digit_char 6 = CHR ''6''" "digit_char 7 = CHR ''7''"
  "digit_char 8 = CHR ''8''" "digit_char 9 = CHR ''9''"
  by (simp_all add: digit_char_def flip: of_char_eq_iff [where ?'a = nat])

lemma show_nat_numeral [simp]:
  "show_nat 0 = ''0''" "show_nat (Suc 0) = ''1''" "show_nat 1 = ''1''"
  "show_nat (numeral k) =
     (if numeral k < (10::nat) then [digit_char (numeral k)]
      else show_nat (numeral k div 10) @ [digit_char (numeral k mod 10)])"
  by (simp_all add: show_nat.simps [of 0] show_nat.simps [of "Suc 0"] show_nat.simps [of "numeral k"])

lemma strip_sign_show_nat: "\<not> is_digit c \<Longrightarrow> strip_prefix [c] (show_nat n) = None"
  using show_nat_digits [of n] by (cases "show_nat n") auto

lemma parse_unsigned_show_nat [simp]: "parse_unsigned (show_nat n) = Some n"
  by (simp add: parse_unsigned_def strip_sign_show_nat parse_digits_show_nat)

lemma parse_u32_show [simp]: "parse_u32 (show_u32 w) = Some w"
  using unsigned_less [of w, where 'a = nat] by (simp add: parse_u32_def show_u32_def)

lemma parse_i64_show [simp]: "parse_i64 (show_i64 w) = Some w"
proof (cases "sint w < 0")
  case True
  have "- (2 ^ 63) \<le> sint w" using sint_ge [of w] by simp
  with True have "nat (- sint w) \<le> 2 ^ 63" by simp
  with True show ?thesis
    by (simp add: parse_i64_def show_i64_def parse_digits_show_nat)
next
  case False
  have "sint w < 2 ^ 63" using sint_lt [of w] by simp
  with False show ?thesis
    by (simp add: parse_i64_def show_i64_def strip_sign_show_nat)
qed

lemma parse_unsigned_no_digit:
  "\<forall>c\<in>set s. \<not> is_digit c \<Longrightarrow> parse_unsigned s = None"
proof -
  have *: "\<forall>c\<in>set t. \<not> is_digit c \<Longrightarrow> t \<noteq> [] \<Longrightarrow> parse_digits 0 t = None" for t
    by (cases t) (auto simp: digit_val_def is_digit_def Let_def)
  assume "\<forall>c\<in>set s. \<not> is_digit c"
  then show ?thesis
    by (auto simp: parse_unsigned_def Let_def strip_prefix_Some_iff split: option.splits intro!: *)
qed

end
