(* ===== verification/F64.thy ===== *)
theory F64
  imports RustStr Complex_Main
begin

text \<open>
  Rust's \<open>f64\<close>, IEEE 754 binary64, as far as the crates use it: literals, \<open>parse\<close>,
  the casts \<open>n as f64\<close> and \<open>x as i64\<close>, \<open>Duration::as_secs_f64\<close> and the order
  that histogram bounds are checked with.  A finite value is a sign, a mantissa below
  \<open>2 ^ 53\<close> and an exponent of at least \<open>-1074\<close>; the payload and sign of a NaN are
  not kept.  Every operation is an exact rational rounded to nearest, ties to even
  (\<open>f64_round\<close>), which \<open>round_half_even_error\<close> and \<open>f64_round_canonical\<close> state.
\<close>

subsection \<open>Values and rounding\<close>

datatype f64 = F64_NaN | F64_Inf bool | F64_Fin bool nat int

fun bit_len :: "nat \<Rightarrow> nat" where
  "bit_len n = (if n = 0 then 0 else Suc (bit_len (n div 2)))"

declare bit_len.simps [simp del]

lemma bit_len_numeral [simp]:
  "bit_len 0 = 0" "bit_len (Suc 0) = 1" "bit_len 1 = 1"
  "bit_len (numeral (Num.Bit0 k)) = Suc (bit_len (numeral k))"
  "bit_len (numeral (Num.Bit1 k)) = Suc (bit_len (numeral k))"
  by (simp_all add: bit_len.simps [of 0] bit_len.simps [of "Suc 0"]
      bit_len.simps [of "numeral (Num.Bit0 k)"] bit_len.simps [of "numeral (Num.Bit1 k)"])

text \<open>\<open>scale_pow n d e\<close> is the fraction \<open>n / d / 2 ^ e\<close>.\<close>

definition scale_pow :: "nat \<Rightarrow> nat \<Rightarrow> int \<Rightarrow> nat \<times> nat" where
  "scale_pow n d e = (if 0 \<le> e then (n, d * 2 ^ nat e) else (n * 2 ^ nat (- e), d))"

definition round_half_even :: "nat \<Rightarrow> nat \<Rightarrow> nat" where
  "round_half_even n d =
     (let q = n div d; r = n mod d
      in if 2 * r < d then q
         else if d < 2 * r then q + 1
         else if even q then q else q + 1)"

text \<open>The binary exponent of a positive fraction: \<open>2 ^ k \<le> n / d < 2 ^ (k + 1)\<close>.\<close>

definition frac_log2 :: "nat \<Rightarrow> nat \<Rightarrow> int" where
  "frac_log2 n d =
     (let k = int (bit_len n) - int (bit_len d)
      in case scale_pow n d k of (a, b) \<Rightarrow> if b \<le> a then k else k - 1)"

definition f64_round :: "bool \<Rightarrow> nat \<Rightarrow> nat \<Rightarrow> f64" where
  "f64_round s n d =
     (if n = 0 then F64_Fin s 0 (-1074)
      else
        (let e = max (frac_log2 n d - 52) (-1074);
             m = (case scale_pow n d e of (a, b) \<Rightarrow> round_half_even a b);
             m' = (if m = 2 ^ 53 then 2 ^ 52 else m);
             e' = (if m = 2 ^ 53 then e + 1 else e)
         in if 971 < e' then F64_Inf s else F64_Fin s m' e'))"

text \<open>The literal \<open>n / d\<close> of the source, and \<open>n as f64\<close>.\<close>

definition f64_lit :: "nat \<Rightarrow> nat \<Rightarrow> f64" where
  "f64_lit n d = f64_round False n d"

definition f64_of_nat :: "nat \<Rightarrow> f64" where
  "f64_of_nat n = f64_round False n 1"

fun canonical :: "f64 \<Rightarrow> bool" where
  "canonical (F64_Fin s m e) \<longleftrightarrow>
     m < 2 ^ 53 \<and> -1074 \<le> e \<and> e \<le> 971 \<and> (2 ^ 52 \<le> m \<or> e = -1074)"
| "canonical _ \<longleftrightarrow> True"

lemma round_half_even_error:
  assumes "0 < d"
  shows "\<bar>2 * (int (round_half_even n d) * int d - int n)\<bar> \<le> int d"
proof -
  have n: "int n = int (n div d) * int d + int (n mod d)"
    by (metis div_mult_mod_eq of_nat_add of_nat_mult)
  have r: "n mod d < d" using assms by simp
  show ?thesis
    using n r unfolding round_half_even_def Let_def
    by (auto simp: algebra_simps)
qed

lemma round_half_even_bounds: "n div d \<le> round_half_even n d" "round_half_even n d \<le> n div d + 1"
  by (auto simp: round_half_even_def Let_def)

subsection \<open>The exponent chosen by the rounding\<close>

lemma bit_len_bounds: "0 < n \<Longrightarrow> 2 ^ (bit_len n - 1) \<le> n \<and> n < 2 ^ bit_len n \<and> 0 < bit_len n"
proof (induction n rule: bit_len.induct)
  case (1 n)
  show ?case
  proof (cases "n div 2 = 0")
    case True
    with 1 have "n = 1" by auto
    then show ?thesis by simp
  next
    case False
    with 1 have IH: "2 ^ (bit_len (n div 2) - 1) \<le> n div 2" "n div 2 < 2 ^ bit_len (n div 2)"
      "0 < bit_len (n div 2)" by auto
    have *: "bit_len n = Suc (bit_len (n div 2))" using 1 by (subst bit_len.simps) simp
    define x where "x = (2::nat) ^ (bit_len (n div 2) - 1)"
    have x: "2 ^ bit_len (n div 2) = 2 * x"
      using IH(3) by (cases "bit_len (n div 2)") (auto simp: x_def)
    with IH have "x \<le> n div 2" "n div 2 < 2 * x" by (auto simp: x_def)
    then have "2 * x \<le> n" "n < 4 * x" by linarith+
    with * x show ?thesis by simp
  qed
qed

lemma scale_pow_value:
  assumes "0 < d" and "scale_pow n d e = (a, b)"
  shows "0 < b" and "real a / real b = real n / real d * 2 powi (- e)"
  using assms by (auto simp: scale_pow_def power_int_def field_simps split: if_splits)

lemma bit_len_real:
  assumes "0 < n"
  shows "2 powi (int (bit_len n) - 1) \<le> real n" and "real n < 2 powi int (bit_len n)"
proof -
  note b = bit_len_bounds [OF assms]
  then have "int (bit_len n) - 1 = int (bit_len n - 1)" by simp
  then have "2 powi (int (bit_len n) - 1) = real (2 ^ (bit_len n - 1))"
    by (simp add: power_int_of_nat del: of_nat_diff)
  with b show "2 powi (int (bit_len n) - 1) \<le> real n" by (simp only: of_nat_le_iff)
  have "2 powi int (bit_len n) = real (2 ^ bit_len n)" by simp
  with b show "real n < 2 powi int (bit_len n)" by (simp only: of_nat_less_iff)
qed

lemma frac_log2_bounds:
  assumes "0 < n" and "0 < d"
  shows "2 powi (frac_log2 n d) \<le> real n / real d" and "real n / real d < 2 powi (frac_log2 n d + 1)"
proof -
  define k where "k = int (bit_len n) - int (bit_len d)"
  obtain a b where ab: "scale_pow n d k = (a, b)" by (cases "scale_pow n d k")
  note n = bit_len_real [OF assms(1)] and d = bit_len_real [OF assms(2)]
  have "real n / real d < 2 powi int (bit_len n) / 2 powi (int (bit_len d) - 1)"
    using n(2) d(1) assms by (intro frac_less) auto
  also have "\<dots> = 2 powi (int (bit_len n) - (int (bit_len d) - 1))"
    by (subst power_int_diff) simp_all
  also have "\<dots> = 2 powi (k + 1)" by (simp add: k_def algebra_simps)
  finally have up: "real n / real d < 2 powi (k + 1)" .
  have "k - 1 = int (bit_len n) - 1 - int (bit_len d)" by (simp add: k_def)
  then have "2 powi (k - 1) = (2 powi (int (bit_len n) - 1 - int (bit_len d)) :: real)" by (simp only:)
  also have "\<dots> = 2 powi (int (bit_len n) - 1) / 2 powi int (bit_len d)"
    by (subst power_int_diff) simp_all
  also have "\<dots> \<le> real n / real d"
    using n(1) d(2) assms by (intro frac_le) auto
  finally have lo: "2 powi (k - 1) \<le> real n / real d" .
  have "b \<le> a \<longleftrightarrow> 1 \<le> real a / real b"
    using scale_pow_value(1) [OF assms(2) ab] by (simp add: field_simps)
  also have "\<dots> \<longleftrightarrow> 2 powi k \<le> real n / real d"
    by (simp add: scale_pow_value(2) [OF assms(2) ab] power_int_minus divide_simps)
      (use assms in \<open>auto simp: field_simps\<close>)
  finally have "b \<le> a \<longleftrightarrow> 2 powi k \<le> real n / real d" .
  then show "2 powi (frac_log2 n d) \<le> real n / real d"
    and "real n / real d < 2 powi (frac_log2 n d + 1)"
    using up lo ab by (auto simp: frac_log2_def Let_def simp flip: k_def)
qed

text \<open>The rounded mantissa needs at most one more step of the exponent, and keeps 53 bits.\<close>

lemma rounded_mantissa:
  assumes "0 < n" and "0 < d" and e: "e = max (frac_log2 n d - 52) (-1074)"
    and ab: "scale_pow n d e = (a, b)"
  shows "round_half_even a b \<le> 2 ^ 53" and "2 ^ 52 \<le> round_half_even a b \<or> e = -1074"
proof -
  have b: "0 < b" and v: "real a / real b = real n / real d * 2 powi (- e)"
    using scale_pow_value [OF assms(2) ab] by auto
  have "frac_log2 n d + 1 \<le> e + 53" using e by simp
  then have "2 powi (frac_log2 n d + 1) \<le> (2 powi (e + 53) :: real)"
    by (simp add: power_int_increasing)
  with frac_log2_bounds(2) [OF assms(1,2)] have "real n / real d < 2 powi (e + 53)" by simp
  then have "real a / real b < 2 powi (e + 53) * 2 powi (- e)"
    unfolding v by (intro mult_strict_right_mono) auto
  also have "\<dots> = 2 ^ 53" by (simp flip: power_int_add)
  finally have "real a < real (2 ^ 53 * b)" using b by (simp add: field_simps)
  then have "a < 2 ^ 53 * b" by linarith
  then have "a div b < 2 ^ 53" by (simp add: less_mult_imp_div_less)
  then show "round_half_even a b \<le> 2 ^ 53" using round_half_even_bounds(2) [of a b] by linarith
  show "2 ^ 52 \<le> round_half_even a b \<or> e = -1074"
  proof (cases "e = -1074")
    case False
    then have e52: "frac_log2 n d = e + 52" using e by (simp split: if_splits add: max_def)
    have "2 ^ 52 = 2 powi (e + 52) * (2 powi (- e) :: real)" by (simp flip: power_int_add)
    also have "\<dots> \<le> real a / real b"
      using frac_log2_bounds(1) [OF assms(1,2)] unfolding v e52
      by (intro mult_right_mono) auto
    finally have "real (2 ^ 52 * b) \<le> real a" using b by (simp add: field_simps)
    then have "2 ^ 52 * b \<le> a" by linarith
    then have "2 ^ 52 \<le> a div b" using b by (simp add: less_eq_div_iff_mult_less_eq)
    then show ?thesis using round_half_even_bounds(1) [of a b] by linarith
  qed simp
qed

lemma f64_round_canonical:
  assumes "0 < d"
  shows "canonical (f64_round s n d)"
proof (cases "n = 0")
  case False
  define e where "e = max (frac_log2 n d - 52) (-1074)"
  obtain a b where ab: "scale_pow n d e = (a, b)" by (cases "scale_pow n d e")
  have "-1074 \<le> e" by (simp add: e_def)
  then show ?thesis
    using rounded_mantissa [OF _ assms e_def ab] False
    by (auto simp: f64_round_def Let_def ab simp flip: e_def)
qed (simp add: f64_round_def)

subsection \<open>Casts, parsing, durations, order\<close>

text \<open>\<open>x as i64\<close>: towards zero, saturating, 0 for a NaN.\<close>

fun f64_trunc :: "f64 \<Rightarrow> int option" where
  "f64_trunc (F64_Fin s m e) =
     Some ((if s then -1 else 1) * (if 0 \<le> e then int m * 2 ^ nat e else int m div 2 ^ nat (- e)))"
| "f64_trunc _ = None"

definition f64_as_i64 :: "f64 \<Rightarrow> i64" where
  "f64_as_i64 x =
     (case x of
        F64_NaN \<Rightarrow> 0
      | F64_Inf s \<Rightarrow> (if s then - (2 ^ 63) else 2 ^ 63 - 1)
      | F64_Fin s m e \<Rightarrow>
          (case f64_trunc x of
             None \<Rightarrow> 0
           | Some v \<Rightarrow> word_of_int (max (- (2 ^ 63)) (min (2 ^ 63 - 1) v))))"

text \<open>
  \<open>str::parse\<close> to \<open>f64\<close>: a sign, then \<open>inf\<close>, \<open>infinity\<close> or \<open>nan\<close> in any
  case, or digits with an optional point and an optional exponent.
\<close>

definition lower_char :: "char \<Rightarrow> char" where
  "lower_char c =
     (let n = of_char c :: nat in if 65 \<le> n \<and> n \<le> 90 then char_of (n + 32) else c)"

definition span_digits :: "string \<Rightarrow> string \<times> string" where
  "span_digits s = (takeWhile is_digit s, dropWhile is_digit s)"

definition parse_exponent :: "string \<Rightarrow> int option" where
  "parse_exponent s =
     (case s of
        [] \<Rightarrow> Some 0
      | c # r \<Rightarrow>
          if lower_char c \<noteq> CHR ''e'' then None
          else
            (let (neg, ds) =
               (case strip_prefix ''-'' r of
                  Some t \<Rightarrow> (True, t)
                | None \<Rightarrow> (False, case strip_prefix ''+'' r of Some t \<Rightarrow> t | None \<Rightarrow> r))
             in if ds = [] then None
                else map_option (\<lambda>n. if neg then - int n else int n) (parse_digits 0 ds)))"

definition parse_f64_number :: "bool \<Rightarrow> string \<Rightarrow> f64 option" where
  "parse_f64_number neg s =
     (let (whole, r1) = span_digits s;
          (frac, r2) = (case strip_prefix ''.'' r1 of Some t \<Rightarrow> span_digits t | None \<Rightarrow> ([], r1))
      in if whole @ frac = [] then None
         else case (parse_digits 0 (whole @ frac), parse_exponent r2) of
             (Some n, Some k) \<Rightarrow>
               (let x = k - int (length frac)
                in Some (f64_round neg (n * 10 ^ nat x) (10 ^ nat (- x))))
           | _ \<Rightarrow> None)"

definition parse_f64 :: "string \<Rightarrow> f64 option" where
  "parse_f64 s =
     (let (neg, r) =
        (case strip_prefix ''-'' s of
           Some t \<Rightarrow> (True, t)
         | None \<Rightarrow> (False, case strip_prefix ''+'' s of Some t \<Rightarrow> t | None \<Rightarrow> s));
        l = map lower_char r
      in if l = ''nan'' then Some F64_NaN
         else if l = ''inf'' \<or> l = ''infinity'' then Some (F64_Inf neg)
         else parse_f64_number neg r)"

text \<open>
  \<open>Duration::as_secs_f64\<close>: the whole seconds and the nanoseconds divided by a billion,
  each rounded, and their rounded sum.  The duration is given in nanoseconds.
\<close>

fun magnitude :: "f64 \<Rightarrow> nat \<times> nat" where
  "magnitude (F64_Fin s m e) = scale_pow m 1 (- e)"
| "magnitude _ = (0, 1)"

definition f64_add_pos :: "f64 \<Rightarrow> f64 \<Rightarrow> f64" where
  "f64_add_pos x y =
     (case (magnitude x, magnitude y) of
        ((a, b), (c, d)) \<Rightarrow> f64_round False (a * d + c * b) (b * d))"

definition f64_div_pos :: "f64 \<Rightarrow> f64 \<Rightarrow> f64" where
  "f64_div_pos x y =
     (case (magnitude x, magnitude y) of
        ((a, b), (c, d)) \<Rightarrow> f64_round False (a * d) (b * c))"

definition as_secs_f64 :: "nat \<Rightarrow> f64" where
  "as_secs_f64 nanos =
     f64_add_pos (f64_of_nat (nanos div 10 ^ 9))
       (f64_div_pos (f64_of_nat (nanos mod 10 ^ 9)) (f64_of_nat (10 ^ 9)))"

text \<open>The IEEE order: a NaN is below and above nothing.\<close>

fun signed_fraction :: "f64 \<Rightarrow> int \<times> int" where
  "signed_fraction (F64_Fin s m e) =
     (case magnitude (F64_Fin s m e) of (a, b) \<Rightarrow> (if s then - int a else int a, int b))"
| "signed_fraction _ = (0, 1)"

fun f64_less :: "f64 \<Rightarrow> f64 \<Rightarrow> bool" where
  "f64_less F64_NaN y = False"
| "f64_less x F64_NaN = False"
| "f64_less (F64_Inf s) y = (s \<and> y \<noteq> F64_Inf True)"
| "f64_less x (F64_Inf s) = (\<not> s)"
| "f64_less x y =
     (case (signed_fraction x, signed_fraction y) of ((a, b), (c, d)) \<Rightarrow> a * d < c * b)"

instantiation f64 :: ord
begin

definition less_f64 :: "f64 \<Rightarrow> f64 \<Rightarrow> bool" where
  "less_f64 x y \<longleftrightarrow> f64_less x y"

definition less_eq_f64 :: "f64 \<Rightarrow> f64 \<Rightarrow> bool" where
  "less_eq_f64 x y \<longleftrightarrow> x \<noteq> F64_NaN \<and> y \<noteq> F64_NaN \<and> \<not> f64_less y x"

instance ..

end

lemma f64_as_i64_small:
  assumes "f64_trunc x = Some v" and "- (2 ^ 63) \<le> v" and "v < 2 ^ 63"
  shows "sint (f64_as_i64 x) = v"
proof -
  have "f64_as_i64 x = word_of_int v"
    using assms by (cases x) (auto simp: f64_as_i64_def)
  then show ?thesis using assms(2,3) by (simp add: sint_sbintrunc' signed_take_bit_int_eq_self)
qed

end
