(* ===== verification/PromApi.thy ===== *)
theory PromApi
  imports F64
begin

text \<open>
  The interface of the \<open>prometheus\<close> crate.  The crate is not part of the repository, so
  its operations are a parameter of the model: a value of the record \<open>'s prometheus\<close>
  over a world \<open>'s\<close> that holds every metric core and every registry.  A metric core (the
  shared \<open>Arc\<close> behind a metric and all its clones) and a registry are identified by a
  \<open>handle\<close>; one time series is a core with its label values.

  What the code relies on is stated through a \<open>prom_view\<close>, which reads the world: the
  descriptor of each core, the value of each series and the collectors of each registry.
  \<open>prom_ok P V\<close> collects the documented laws: constructors allocate a fresh core and
  accept every valid descriptor; a registry keeps what it accepts, in order, refuses a name
  it already has and accepts unused ones; label lookups panic exactly on a wrong number of
  labels; writes change the one series they are applied to.

  The second half are the lemmas that carry the proofs about collectors: \<open>writes\<close> says
  that an action succeeds and performs a list of assignments, and nothing else.
\<close>

named_theorems prom_simps \<open>what the documented laws say of one operation\<close>

subsection \<open>Vocabulary\<close>

type_synonym handle = nat

type_synonym series = "handle \<times> string list"

datatype metric_kind = IntGauge | Gauge | IntGaugeVec | IntCounterVec | HistogramVec | ProcessCollector

text \<open>
  The options value the code builds with \<open>Opts::new(name, help)\<close> and passes on; the
  constant labels stay empty unless the code sets them.
\<close>

record opts =
  o_namespace :: string
  o_subsystem :: string
  o_name :: string
  o_help :: string
  o_const_labels :: "(string \<times> string) list"

definition opts_new :: "string \<Rightarrow> string \<Rightarrow> opts" where
  "opts_new name help =
     \<lparr>o_namespace = '''', o_subsystem = '''', o_name = name, o_help = help, o_const_labels = []\<rparr>"

datatype prom_error = AlreadyReg | PromMsg string

datatype metric_value = IntV i64 | FloatV f64 | CountV u64 | HistV "f64 list"

type_synonym metric_family = "string \<times> (string list \<times> metric_value) list"

record 's prometheus =
  metric_new :: "metric_kind \<Rightarrow> opts \<Rightarrow> string list \<Rightarrow> f64 list \<Rightarrow> 's \<Rightarrow> (prom_error + handle) \<times> 's"
  process_collector_for_self :: "'s \<Rightarrow> handle \<times> 's"
  registry_new :: "'s \<Rightarrow> handle \<times> 's"
  registry_register :: "handle \<Rightarrow> handle \<Rightarrow> 's \<Rightarrow> (prom_error + unit) \<times> 's"
  registry_gather :: "handle \<Rightarrow> 's \<Rightarrow> metric_family list"
  text_encode :: "metric_family list \<Rightarrow> prom_error + string"
  with_label_values :: "handle \<Rightarrow> string list \<Rightarrow> 's \<Rightarrow> series option \<times> 's"
  int_gauge_set :: "series \<Rightarrow> i64 \<Rightarrow> 's \<Rightarrow> 's"
  int_gauge_inc :: "series \<Rightarrow> 's \<Rightarrow> 's"
  int_gauge_dec :: "series \<Rightarrow> 's \<Rightarrow> 's"
  gauge_set :: "series \<Rightarrow> f64 \<Rightarrow> 's \<Rightarrow> 's"
  int_counter_inc :: "series \<Rightarrow> 's \<Rightarrow> 's"
  histogram_observe :: "series \<Rightarrow> f64 \<Rightarrow> 's \<Rightarrow> 's"

record metric_desc =
  d_kind :: metric_kind
  d_names :: "string list"
  d_labels :: "string list"
  d_buckets :: "f64 list"

record 's prom_view =
  meta :: "'s \<Rightarrow> handle \<rightharpoonup> metric_desc"
  val :: "'s \<Rightarrow> series \<Rightarrow> metric_value"
  regs :: "'s \<Rightarrow> handle \<rightharpoonup> handle list"

text \<open>
  The calls as the collectors make them: a plain metric is its core without labels; a label
  lookup that panics ends the action.
\<close>

definition plain :: "handle \<Rightarrow> series" where
  "plain h = (h, [])"

lemma fst_plain: "fst (plain h) = h"
  by (simp add: plain_def)

definition labelled :: "'s prometheus \<Rightarrow> handle \<Rightarrow> string list \<Rightarrow> ('s, 'e, series) action" where
  "labelled P h ls s =
     (case with_label_values P h ls s of
        (Some sr, t) \<Rightarrow> (Ok sr, t)
      | (None, t) \<Rightarrow> (Panic, t))"

definition set_int :: "'s prometheus \<Rightarrow> handle \<Rightarrow> i64 \<Rightarrow> ('s, 'e, unit) action" where
  "set_int P h v = step_act (int_gauge_set P (plain h) v)"

definition set_float :: "'s prometheus \<Rightarrow> handle \<Rightarrow> f64 \<Rightarrow> ('s, 'e, unit) action" where
  "set_float P h v = step_act (gauge_set P (plain h) v)"

definition set_labelled :: "'s prometheus \<Rightarrow> handle \<Rightarrow> string list \<Rightarrow> i64 \<Rightarrow> ('s, 'e, unit) action" where
  "set_labelled P h ls v = bind_act (labelled P h ls) (\<lambda>sr. step_act (int_gauge_set P sr v))"

definition count_labelled :: "'s prometheus \<Rightarrow> handle \<Rightarrow> string list \<Rightarrow> ('s, 'e, unit) action" where
  "count_labelled P h ls = bind_act (labelled P h ls) (\<lambda>sr. step_act (int_counter_inc P sr))"

definition observe_labelled :: "'s prometheus \<Rightarrow> handle \<Rightarrow> string list \<Rightarrow> f64 \<Rightarrow> ('s, 'e, unit) action" where
  "observe_labelled P h ls x = bind_act (labelled P h ls) (\<lambda>sr. step_act (histogram_observe P sr x))"

subsection \<open>Documented behaviour\<close>

text \<open>Fully qualified names: the non-empty parts joined with underscores.\<close>

definition doc_fq_name :: "opts \<Rightarrow> string" where
  "doc_fq_name o' =
     (if o_name o' = '''' then ''''
      else join_with (CHR ''_'')
        (filter (\<lambda>w. w \<noteq> '''') [o_namespace o', o_subsystem o', o_name o']))"

definition name_start :: "char \<Rightarrow> bool" where
  "name_start c \<longleftrightarrow>
     (let n = of_char c :: nat
      in 65 \<le> n \<and> n \<le> 90 \<or> 97 \<le> n \<and> n \<le> 122 \<or> n = 95 \<or> n = 58)"

definition valid_name :: "string \<Rightarrow> bool" where
  "valid_name s \<longleftrightarrow> s \<noteq> [] \<and> name_start (hd s) \<and> (\<forall>c\<in>set s. name_start c \<or> is_digit c)"

definition valid_label :: "string \<Rightarrow> bool" where
  "valid_label s \<longleftrightarrow> valid_name s \<and> CHR '':'' \<notin> set s \<and> take 2 s \<noteq> ''__''"

definition valid_desc :: "metric_kind \<Rightarrow> opts \<Rightarrow> string list \<Rightarrow> f64 list \<Rightarrow> bool" where
  "valid_desc k o' ls bs \<longleftrightarrow>
     o_help o' \<noteq> '''' \<and> valid_name (doc_fq_name o') \<and> o_const_labels o' = [] \<and>
     (\<forall>l\<in>set ls. valid_label l) \<and> distinct ls \<and>
     (k = HistogramVec \<longrightarrow> ''le'' \<notin> set ls \<and> sorted_wrt (<) bs)"

definition desc_of :: "metric_kind \<Rightarrow> opts \<Rightarrow> string list \<Rightarrow> f64 list \<Rightarrow> metric_desc" where
  "desc_of k o' ls bs = \<lparr>d_kind = k, d_names = [doc_fq_name o'], d_labels = ls, d_buckets = bs\<rparr>"

fun initial_value :: "metric_kind \<Rightarrow> metric_value" where
  "initial_value IntCounterVec = CountV 0"
| "initial_value HistogramVec = HistV []"
| "initial_value Gauge = FloatV (F64_Fin False 0 (-1074))"
| "initial_value _ = IntV 0"

definition process_metric_names :: "string list" where
  "process_metric_names =
     [''process_cpu_seconds_total'', ''process_open_fds'', ''process_max_fds'',
      ''process_virtual_memory_bytes'', ''process_virtual_memory_max_bytes'',
      ''process_resident_memory_bytes'', ''process_start_time_seconds'', ''process_threads'']"

definition same :: "'s prom_view \<Rightarrow> 's \<Rightarrow> 's \<Rightarrow> bool" where
  "same V s t \<longleftrightarrow> meta V t = meta V s \<and> val V t = val V s \<and> regs V t = regs V s"

definition kind_at :: "'s prom_view \<Rightarrow> 's \<Rightarrow> series \<Rightarrow> metric_kind \<Rightarrow> bool" where
  "kind_at V s sr k \<longleftrightarrow> (\<exists>d. meta V s (fst sr) = Some d \<and> d_kind d = k)"

definition assigns :: "'s prom_view \<Rightarrow> 's \<Rightarrow> 's \<Rightarrow> series \<Rightarrow> metric_value \<Rightarrow> bool" where
  "assigns V s t sr v \<longleftrightarrow>
     meta V t = meta V s \<and> regs V t = regs V s \<and> val V t = (val V s)(sr := v)"

definition law_new :: "'s prometheus \<Rightarrow> 's prom_view \<Rightarrow> bool" where
  "law_new P V \<longleftrightarrow>
     (\<forall>k o' ls bs s r t. metric_new P k o' ls bs s = (r, t) \<longrightarrow>
        (case r of
           Inl e \<Rightarrow> same V s t \<and> \<not> valid_desc k o' ls bs
         | Inr h \<Rightarrow>
             h \<notin> dom (meta V s) \<and> regs V t = regs V s \<and>
             meta V t = (meta V s)(h \<mapsto> desc_of k o' ls bs) \<and>
             val V t = (\<lambda>sr. if fst sr = h then initial_value k else val V s sr)))"

definition law_process :: "'s prometheus \<Rightarrow> 's prom_view \<Rightarrow> bool" where
  "law_process P V \<longleftrightarrow>
     (\<forall>s h t. process_collector_for_self P s = (h, t) \<longrightarrow>
        h \<notin> dom (meta V s) \<and> regs V t = regs V s \<and>
        (\<exists>d. meta V t = (meta V s)(h \<mapsto> d) \<and> d_kind d = ProcessCollector \<and>
             set (d_names d) \<subseteq> set process_metric_names) \<and>
        (\<forall>sr. fst sr \<noteq> h \<longrightarrow> val V t sr = val V s sr))"

definition law_registry_new :: "'s prometheus \<Rightarrow> 's prom_view \<Rightarrow> bool" where
  "law_registry_new P V \<longleftrightarrow>
     (\<forall>s r t. registry_new P s = (r, t) \<longrightarrow>
        r \<notin> dom (regs V s) \<and> meta V t = meta V s \<and> val V t = val V s \<and>
        regs V t = (regs V s)(r \<mapsto> []))"

definition name_clash :: "'s prom_view \<Rightarrow> 's \<Rightarrow> handle list \<Rightarrow> metric_desc \<Rightarrow> bool" where
  "name_clash V s hs d \<longleftrightarrow>
     (\<exists>h'\<in>set hs. \<exists>d'. meta V s h' = Some d' \<and> set (d_names d) \<inter> set (d_names d') \<noteq> {})"

definition law_register :: "'s prometheus \<Rightarrow> 's prom_view \<Rightarrow> bool" where
  "law_register P V \<longleftrightarrow>
     (\<forall>r h s hs d x t. regs V s r = Some hs \<longrightarrow> meta V s h = Some d \<longrightarrow>
        registry_register P r h s = (x, t) \<longrightarrow>
        (if name_clash V s hs d then x = Inl AlreadyReg \<and> same V s t
         else x = Inr () \<and> meta V t = meta V s \<and> val V t = val V s \<and>
              regs V t = (regs V s)(r \<mapsto> hs @ [h])))"

definition law_labels :: "'s prometheus \<Rightarrow> 's prom_view \<Rightarrow> bool" where
  "law_labels P V \<longleftrightarrow>
     (\<forall>h ls s d x t. meta V s h = Some d \<longrightarrow> with_label_values P h ls s = (x, t) \<longrightarrow>
        same V s t \<and> x = (if length ls = length (d_labels d) then Some (h, ls) else None))"

definition law_int_gauge :: "'s prometheus \<Rightarrow> 's prom_view \<Rightarrow> bool" where
  "law_int_gauge P V \<longleftrightarrow>
     (\<forall>sr s. kind_at V s sr IntGauge \<or> kind_at V s sr IntGaugeVec \<longrightarrow>
        (\<forall>v. assigns V s (int_gauge_set P sr v s) sr (IntV v)) \<and>
        (\<forall>n. val V s sr = IntV n \<longrightarrow>
           assigns V s (int_gauge_inc P sr s) sr (IntV (n + 1)) \<and>
           assigns V s (int_gauge_dec P sr s) sr (IntV (n - 1))))"

definition law_gauge :: "'s prometheus \<Rightarrow> 's prom_view \<Rightarrow> bool" where
  "law_gauge P V \<longleftrightarrow>
     (\<forall>sr v s. kind_at V s sr Gauge \<longrightarrow> assigns V s (gauge_set P sr v s) sr (FloatV v))"

definition law_counter :: "'s prometheus \<Rightarrow> 's prom_view \<Rightarrow> bool" where
  "law_counter P V \<longleftrightarrow>
     (\<forall>sr n s. kind_at V s sr IntCounterVec \<longrightarrow> val V s sr = CountV n \<longrightarrow>
        assigns V s (int_counter_inc P sr s) sr (CountV (n + 1)))"

definition law_histogram :: "'s prometheus \<Rightarrow> 's prom_view \<Rightarrow> bool" where
  "law_histogram P V \<longleftrightarrow>
     (\<forall>sr x xs s. kind_at V s sr HistogramVec \<longrightarrow> val V s sr = HistV xs \<longrightarrow>
        assigns V s (histogram_observe P sr x s) sr (HistV (xs @ [x])))"

definition prom_ok :: "'s prometheus \<Rightarrow> 's prom_view \<Rightarrow> bool" where
  "prom_ok P V \<longleftrightarrow>
     law_new P V \<and> law_process P V \<and> law_registry_new P V \<and> law_register P V \<and>
     law_labels P V \<and> law_int_gauge P V \<and> law_gauge P V \<and> law_counter P V \<and> law_histogram P V"

subsection \<open>One operation at a time\<close>

lemma new_cases:
  assumes "prom_ok P V" and "metric_new P k o' ls bs s = (r, t)"
  obtains (refused) e where "r = Inl e" "same V s t" "\<not> valid_desc k o' ls bs"
  | (fresh) h where "r = Inr h" "meta V s h = None" "regs V t = regs V s"
      "meta V t = (meta V s)(h \<mapsto> desc_of k o' ls bs)"
      "val V t = (\<lambda>sr. if fst sr = h then initial_value k else val V s sr)"
proof -
  have "case r of
           Inl e \<Rightarrow> same V s t \<and> \<not> valid_desc k o' ls bs
         | Inr h \<Rightarrow>
             h \<notin> dom (meta V s) \<and> regs V t = regs V s \<and>
             meta V t = (meta V s)(h \<mapsto> desc_of k o' ls bs) \<and>
             val V t = (\<lambda>sr. if fst sr = h then initial_value k else val V s sr)"
    using assms unfolding prom_ok_def law_new_def by blast
  then show ?thesis
    using refused fresh by (cases r) (auto simp: domIff)
qed

lemma register_Err_same:
  assumes "prom_ok P V" "regs V s r = Some hs" "meta V s h = Some d"
    and "registry_register P r h s = (x, t)" "name_clash V s hs d"
  shows "x = Inl AlreadyReg \<and> same V s t"
  using assms unfolding prom_ok_def law_register_def by metis

lemma register_Ok_appends:
  assumes "prom_ok P V" "regs V s r = Some hs" "meta V s h = Some d"
    and "registry_register P r h s = (x, t)" "\<not> name_clash V s hs d"
  shows "x = Inr ()" and "meta V t = meta V s" and "val V t = val V s"
    and "regs V t = (regs V s)(r \<mapsto> hs @ [h])"
  using assms unfolding prom_ok_def law_register_def by metis+

lemma labelled_Ok:
  assumes "prom_ok P V" "meta V s h = Some d" "length ls = length (d_labels d)"
  shows "\<exists>t. with_label_values P h ls s = (Some (h, ls), t) \<and> same V s t"
proof -
  obtain x t where xt: "with_label_values P h ls s = (x, t)" by (cases "with_label_values P h ls s")
  with assms have "same V s t \<and> x = Some (h, ls)"
    unfolding prom_ok_def law_labels_def by metis
  with xt show ?thesis by simp
qed

lemma labelled_Panic:
  assumes "prom_ok P V" "meta V s h = Some d" "length ls \<noteq> length (d_labels d)"
  shows "fst (labelled P h ls s) = Panic"
proof -
  obtain x t where xt: "with_label_values P h ls s = (x, t)" by (cases "with_label_values P h ls s")
  with assms have "x = None"
    unfolding prom_ok_def law_labels_def by metis
  with xt show ?thesis by (simp add: labelled_def)
qed

lemma int_gauge_set_assigns:
  assumes "prom_ok P V" "kind_at V s sr IntGauge \<or> kind_at V s sr IntGaugeVec"
  shows "assigns V s (int_gauge_set P sr v s) sr (IntV v)"
  using assms unfolding prom_ok_def law_int_gauge_def by blast

lemma int_gauge_inc_dec_assigns:
  assumes "prom_ok P V" "kind_at V s sr IntGauge \<or> kind_at V s sr IntGaugeVec" "val V s sr = IntV n"
  shows "assigns V s (int_gauge_inc P sr s) sr (IntV (n + 1))"
    and "assigns V s (int_gauge_dec P sr s) sr (IntV (n - 1))"
  using assms unfolding prom_ok_def law_int_gauge_def by blast+

lemma gauge_set_assigns:
  assumes "prom_ok P V" "kind_at V s sr Gauge"
  shows "assigns V s (gauge_set P sr v s) sr (FloatV v)"
  using assms unfolding prom_ok_def law_gauge_def by blast

lemma int_counter_inc_assigns:
  assumes "prom_ok P V" "kind_at V s sr IntCounterVec" "val V s sr = CountV n"
  shows "assigns V s (int_counter_inc P sr s) sr (CountV (n + 1))"
  using assms unfolding prom_ok_def law_counter_def by blast

lemma histogram_observe_assigns:
  assumes "prom_ok P V" "kind_at V s sr HistogramVec" "val V s sr = HistV xs"
  shows "assigns V s (histogram_observe P sr x s) sr (HistV (xs @ [x]))"
  using assms unfolding prom_ok_def law_histogram_def by blast

subsection \<open>Lists of assignments\<close>

type_synonym assignment = "series \<times> metric_value"

definition apply_writes :: "assignment list \<Rightarrow> (series \<Rightarrow> metric_value) \<Rightarrow> series \<Rightarrow> metric_value" where
  "apply_writes ws f = fold (\<lambda>(sr, v) g. g(sr := v)) ws f"

lemma apply_writes_simps [simp]:
  "apply_writes [] f = f"
  "apply_writes ((sr, v) # ws) f = apply_writes ws (f(sr := v))"
  "apply_writes (ws @ ws') f = apply_writes ws' (apply_writes ws f)"
  by (simp_all add: apply_writes_def)

text \<open>The last assignment to a series is the one that counts.\<close>

lemma apply_writes_lookup:
  "apply_writes ws f sr = (case map_of (rev ws) sr of None \<Rightarrow> f sr | Some v \<Rightarrow> v)"
proof (induction ws arbitrary: f)
  case (Cons w ws)
  then show ?case
    by (cases w) (auto simp: map_add_def split: option.splits)
qed simp

lemma apply_writes_other: "sr \<notin> fst ` set ws \<Longrightarrow> apply_writes ws f sr = f sr"
  by (simp add: apply_writes_def fold_fun_upd_notin)

lemma apply_writes_mem:
  "distinct (map fst ws) \<Longrightarrow> (sr, v) \<in> set ws \<Longrightarrow> apply_writes ws f sr = v"
  by (simp add: apply_writes_def fold_fun_upd_distinct)

text \<open>
  \<open>writes V M act ws\<close>: in every world whose cores are \<open>M\<close>, the action succeeds,
  performs the assignments \<open>ws\<close> in order, and changes nothing else.
\<close>

named_theorems writes_intro \<open>rules that compute the assignments of an action\<close>

definition writes ::
  "'s prom_view \<Rightarrow> (handle \<rightharpoonup> metric_desc) \<Rightarrow> ('s, 'e, unit) action \<Rightarrow> assignment list \<Rightarrow> bool" where
  "writes V M act ws \<longleftrightarrow>
     (\<forall>s. meta V s = M \<longrightarrow>
        (\<exists>t. act s = (Ok (), t) \<and> meta V t = M \<and> regs V t = regs V s \<and>
             val V t = apply_writes ws (val V s)))"

lemma writesD:
  assumes "writes V (meta V s) act ws" and "act s = (r, t)"
  shows "r = Ok ()" and "meta V t = meta V s" and "regs V t = regs V s"
    and "val V t = apply_writes ws (val V s)"
  using assms by (auto simp: writes_def)

lemma writes_ret [writes_intro]: "writes V M (ret ()) []"
  by (simp add: writes_def ret_def)

lemma writes_bind [writes_intro]:
  assumes "writes V M a ws" and "writes V M b ws'"
  shows "writes V M (bind_act a (\<lambda>_. b)) (ws @ ws')"
  unfolding writes_def
proof (intro allI impI)
  fix s assume s: "meta V s = M"
  obtain t where t: "a s = (Ok (), t)" "meta V t = M" "regs V t = regs V s"
    "val V t = apply_writes ws (val V s)"
    using assms(1) s by (auto simp: writes_def)
  then obtain u where "b t = (Ok (), u)" "meta V u = M" "regs V u = regs V t"
    "val V u = apply_writes ws' (val V t)"
    using assms(2) by (auto simp: writes_def)
  with t show "\<exists>t. bind_act a (\<lambda>_. b) s = (Ok (), t) \<and> meta V t = M \<and> regs V t = regs V s \<and>
      val V t = apply_writes (ws @ ws') (val V s)"
    by (auto simp: bind_act_of_Ok)
qed

lemma writes_run_all [writes_intro]:
  "list_all2 (writes V M) as wss \<Longrightarrow> writes V M (run_all as) (concat wss)"
  by (induction rule: list_all2_induct) (auto intro: writes_ret writes_bind)

lemma writes_option [writes_intro]:
  "(\<And>x. opt = Some x \<Longrightarrow> writes V M (f x) (g x)) \<Longrightarrow>
     writes V M (case opt of None \<Rightarrow> ret () | Some x \<Rightarrow> f x) (case opt of None \<Rightarrow> [] | Some x \<Rightarrow> g x)"
  by (cases opt) (simp_all add: writes_ret)

lemma writes_run_map:
  "(\<And>x. x \<in> set xs \<Longrightarrow> writes V M (f x) (g x)) \<Longrightarrow>
     writes V M (run_all (map f xs)) (concat (map g xs))"
  by (rule writes_run_all) (simp add: list_all2_conv_all_nth)

lemma writes_run_all_singles:
  "list_all2 (\<lambda>a w. writes V M a [w]) as ws \<Longrightarrow> writes V M (run_all as) ws"
proof (induction rule: list_all2_induct)
  case (Cons a as w ws)
  then show ?case using writes_bind [of V M a "[w]" "run_all as" ws] by simp
qed (simp add: writes_ret)

text \<open>\<open>core_is M h k n\<close>: the core \<open>h\<close> is of kind \<open>k\<close> and takes \<open>n\<close> labels.\<close>

definition core_is :: "(handle \<rightharpoonup> metric_desc) \<Rightarrow> handle \<Rightarrow> metric_kind \<Rightarrow> nat \<Rightarrow> bool" where
  "core_is M h k n \<longleftrightarrow> (\<exists>d. M h = Some d \<and> d_kind d = k \<and> length (d_labels d) = n)"

lemma core_isI: "M h = Some d \<Longrightarrow> d_kind d = k \<Longrightarrow> length (d_labels d) = n \<Longrightarrow> core_is M h k n"
  by (auto simp: core_is_def)

lemma writes_set_int:
  assumes "prom_ok P V" "core_is M h IntGauge n"
  shows "writes V M (set_int P h v) [(plain h, IntV v)]"
  unfolding writes_def
  using assms(2) int_gauge_set_assigns [OF assms(1), of _ "plain h" v]
  by (auto simp: set_int_def step_act_def assigns_def kind_at_def plain_def core_is_def)

lemma writes_set_float:
  assumes "prom_ok P V" "core_is M h Gauge n"
  shows "writes V M (set_float P h v) [(plain h, FloatV v)]"
  unfolding writes_def
  using assms(2) gauge_set_assigns [OF assms(1), of _ "plain h" v]
  by (auto simp: set_float_def step_act_def assigns_def kind_at_def plain_def core_is_def)

lemma writes_set_labelled:
  assumes P: "prom_ok P V" and h: "core_is M h IntGaugeVec n" and l: "length ls = n"
  shows "writes V M (set_labelled P h ls v) [((h, ls), IntV v)]"
  unfolding writes_def
proof (intro allI impI)
  fix s assume s: "meta V s = M"
  with h l obtain d where d: "meta V s h = Some d" "d_kind d = IntGaugeVec"
    "length ls = length (d_labels d)" by (auto simp: core_is_def)
  obtain t where t: "with_label_values P h ls s = (Some (h, ls), t)" "same V s t"
    using labelled_Ok [OF P d(1,3)] by blast
  then have "kind_at V t (h, ls) IntGaugeVec"
    using d by (simp add: kind_at_def same_def)
  then have "assigns V t (int_gauge_set P (h, ls) v t) (h, ls) (IntV v)"
    using int_gauge_set_assigns [OF P] by blast
  with t s show "\<exists>t. set_labelled P h ls v s = (Ok (), t) \<and> meta V t = M \<and> regs V t = regs V s \<and>
      val V t = apply_writes [((h, ls), IntV v)] (val V s)"
    by (auto simp: set_labelled_def labelled_def bind_act_def step_act_def assigns_def same_def)
qed

text \<open>Counters and histograms: the new value depends on the old one.\<close>

lemma count_labelled_Ok:
  assumes P: "prom_ok P V" and c: "core_is (meta V s) h IntCounterVec (length ls)"
    and v: "val V s (h, ls) = CountV n"
  shows "\<exists>t. count_labelled P h ls s = (Ok (), t) \<and> assigns V s t (h, ls) (CountV (n + 1))"
proof -
  from c obtain d where h: "meta V s h = Some d" "d_kind d = IntCounterVec" and l: "length ls = length (d_labels d)"
    by (auto simp: core_is_def)
  obtain t where t: "with_label_values P h ls s = (Some (h, ls), t)" "same V s t"
    using labelled_Ok [OF P h(1) l] by blast
  then have "assigns V t (int_counter_inc P (h, ls) t) (h, ls) (CountV (n + 1))"
    using h v by (intro int_counter_inc_assigns [OF P]) (auto simp: kind_at_def same_def)
  with t show ?thesis
    by (auto simp: count_labelled_def labelled_def bind_act_def step_act_def
        assigns_def same_def)
qed

lemma observe_labelled_Ok:
  assumes P: "prom_ok P V" and c: "core_is (meta V s) h HistogramVec (length ls)"
    and v: "val V s (h, ls) = HistV xs"
  shows "\<exists>t. observe_labelled P h ls x s = (Ok (), t) \<and> assigns V s t (h, ls) (HistV (xs @ [x]))"
proof -
  from c obtain d where h: "meta V s h = Some d" "d_kind d = HistogramVec" and l: "length ls = length (d_labels d)"
    by (auto simp: core_is_def)
  obtain t where t: "with_label_values P h ls s = (Some (h, ls), t)" "same V s t"
    using labelled_Ok [OF P h(1) l] by blast
  then have "assigns V t (histogram_observe P (h, ls) x t) (h, ls) (HistV (xs @ [x]))"
    using h v by (intro histogram_observe_assigns [OF P]) (auto simp: kind_at_def same_def)
  with t show ?thesis
    by (auto simp: observe_labelled_def labelled_def bind_act_def step_act_def
        assigns_def same_def)
qed

end
