(* ===== verification/Core.thy ===== *)
theory Core
  imports PromApi
begin

text \<open>
  The crate \<open>dr-metrix-core\<close>: \<open>error.rs\<close> (\<open>MetricsError\<close>), \<open>lib.rs\<close>
  (\<open>DEFAULT_QUERY_BUCKETS\<close>) and \<open>collector.rs\<close> (\<open>CollectorConfig\<close>, the trait
  \<open>MetricsCollector\<close> and its default method \<open>spawn_collect_loop\<close>), with the
  operations every backend crate shares: building scoped options, constructing a list of
  metrics with \<open>?\<close> after each, registering a list of metrics with \<open>?\<close> after each.

  The trait is the locale \<open>metrics_collector\<close>: an implementation provides \<open>register\<close>
  and \<open>collect\<close> over the metrics it owns and promises that it never panics and writes
  its own series only.  What follows for the polling loop is proved once in the locale; the
  Redis, MongoDB and PostgreSQL theories interpret it on their own definitions.
\<close>

subsection \<open>error.rs and lib.rs\<close>

datatype metrics_error = Prometheus prom_error | Database string | Collector string

text \<open>The argument is the text that \<open>Display\<close> gives for the driver's error.\<close>

definition database_error :: "string \<Rightarrow> metrics_error" where
  "database_error msg = Database msg"

definition collector_error :: "string \<Rightarrow> metrics_error" where
  "collector_error msg = Collector msg"

fun show_metrics_error :: "(prom_error \<Rightarrow> string) \<Rightarrow> metrics_error \<Rightarrow> string" where
  "show_metrics_error show_prom (Prometheus e) = ''prometheus error: '' @ show_prom e"
| "show_metrics_error show_prom (Database msg) = ''database error: '' @ msg"
| "show_metrics_error show_prom (Collector msg) = ''collector error: '' @ msg"

definition DEFAULT_QUERY_BUCKETS :: "f64 list" where
  "DEFAULT_QUERY_BUCKETS =
     [f64_lit 1 10000, f64_lit 5 10000, f64_lit 1 1000, f64_lit 5 1000, f64_lit 1 100,
      f64_lit 25 1000, f64_lit 5 100, f64_lit 1 10, f64_lit 25 100, f64_lit 5 10,
      f64_lit 1 1, f64_lit 25 10, f64_lit 5 1, f64_lit 10 1]"

lemmas f64_eval =
  f64_lit_def f64_of_nat_def f64_round_def frac_log2_def scale_pow_def round_half_even_def Let_def
  less_f64_def

lemma query_buckets_eval:
  "DEFAULT_QUERY_BUCKETS =
     [F64_Fin False 7378697629483821 (-66), F64_Fin False 4611686018427388 (-63),
      F64_Fin False 4611686018427388 (-62), F64_Fin False 5764607523034235 (-60),
      F64_Fin False 5764607523034235 (-59), F64_Fin False 7205759403792794 (-58),
      F64_Fin False 7205759403792794 (-57), F64_Fin False 7205759403792794 (-56),
      F64_Fin False 4503599627370496 (-54), F64_Fin False 4503599627370496 (-53),
      F64_Fin False 4503599627370496 (-52), F64_Fin False 5629499534213120 (-51),
      F64_Fin False 5629499534213120 (-50), F64_Fin False 5629499534213120 (-49)]"
  by (simp add: DEFAULT_QUERY_BUCKETS_def f64_eval)

lemma query_buckets_sorted: "sorted_wrt (<) DEFAULT_QUERY_BUCKETS"
  by (simp add: query_buckets_eval less_f64_def scale_pow_def)

subsection \<open>CollectorConfig\<close>

text \<open>A \<open>Duration\<close> is its length in nanoseconds.\<close>

record collector_config =
  namespace :: string
  collect_interval :: nat
  const_labels :: "string \<rightharpoonup> string"

definition from_secs :: "nat \<Rightarrow> nat" where
  "from_secs n = n * 10 ^ 9"

definition default_config :: collector_config where
  "default_config =
     \<lparr>namespace = '''', collect_interval = from_secs 15, const_labels = Map.empty\<rparr>"

definition clone_config :: "collector_config \<Rightarrow> collector_config" where
  "clone_config c =
     \<lparr>namespace = namespace c, collect_interval = collect_interval c, const_labels = const_labels c\<rparr>"

lemma clone_config_id: "clone_config c = c"
  by (simp add: clone_config_def)

subsection \<open>Constructing metrics\<close>

text \<open>\<open>?\<close> on a Prometheus result converts the error with \<open>#[from]\<close>.\<close>

definition try_prom :: "('s \<Rightarrow> (prom_error + 'a) \<times> 's) \<Rightarrow> ('s, metrics_error, 'a) action" where
  "try_prom f s =
     (case f s of
        (Inl e, t) \<Rightarrow> (Err (Prometheus e), t)
      | (Inr x, t) \<Rightarrow> (Ok x, t))"

text \<open>
  \<open>Opts::new(name, help).subsystem(sub)\<close>, and \<open>.namespace(ns)\<close> unless it is empty: the
  beginning of every metric macro of the backend crates.
\<close>

definition scoped_opts :: "string \<Rightarrow> string \<Rightarrow> string \<Rightarrow> string \<Rightarrow> opts" where
  "scoped_opts ns sub name help =
     (let o' = (opts_new name help)\<lparr>o_subsystem := sub\<rparr>
      in if ns = '''' then o' else o'\<lparr>o_namespace := ns\<rparr>)"

type_synonym metric_spec = "metric_kind \<times> opts \<times> string list \<times> f64 list"

definition new_metric :: "'s prometheus \<Rightarrow> metric_spec \<Rightarrow> ('s, metrics_error, handle) action" where
  "new_metric P sp = (case sp of (k, o', ls, bs) \<Rightarrow> try_prom (metric_new P k o' ls bs))"

fun new_all :: "'s prometheus \<Rightarrow> metric_spec list \<Rightarrow> ('s, metrics_error, handle list) action" where
  "new_all P [] = ret []"
| "new_all P (sp # sps) =
     bind_act (new_metric P sp) (\<lambda>h. bind_act (new_all P sps) (\<lambda>hs. ret (h # hs)))"

definition spec_desc :: "metric_spec \<Rightarrow> metric_desc" where
  "spec_desc sp = (case sp of (k, o', ls, bs) \<Rightarrow> desc_of k o' ls bs)"

definition spec_valid :: "metric_spec \<Rightarrow> bool" where
  "spec_valid sp = (case sp of (k, o', ls, bs) \<Rightarrow> valid_desc k o' ls bs)"

text \<open>
  \<open>allocated V s t hs ds\<close>: between \<open>s\<close> and \<open>t\<close> the fresh, distinct cores \<open>hs\<close> with
  descriptors \<open>ds\<close> appeared with their initial values, and nothing else changed.
\<close>

definition allocated ::
  "'s prom_view \<Rightarrow> 's \<Rightarrow> 's \<Rightarrow> handle list \<Rightarrow> metric_desc list \<Rightarrow> bool" where
  "allocated V s t hs ds \<longleftrightarrow>
     length hs = length ds \<and> distinct hs \<and> set hs \<inter> dom (meta V s) = {} \<and>
     meta V t = (meta V s)(hs [\<mapsto>] ds) \<and> regs V t = regs V s \<and>
     (\<forall>sr. fst sr \<notin> set hs \<longrightarrow> val V t sr = val V s sr) \<and>
     (\<forall>(h, d)\<in>set (zip hs ds). \<forall>ls. val V t (h, ls) = initial_value (d_kind d))"

lemma desc_of_kind [simp]: "d_kind (desc_of k o' ls bs) = k"
  by (simp add: desc_of_def)

lemma desc_of_labels [simp]: "d_labels (desc_of k o' ls bs) = ls"
  by (simp add: desc_of_def)

lemma new_metric_cases:
  assumes "prom_ok P V" and "new_metric P sp s = (r, t)"
  obtains (refused) e where "r = Err (Prometheus e)" "same V s t" "\<not> spec_valid sp"
  | (fresh) h where "r = Ok h" "allocated V s t [h] [spec_desc sp]"
proof -
  obtain k o' ls bs where sp: "sp = (k, o', ls, bs)" by (cases sp)
  obtain x u where x: "metric_new P k o' ls bs s = (x, u)" by (cases "metric_new P k o' ls bs s")
  with assms(2) sp have r: "u = t" "r = (case x of Inl e \<Rightarrow> Err (Prometheus e) | Inr h \<Rightarrow> Ok h)"
    by (auto simp: new_metric_def try_prom_def split: sum.splits)
  from assms(1) x [unfolded r(1)] show ?thesis
  proof (cases rule: new_cases)
    case (refused e)
    with r sp that(1) show ?thesis by (simp add: spec_valid_def)
  next
    case (fresh h)
    with r sp that(2) [of h] show ?thesis
      by (auto simp: spec_desc_def allocated_def domIff)
  qed
qed

lemma allocated_Cons:
  assumes a: "allocated V s t [h] [d]" and b: "allocated V t u hs ds"
  shows "allocated V s u (h # hs) (d # ds)"
proof -
  have h: "h \<notin> set hs" "h \<notin> dom (meta V s)" "set hs \<inter> dom (meta V s) = {}"
    using a b by (auto simp: allocated_def)
  moreover have "val V u (h, ls) = initial_value (d_kind d)" for ls
    using a b h(1) by (simp add: allocated_def)
  ultimately show ?thesis
    using a b by (auto simp: allocated_def)
qed

lemma allocated_Nil: "same V s t \<Longrightarrow> allocated V s t [] []"
  by (simp add: allocated_def same_def)

lemma new_all_Ok:
  assumes "prom_ok P V"
  shows "new_all P sps s = (Ok hs, t) \<Longrightarrow> allocated V s t hs (map spec_desc sps)"
proof (induction sps arbitrary: s hs)
  case Nil
  then show ?case by (auto simp: action_iff same_def intro: allocated_Nil)
next
  case (Cons sp sps)
  then obtain h u hs' where h: "new_metric P sp s = (Ok h, u)" and hs': "new_all P sps u = (Ok hs', t)"
    and hs: "hs = h # hs'"
    by (auto simp: action_iff)
  from assms h have "allocated V s u [h] [spec_desc sp]"
    by (cases rule: new_metric_cases) auto
  then show ?case using Cons.IH [OF hs'] hs allocated_Cons by fastforce
qed

lemma new_all_valid:
  assumes "prom_ok P V"
  shows "\<forall>sp\<in>set sps. spec_valid sp \<Longrightarrow> \<exists>hs t. new_all P sps s = (Ok hs, t)"
proof (induction sps arbitrary: s)
  case (Cons sp sps)
  obtain r u where r: "new_metric P sp s = (r, u)" by (cases "new_metric P sp s")
  from assms r obtain h where "r = Ok h"
    using Cons.prems by (cases rule: new_metric_cases) auto
  moreover obtain hs t where "new_all P sps u = (Ok hs, t)" using Cons.IH [of u] Cons.prems by auto
  ultimately show ?case using r by (simp add: action_iff)
qed (simp add: ret_def)

lemma new_metric_not_Panic: "prom_ok P V \<Longrightarrow> new_metric P sp s \<noteq> (Panic, t)"
  by (auto elim: new_metric_cases)

lemma new_all_not_Panic:
  assumes "prom_ok P V"
  shows "new_all P sps s \<noteq> (Panic, t)"
proof (induction sps arbitrary: s)
  case (Cons sp sps)
  then show ?case by (auto simp: action_iff new_metric_not_Panic [OF assms])
qed (simp add: ret_def)

text \<open>
  A constructor that allocates its metrics in order and returns the struct \<open>mk hs\<close>, whose
  handles are again \<open>hs\<close>.
\<close>

lemma new_struct_Ok:
  assumes "prom_ok P V" and "bind_act (new_all P sps) (\<lambda>hs. ret (mk hs)) s = (Ok m, t)"
    and "\<And>hs. length hs = length sps \<Longrightarrow> handles (mk hs) = hs"
  shows "allocated V s t (handles m) (map spec_desc sps) \<and> (\<exists>hs. m = mk hs)"
proof -
  obtain hs where hs: "new_all P sps s = (Ok hs, t)" and m: "m = mk hs"
    using assms(2) by (auto simp: action_iff)
  have "allocated V s t hs (map spec_desc sps)" using new_all_Ok [OF assms(1) hs] .
  moreover from this have "length hs = length sps" by (simp add: allocated_def)
  ultimately show ?thesis using m assms(3) by auto
qed

lemma new_struct_valid:
  assumes "prom_ok P V" and "\<forall>sp\<in>set sps. spec_valid sp"
  shows "\<exists>m t. bind_act (new_all P sps) (\<lambda>hs. ret (mk hs)) s = (Ok m, t)"
  using new_all_valid [OF assms, of s] by (auto simp: action_iff)

subsection \<open>Names\<close>

definition ns_prefix :: "string \<Rightarrow> string" where
  "ns_prefix ns = (if ns = '''' then '''' else ns @ ''_'')"

definition valid_namespace :: "string \<Rightarrow> bool" where
  "valid_namespace ns \<longleftrightarrow> ns = '''' \<or> valid_name ns"

lemma scoped_opts_sel [simp]:
  "o_help (scoped_opts ns sub name help) = help"
  "o_const_labels (scoped_opts ns sub name help) = []"
  by (simp_all add: scoped_opts_def opts_new_def Let_def)

lemma fq_scoped_opts:
  "sub \<noteq> '''' \<Longrightarrow> name \<noteq> '''' \<Longrightarrow>
     doc_fq_name (scoped_opts ns sub name help) = ns_prefix ns @ sub @ ''_'' @ name"
  by (simp add: doc_fq_name_def scoped_opts_def opts_new_def ns_prefix_def Let_def)

lemma valid_name_append:
  assumes "valid_name a" and "\<forall>c\<in>set b. name_start c \<or> is_digit c"
  shows "valid_name (a @ b)"
  using assms by (auto simp: valid_name_def)

lemma valid_name_scoped:
  assumes "valid_namespace ns" "valid_name sub" "valid_name name"
  shows "valid_name (doc_fq_name (scoped_opts ns sub name help))"
proof -
  have u: "name_start (CHR ''_'')" by (simp add: name_start_def Let_def)
  have sn: "valid_name (sub @ ''_'' @ name)"
    using assms(2,3) u by (intro valid_name_append) (auto simp: valid_name_def)
  have "valid_name (ns_prefix ns @ sub @ ''_'' @ name)"
  proof (cases "ns = ''''")
    case True
    then show ?thesis using sn by (simp add: ns_prefix_def)
  next
    case False
    with assms(1) have "valid_name ns" by (simp add: valid_namespace_def)
    then have "valid_name (ns @ ''_'' @ sub @ ''_'' @ name)"
      using sn u by (intro valid_name_append) (auto simp: valid_name_def)
    then show ?thesis using False by (simp add: ns_prefix_def)
  qed
  moreover have "sub \<noteq> ''''" "name \<noteq> ''''" using assms(2,3) by (auto simp: valid_name_def)
  ultimately show ?thesis by (simp add: fq_scoped_opts)
qed

lemma spec_valid_scoped:
  assumes "valid_namespace ns" "valid_name sub" "valid_name name" "help \<noteq> ''''"
    and "\<forall>l\<in>set ls. valid_label l" "distinct ls"
    and "k = HistogramVec \<Longrightarrow> ''le'' \<notin> set ls \<and> sorted_wrt (<) bs"
  shows "spec_valid (k, scoped_opts ns sub name help, ls, bs)"
  using assms valid_name_scoped [OF assms(1-3)] by (simp add: spec_valid_def valid_desc_def)

lemma spec_desc_scoped:
  assumes "sub \<noteq> ''''" "name \<noteq> ''''"
  shows "spec_desc (k, scoped_opts ns sub name help, ls, bs) =
    \<lparr>d_kind = k, d_names = [ns_prefix ns @ sub @ ''_'' @ name], d_labels = ls, d_buckets = bs\<rparr>"
  using assms by (simp add: spec_desc_def desc_of_def fq_scoped_opts)

lemmas valid_eval = valid_label_def valid_name_def name_start_def is_digit_def Let_def

subsection \<open>Registering metrics\<close>

text \<open>One \<open>registry.register(Box::new(m.clone()))?;\<close> per metric, in order.\<close>

definition register_one :: "'s prometheus \<Rightarrow> handle \<Rightarrow> handle \<Rightarrow> ('s, metrics_error, unit) action" where
  "register_one P r h = try_prom (registry_register P r h)"

definition register_metrics ::
  "'s prometheus \<Rightarrow> handle \<Rightarrow> handle list \<Rightarrow> ('s, metrics_error, unit) action" where
  "register_metrics P r hs = run_all (map (register_one P r) hs)"

text \<open>The names that a list of cores exports.\<close>

definition names_of :: "(handle \<rightharpoonup> metric_desc) \<Rightarrow> handle list \<Rightarrow> string list" where
  "names_of M hs = concat (map (\<lambda>h. case M h of None \<Rightarrow> [] | Some d \<Rightarrow> d_names d) hs)"

lemma names_of_simps [simp]:
  "names_of M [] = []"
  "names_of M (h # hs) = (case M h of None \<Rightarrow> [] | Some d \<Rightarrow> d_names d) @ names_of M hs"
  "names_of M (xs @ ys) = names_of M xs @ names_of M ys"
  by (simp_all add: names_of_def)

lemma mem_names_of:
  "x \<in> set (names_of M hs) \<longleftrightarrow> (\<exists>h\<in>set hs. \<exists>d. M h = Some d \<and> x \<in> set (d_names d))"
  by (induction hs) (auto split: option.splits)

lemma name_clash_names:
  "name_clash V s hs d \<longleftrightarrow> set (d_names d) \<inter> set (names_of (meta V s) hs) \<noteq> {}"
  unfolding name_clash_def by (simp add: disjoint_iff mem_names_of) blast

text \<open>
  What registration does to the registry \<open>r\<close>: a prefix of the metrics is appended, each with
  names that were free, all of them on success; on an error the first one not appended has a
  name that is taken.
\<close>

definition registered ::
  "'s prom_view \<Rightarrow> 's \<Rightarrow> 's \<Rightarrow> handle \<Rightarrow> handle list \<Rightarrow> (metrics_error, unit) outcome \<Rightarrow> bool" where
  "registered V s t r hs res \<longleftrightarrow>
     meta V t = meta V s \<and> val V t = val V s \<and>
     (\<exists>k rs. regs V s r = Some rs \<and> regs V t = (regs V s)(r \<mapsto> rs @ take k hs) \<and>
        (\<forall>i<k. \<exists>d. meta V s (hs ! i) = Some d \<and> \<not> name_clash V s (rs @ take i hs) d) \<and>
        (case res of
           Ok _ \<Rightarrow> k = length hs
         | Err e \<Rightarrow> k < length hs \<and> e = Prometheus AlreadyReg \<and>
             (\<exists>d. meta V s (hs ! k) = Some d \<and> name_clash V s (rs @ take k hs) d)
         | Panic \<Rightarrow> False))"

lemma register_one_cases:
  assumes "prom_ok P V" "regs V s r = Some rs" "meta V s h = Some d"
    and "register_one P r h s = (res, t)"
  obtains (ok) "res = Ok ()" "meta V t = meta V s" "val V t = val V s"
      "regs V t = (regs V s)(r \<mapsto> rs @ [h])" "\<not> name_clash V s rs d"
  | (err) "res = Err (Prometheus AlreadyReg)" "same V s t" "name_clash V s rs d"
proof -
  obtain x u where x: "registry_register P r h s = (x, u)" by (cases "registry_register P r h s")
  with assms(4) have r: "u = t" "res = (case x of Inl e \<Rightarrow> Err (Prometheus e) | Inr y \<Rightarrow> Ok y)"
    by (auto simp: register_one_def try_prom_def split: sum.splits)
  show ?thesis
  proof (cases "name_clash V s rs d")
    case True
    with register_Err_same [OF assms(1-3) x] r err show ?thesis by simp
  next
    case False
    with register_Ok_appends [OF assms(1-3) x] r ok show ?thesis by simp
  qed
qed

lemma register_metrics_registered:
  assumes "prom_ok P V"
  shows "regs V s r = Some rs \<Longrightarrow> set hs \<subseteq> dom (meta V s) \<Longrightarrow>
     register_metrics P r hs s = (res, t) \<Longrightarrow> registered V s t r hs res"
proof (induction hs arbitrary: s rs)
  case Nil
  then show ?case by (auto simp: register_metrics_def action_iff registered_def)
next
  case (Cons h hs)
  then obtain d where d: "meta V s h = Some d" by auto
  obtain x u where x: "register_one P r h s = (x, u)" by (cases "register_one P r h s")
  from assms Cons.prems(1) d x show ?case
  proof (cases rule: register_one_cases)
    case ok
    with Cons.prems(3) x have run: "register_metrics P r hs u = (res, t)"
      by (simp add: register_metrics_def bind_act_of_Ok)
    have "registered V u t r hs res"
      using ok Cons.prems(2) by (intro Cons.IH [OF _ _ run]) auto
    then obtain k where k: "regs V t = (regs V u)(r \<mapsto> (rs @ [h]) @ take k hs)"
      and n: "\<forall>i<k. \<exists>d. meta V u (hs ! i) = Some d \<and> \<not> name_clash V u ((rs @ [h]) @ take i hs) d"
      and c: "case res of Ok _ \<Rightarrow> k = length hs
         | Err e \<Rightarrow> k < length hs \<and> e = Prometheus AlreadyReg \<and>
             (\<exists>d. meta V u (hs ! k) = Some d \<and> name_clash V u ((rs @ [h]) @ take k hs) d)
         | Panic \<Rightarrow> False"
      and mv: "meta V t = meta V u" "val V t = val V u"
      using ok by (auto simp: registered_def)
    have n': "\<forall>i<Suc k. \<exists>d. meta V s ((h # hs) ! i) = Some d \<and>
        \<not> name_clash V s (rs @ take i (h # hs)) d"
    proof (intro allI impI)
      fix i
      assume "i < Suc k"
      then show "\<exists>d. meta V s ((h # hs) ! i) = Some d \<and> \<not> name_clash V s (rs @ take i (h # hs)) d"
        using n ok(2,5) d by (cases i) (auto simp: name_clash_def)
    qed
    show ?thesis
      unfolding registered_def
      using k c mv ok Cons.prems(1)
      by (intro conjI exI [of _ "Suc k"] exI [of _ rs] n')
        (auto simp: name_clash_def split: outcome.splits)
  next
    case err
    with Cons.prems x have "t = u" "res = Err (Prometheus AlreadyReg)"
      by (simp_all add: register_metrics_def bind_act_of_Err)
    with err d Cons.prems(1) show ?thesis
      unfolding registered_def
      by (intro conjI exI [of _ 0] exI [of _ rs]) (auto simp: same_def)
  qed
qed

lemma registered_fresh:
  assumes reg: "registered V s t r hs res" and r: "regs V s r = Some rs"
    and fresh: "distinct (names_of (meta V s) hs)"
      "set (names_of (meta V s) hs) \<inter> set (names_of (meta V s) rs) = {}"
  shows "res = Ok ()" and "regs V t = (regs V s)(r \<mapsto> rs @ hs)"
proof -
  show "res = Ok ()"
  proof (cases res)
    case (Err e)
    with reg r obtain k d where k: "k < length hs" "meta V s (hs ! k) = Some d"
      "name_clash V s (rs @ take k hs) d"
      by (auto simp: registered_def)
    have "hs = take k hs @ hs ! k # drop (Suc k) hs" using k(1) by (rule id_take_nth_drop)
    then have "names_of (meta V s) hs =
        names_of (meta V s) (take k hs) @ d_names d @ names_of (meta V s) (drop (Suc k) hs)"
      using k(2) by (metis names_of_simps(2,3) option.simps(5))
    with fresh k(3) show ?thesis by (auto simp: name_clash_names)
  qed (use reg in \<open>auto simp: registered_def\<close>)
  with reg r show "regs V t = (regs V s)(r \<mapsto> rs @ hs)" by (auto simp: registered_def)
qed

text \<open>A name that is taken makes registration fail, after the metrics before it were appended.\<close>

lemma registered_clash:
  assumes reg: "registered V s t r hs res" and r: "regs V s r = Some rs" and hs: "set hs \<subseteq> dom (meta V s)"
    and clash: "set (names_of (meta V s) hs) \<inter> set (names_of (meta V s) rs) \<noteq> {}"
  shows "res = Err (Prometheus AlreadyReg)" and "\<exists>k<length hs. regs V t = (regs V s)(r \<mapsto> rs @ take k hs)"
proof -
  obtain k where k: "regs V t = (regs V s)(r \<mapsto> rs @ take k hs)"
    "\<forall>i<k. \<exists>d. meta V s (hs ! i) = Some d \<and> \<not> name_clash V s (rs @ take i hs) d"
    "case res of Ok _ \<Rightarrow> k = length hs
     | Err e \<Rightarrow> k < length hs \<and> e = Prometheus AlreadyReg \<and>
         (\<exists>d. meta V s (hs ! k) = Some d \<and> name_clash V s (rs @ take k hs) d)
     | Panic \<Rightarrow> False"
    using reg r by (auto simp: registered_def)
  have "res \<noteq> Ok x" for x
  proof
    assume "res = Ok x"
    with k have all: "\<forall>i<length hs. \<exists>d. meta V s (hs ! i) = Some d \<and> \<not> name_clash V s (rs @ take i hs) d" by simp
    obtain n where n: "n \<in> set (names_of (meta V s) hs)" "n \<in> set (names_of (meta V s) rs)"
      using clash by blast
    then obtain h d where h: "h \<in> set hs" "meta V s h = Some d" "n \<in> set (d_names d)"
      by (auto simp: mem_names_of)
    then obtain i where i: "i < length hs" "hs ! i = h" by (auto simp: in_set_conv_nth)
    with all h(2) have "\<not> name_clash V s (rs @ take i hs) d" by auto
    with h(3) n(2) show False unfolding name_clash_names by auto
  qed
  with k(3) show "res = Err (Prometheus AlreadyReg)" by (cases res) auto
  with k(1,3) show "\<exists>k<length hs. regs V t = (regs V s)(r \<mapsto> rs @ take k hs)" by auto
qed

text \<open>Registering what is already registered fails on the first metric and changes nothing.\<close>

lemma register_metrics_again:
  assumes "prom_ok P V" and r: "regs V s r = Some rs" and hs: "set (h # hs) \<subseteq> dom (meta V s)"
    and clash: "set (names_of (meta V s) [h]) \<inter> set (names_of (meta V s) rs) \<noteq> {}"
  shows "\<exists>t. register_metrics P r (h # hs) s = (Err (Prometheus AlreadyReg), t) \<and> same V s t"
proof -
  obtain d where d: "meta V s h = Some d" using hs by auto
  obtain x t where x: "register_one P r h s = (x, t)" by (cases "register_one P r h s")
  from assms(1) r d x have "x = Err (Prometheus AlreadyReg) \<and> same V s t"
    by (cases rule: register_one_cases) (use clash d in \<open>auto simp: name_clash_names\<close>)
  with x show ?thesis by (simp add: register_metrics_def bind_act_of_Err)
qed

subsection \<open>The polling loop of \<open>spawn_collect_loop\<close>\<close>

text \<open>
  The task that \<open>tokio::spawn\<close> receives: the collector's name (for the log), the
  interval and the \<open>collect\<close> method.  The \<open>tokio\<close> crate is a parameter:
  \<open>interval_panics\<close> says for which periods \<open>tokio::time::interval\<close> panics, spawning
  and aborting act on the world.
\<close>

record 's loop_task =
  task_name :: string
  task_interval :: nat
  task_collect :: "('s, metrics_error, unit) action"

record 's tokio =
  interval_panics :: "nat \<Rightarrow> bool"
  tokio_spawn :: "'s loop_task \<Rightarrow> 's \<Rightarrow> handle \<times> 's"
  tokio_abort :: "handle \<Rightarrow> 's \<Rightarrow> 's"

datatype loop_status = Running | Dead

type_synonym warning = "string \<times> metrics_error"

text \<open>
  What the loop makes of the result of one \<open>collect\<close>: an error is logged, a panic ends the task.
\<close>

definition after_poll :: "string \<Rightarrow> (metrics_error, unit) outcome \<Rightarrow> loop_status \<times> warning list" where
  "after_poll name r =
     (case r of
        Ok _ \<Rightarrow> (Running, [])
      | Err e \<Rightarrow> (Running, [(name, e)])
      | Panic \<Rightarrow> (Dead, []))"

text \<open>One pass of the loop body after a tick.\<close>

definition loop_body ::
  "string \<Rightarrow> ('s, metrics_error, unit) action \<Rightarrow> 's \<Rightarrow> loop_status \<times> warning list \<times> 's" where
  "loop_body name collect s =
     (case collect s of (r, t) \<Rightarrow> (case after_poll name r of (st, ws) \<Rightarrow> (st, ws, t)))"

text \<open>The loop never returns; \<open>collect_loop n\<close> is its state after \<open>n\<close> ticks.\<close>

fun collect_loop ::
  "string \<Rightarrow> ('s, metrics_error, unit) action \<Rightarrow> nat \<Rightarrow> 's \<Rightarrow> loop_status \<times> warning list \<times> 's" where
  "collect_loop name collect 0 s = (Running, [], s)"
| "collect_loop name collect (Suc n) s =
     (case loop_body name collect s of
        (Dead, w, t) \<Rightarrow> (Dead, w, t)
      | (Running, w, t) \<Rightarrow>
          (case collect_loop name collect n t of (st, ws, u) \<Rightarrow> (st, w @ ws, u)))"

definition run_task :: "'s tokio \<Rightarrow> 's loop_task \<Rightarrow> nat \<Rightarrow> 's \<Rightarrow> loop_status \<times> warning list \<times> 's" where
  "run_task T lt n s =
     (if interval_panics T (task_interval lt) then (Dead, [], s)
      else collect_loop (task_name lt) (task_collect lt) n s)"

definition spawn_collect_loop ::
  "'s tokio \<Rightarrow> string \<Rightarrow> ('s, metrics_error, unit) action \<Rightarrow> nat \<Rightarrow> 's \<Rightarrow> handle \<times> 's" where
  "spawn_collect_loop T name collect interval =
     tokio_spawn T \<lparr>task_name = name, task_interval = interval, task_collect = collect\<rparr>"

text \<open>
  A loop survives exactly as long as no pass panics, whatever errors the passes return:
  the reference is plain iteration of the state change.
\<close>

fun iterate :: "('s \<Rightarrow> 's) \<Rightarrow> nat \<Rightarrow> 's \<Rightarrow> 's" where
  "iterate f 0 s = s"
| "iterate f (Suc n) s = iterate f n (f s)"

lemma collect_loop_survives:
  assumes "I s" and "\<And>s r t. I s \<Longrightarrow> collect s = (r, t) \<Longrightarrow> r \<noteq> Panic \<and> I t"
  shows "\<exists>ws. collect_loop name collect n s = (Running, ws, iterate (\<lambda>a. snd (collect a)) n s) \<and>
     length ws \<le> n \<and> I (iterate (\<lambda>a. snd (collect a)) n s)"
  using assms(1)
proof (induction n arbitrary: s)
  case (Suc n)
  obtain r t where rt: "collect s = (r, t)" by (cases "collect s")
  then have r: "r \<noteq> Panic" "I t" using assms(2) Suc.prems by blast+
  then obtain w where w: "loop_body name collect s = (Running, w, t)" "length w \<le> 1"
    using rt by (cases r) (auto simp: loop_body_def after_poll_def)
  obtain ws where "collect_loop name collect n t = (Running, ws, iterate (\<lambda>a. snd (collect a)) n t)"
    "length ws \<le> n" "I (iterate (\<lambda>a. snd (collect a)) n t)"
    using Suc.IH [OF r(2)] by blast
  then show ?case using w rt by auto
qed simp

subsection \<open>The trait \<open>MetricsCollector\<close>\<close>

definition owned :: "(handle \<rightharpoonup> metric_desc) \<Rightarrow> handle list \<Rightarrow> metric_desc list \<Rightarrow> bool" where
  "owned M hs ds \<longleftrightarrow> distinct hs \<and> list_all2 (\<lambda>h d. M h = Some d) hs ds"

lemma owned_dom: "owned M hs ds \<Longrightarrow> set hs \<subseteq> dom M"
  by (auto simp: owned_def list_all2_conv_all_nth in_set_conv_nth)

lemma map_upds_nth:
  assumes "distinct hs" "length hs = length ds" "i < length hs"
  shows "(m(hs [\<mapsto>] ds)) (hs ! i) = Some (ds ! i)"
proof -
  have "distinct (map fst (rev (zip hs ds)))" using assms(1,2) by (simp flip: rev_map)
  moreover have "(hs ! i, ds ! i) \<in> set (rev (zip hs ds))"
    using assms(2,3) by (auto simp: set_zip)
  ultimately have "map_of (rev (zip hs ds)) (hs ! i) = Some (ds ! i)"
    by (simp only: map_of_eq_Some_iff)
  then show ?thesis by (simp add: map_upds_def map_add_Some_iff)
qed

lemma allocated_owned: "allocated V s t hs ds \<Longrightarrow> owned (meta V t) hs ds"
  by (auto simp: allocated_def owned_def list_all2_conv_all_nth map_upds_nth)

lemma owned_nth: "owned M hs ds \<Longrightarrow> i < length hs \<Longrightarrow> M (hs ! i) = Some (ds ! i)"
  by (simp add: owned_def list_all2_conv_all_nth)

lemma owned_length: "owned M hs ds \<Longrightarrow> length ds = length hs"
  by (auto simp: owned_def dest: list_all2_lengthD)

lemma owned_Cons: "owned M (h # hs) (d # ds) \<longleftrightarrow> M h = Some d \<and> h \<notin> set hs \<and> owned M hs ds"
  by (auto simp: owned_def)

lemma owned_Nil [simp]: "owned M [] []"
  by (simp add: owned_def)

lemma names_of_owned:
  assumes "owned M hs ds"
  shows "names_of M hs = concat (map d_names ds)"
proof -
  have "list_all2 (\<lambda>h d. M h = Some d) hs ds" using assms by (simp add: owned_def)
  then show ?thesis by (induction rule: list_all2_induct) auto
qed

text \<open>A world that holds exactly the given cores owns them.\<close>

lemma owned_map_of_zip:
  assumes "distinct hs" "length hs = length ds"
  shows "owned (map_of (zip hs ds)) hs ds"
  using assms by (auto simp: owned_def list_all2_conv_all_nth set_zip)

locale metrics_collector =
  fixes name :: string
    and register :: "'s prometheus \<Rightarrow> handle \<Rightarrow> ('s, metrics_error, unit) action"
    and collect :: "'s prometheus \<Rightarrow> ('s, metrics_error, unit) action"
    and own :: "handle list"
    and descs :: "metric_desc list"
    and env_ok :: "'s prom_view \<Rightarrow> bool"
  assumes register_registers:
      "prom_ok P V \<Longrightarrow> owned (meta V s) own descs \<Longrightarrow> regs V s r = Some rs \<Longrightarrow>
         register P r s = (res, t) \<Longrightarrow> registered V s t r own res"
    and collect_frame:
      "prom_ok P V \<Longrightarrow> env_ok V \<Longrightarrow> owned (meta V s) own descs \<Longrightarrow> collect P s = (res, t) \<Longrightarrow>
         res \<noteq> Panic \<and> meta V t = meta V s \<and> regs V t = regs V s \<and>
         (\<forall>sr. fst sr \<notin> set own \<longrightarrow> val V t sr = val V s sr)"
begin

text \<open>The loop outlives any number of failed polls, and writes the collector's series only.\<close>

lemma loop_alive:
  assumes P: "prom_ok P V" and E: "env_ok V" and own: "owned (meta V s) own descs"
  shows "\<exists>ws t. collect_loop name (collect P) n s = (Running, ws, t) \<and> length ws \<le> n \<and>
     meta V t = meta V s \<and> regs V t = regs V s \<and>
     (\<forall>sr. fst sr \<notin> set own \<longrightarrow> val V t sr = val V s sr)"
proof -
  define I where "I = (\<lambda>t. meta V t = meta V s \<and> regs V t = regs V s \<and>
     (\<forall>sr. fst sr \<notin> set own \<longrightarrow> val V t sr = val V s sr))"
  have "I s" by (simp add: I_def)
  moreover have "r \<noteq> Panic \<and> I u" if "I t" "collect P t = (r, u)" for t r u
    using collect_frame [OF P E _ that(2)] own that(1) by (simp add: I_def)
  ultimately show ?thesis
    using collect_loop_survives [of I s "collect P" name n] unfolding I_def by blast
qed

lemma register_fresh:
  assumes P: "prom_ok P V" and own: "owned (meta V s) own descs" and r: "regs V s r = Some rs"
    and res: "register P r s = (res, t)"
    and fresh: "distinct (names_of (meta V s) own)"
      "set (names_of (meta V s) own) \<inter> set (names_of (meta V s) rs) = {}"
  shows "res = Ok () \<and> meta V t = meta V s \<and> val V t = val V s \<and>
     regs V t = (regs V s)(r \<mapsto> rs @ own)"
proof -
  have reg: "registered V s t r own res" by (rule register_registers [OF P own r res])
  with registered_fresh [OF reg r fresh] show ?thesis by (simp add: registered_def)
qed

end

end
