(* ===== verification/RefProm.thy ===== *)
theory RefProm
  imports PromApi
begin

text \<open>
  A concrete instance of the Prometheus interface: association lists of descriptors and
  registries, a function for the values, and the labelled series made so far.  It shows that the documented laws of
  \<open>prom_ok\<close> can hold together (\<open>ref_prom_ok\<close>), and it is what the witnesses of the
  development run on.
\<close>

record ref_world =
  w_meta :: "(handle \<times> metric_desc) list"
  w_val :: "series \<Rightarrow> metric_value"
  w_regs :: "(handle \<times> handle list) list"
  w_kids :: "series list"

definition fresh_key :: "(handle \<times> 'a) list \<Rightarrow> handle" where
  "fresh_key xs = Suc (foldr max (map fst xs) 0)"

definition empty_world :: ref_world where
  "empty_world = \<lparr>w_meta = [], w_val = (\<lambda>_. IntV 0), w_regs = [], w_kids = []\<rparr>"

definition ref_view :: "ref_world prom_view" where
  "ref_view =
     \<lparr>meta = (\<lambda>w. map_of (w_meta w)), val = w_val, regs = (\<lambda>w. map_of (w_regs w))\<rparr>"

definition ref_alloc :: "metric_desc \<Rightarrow> ref_world \<Rightarrow> handle \<times> ref_world" where
  "ref_alloc d w =
     (let h = fresh_key (w_meta w)
      in (h, w\<lparr>w_meta := (h, d) # w_meta w,
               w_val := (\<lambda>sr. if fst sr = h then initial_value (d_kind d) else w_val w sr)\<rparr>))"

definition ref_new ::
  "metric_kind \<Rightarrow> opts \<Rightarrow> string list \<Rightarrow> f64 list \<Rightarrow> ref_world \<Rightarrow> (prom_error + handle) \<times> ref_world" where
  "ref_new k o' ls bs w =
     (if valid_desc k o' ls bs
      then (case ref_alloc (desc_of k o' ls bs) w of (h, v) \<Rightarrow> (Inr h, v))
      else (Inl (PromMsg ''invalid descriptor''), w))"

definition ref_register :: "handle \<Rightarrow> handle \<Rightarrow> ref_world \<Rightarrow> (prom_error + unit) \<times> ref_world" where
  "ref_register r h w =
     (case (map_of (w_regs w) r, map_of (w_meta w) h) of
        (Some hs, Some d) \<Rightarrow>
          (if \<exists>h'\<in>set hs. case map_of (w_meta w) h' of
                None \<Rightarrow> False
              | Some d' \<Rightarrow> \<exists>n\<in>set (d_names d). n \<in> set (d_names d')
           then (Inl AlreadyReg, w)
           else (Inr (), w\<lparr>w_regs := (r, hs @ [h]) # w_regs w\<rparr>))
      | _ \<Rightarrow> (Inl AlreadyReg, w))"

definition ref_labels :: "handle \<Rightarrow> string list \<Rightarrow> ref_world \<Rightarrow> series option \<times> ref_world" where
  "ref_labels h ls w =
     (case map_of (w_meta w) h of
        None \<Rightarrow> (None, w)
      | Some d \<Rightarrow>
          (if length ls = length (d_labels d) then (Some (h, ls), w\<lparr>w_kids := (h, ls) # w_kids w\<rparr>) else (None, w)))"

definition ref_update :: "(metric_value \<Rightarrow> metric_value) \<Rightarrow> series \<Rightarrow> ref_world \<Rightarrow> ref_world" where
  "ref_update f sr w = w\<lparr>w_val := (w_val w)(sr := f (w_val w sr))\<rparr>"

fun add_int :: "i64 \<Rightarrow> metric_value \<Rightarrow> metric_value" where
  "add_int n (IntV m) = IntV (m + n)"
| "add_int n v = v"

fun count_one :: "metric_value \<Rightarrow> metric_value" where
  "count_one (CountV m) = CountV (m + 1)"
| "count_one v = v"

fun record_obs :: "f64 \<Rightarrow> metric_value \<Rightarrow> metric_value" where
  "record_obs x (HistV xs) = HistV (xs @ [x])"
| "record_obs x v = v"

definition ref_gather :: "handle \<Rightarrow> ref_world \<Rightarrow> metric_family list" where
  "ref_gather r w =
     (case map_of (w_regs w) r of
        None \<Rightarrow> []
      | Some hs \<Rightarrow>
          concat (map (\<lambda>h. case map_of (w_meta w) h of
              None \<Rightarrow> []
            | Some d \<Rightarrow>
                map (\<lambda>n. (n, if d_labels d = [] then [([], w_val w (h, []))]
                   else map (\<lambda>(_, ls). (ls, w_val w (h, ls))) (filter (\<lambda>sr. fst sr = h) (w_kids w)))) (d_names d)) hs))"

definition ref_encode :: "metric_family list \<Rightarrow> prom_error + string" where
  "ref_encode fs = Inr (concat (map fst fs))"

definition process_desc :: metric_desc where
  "process_desc =
     \<lparr>d_kind = ProcessCollector, d_names = process_metric_names, d_labels = [], d_buckets = []\<rparr>"

definition ref_prom :: "ref_world prometheus" where
  "ref_prom =
     \<lparr>metric_new = ref_new,
      process_collector_for_self = ref_alloc process_desc,
      registry_new = (\<lambda>w. let r = fresh_key (w_regs w) in (r, w\<lparr>w_regs := (r, []) # w_regs w\<rparr>)),
      registry_register = ref_register,
      registry_gather = ref_gather,
      text_encode = ref_encode,
      with_label_values = ref_labels,
      int_gauge_set = (\<lambda>sr v. ref_update (\<lambda>_. IntV v) sr),
      int_gauge_inc = ref_update (add_int 1),
      int_gauge_dec = ref_update (add_int (-1)),
      gauge_set = (\<lambda>sr v. ref_update (\<lambda>_. FloatV v) sr),
      int_counter_inc = ref_update count_one,
      histogram_observe = (\<lambda>sr x. ref_update (record_obs x) sr)\<rparr>"

lemma fresh_key_fresh: "fresh_key xs \<notin> dom (map_of xs)"
proof -
  have "k \<in> fst ` set xs \<Longrightarrow> k < fresh_key xs" for k
    by (induction xs) (force simp: fresh_key_def)+
  from this [of "fresh_key xs"] show ?thesis by (auto simp: dom_map_of_conv_image_fst)
qed

lemma fresh_key_None [simp]: "map_of xs (fresh_key xs) = None"
  using fresh_key_fresh [of xs] by (simp add: domIff)

lemma ref_view_sel [simp]:
  "meta ref_view w = map_of (w_meta w)" "val ref_view w = w_val w" "regs ref_view w = map_of (w_regs w)"
  by (simp_all add: ref_view_def)

lemma ref_prom_ok: "prom_ok ref_prom ref_view"
  unfolding prom_ok_def
proof (intro conjI)
  show "law_new ref_prom ref_view"
    by (auto simp: law_new_def ref_prom_def ref_new_def ref_alloc_def same_def Let_def fun_eq_iff
        desc_of_def split: if_splits)
  show "law_process ref_prom ref_view"
    by (auto simp: law_process_def ref_prom_def ref_alloc_def process_desc_def Let_def fun_eq_iff)
  show "law_registry_new ref_prom ref_view"
    by (auto simp: law_registry_new_def ref_prom_def Let_def fun_eq_iff)
  show "law_labels ref_prom ref_view"
    by (auto simp: law_labels_def ref_prom_def ref_labels_def same_def split: option.splits)
  show "law_int_gauge ref_prom ref_view" "law_gauge ref_prom ref_view"
    "law_counter ref_prom ref_view" "law_histogram ref_prom ref_view"
    by (auto simp: law_int_gauge_def law_gauge_def law_counter_def law_histogram_def ref_prom_def
        ref_update_def assigns_def fun_eq_iff)
  show "law_register ref_prom ref_view"
    unfolding law_register_def
  proof (intro allI impI)
    fix r h s hs d x t
    assume rs: "regs ref_view s r = Some hs" and hd: "meta ref_view s h = Some d"
      and run: "registry_register ref_prom r h s = (x, t)"
    have c: "name_clash ref_view s hs d \<longleftrightarrow>
        (\<exists>h'\<in>set hs. case map_of (w_meta s) h' of
           None \<Rightarrow> False | Some d' \<Rightarrow> \<exists>n\<in>set (d_names d). n \<in> set (d_names d'))"
      by (force simp: name_clash_def split: option.splits)
    show "if name_clash ref_view s hs d then x = Inl AlreadyReg \<and> same ref_view s t
      else x = Inr () \<and> meta ref_view t = meta ref_view s \<and> val ref_view t = val ref_view s \<and>
        regs ref_view t = (regs ref_view s)(r \<mapsto> hs @ [h])"
      using rs hd run unfolding c
      by (auto simp: ref_prom_def ref_register_def same_def fun_eq_iff split: if_splits)
  qed
qed

text \<open>A world that holds the given cores with their initial values and one empty registry 0.\<close>

definition world_of :: "(handle \<times> metric_desc) list \<Rightarrow> ref_world" where
  "world_of ms =
     \<lparr>w_meta = ms,
      w_val = (\<lambda>sr. case map_of ms (fst sr) of None \<Rightarrow> IntV 0 | Some d \<Rightarrow> initial_value (d_kind d)),
      w_regs = [(0, [])], w_kids = []\<rparr>"

end
