(* ===== verification/Http.thy ===== *)
theory Http
  imports Core RefProm
begin

text \<open>
  \<open>dr-metrix-axum/src/http_metrics.rs\<close>: the struct \<open>HttpMetrics\<close>, its constructor and
  \<open>register\<close>.  The lemmas compute the descriptors of the four metrics and show that
  construction and registration succeed.
\<close>

record http_metrics =
  h_requests_total :: handle
  h_request_duration_seconds :: handle
  h_requests_in_flight :: handle
  h_response_size_bytes :: handle

definition size_buckets :: "f64 list" where
  "size_buckets =
     [f64_lit 100 1, f64_lit 1000 1, f64_lit 10000 1, f64_lit 100000 1, f64_lit 1000000 1,
      f64_lit 10000000 1]"

definition http_new :: "'s prometheus \<Rightarrow> string \<Rightarrow> ('s, metrics_error, http_metrics) action" where
  "http_new P namespc =
     (let ns = (if namespc = '''' then '''' else namespc);
          sub = ''http'';
          req_opts = scoped_opts ns sub ''requests_total'' ''Total HTTP requests'';
          dur_opts = scoped_opts ns sub ''request_duration_seconds'' ''HTTP request latency in seconds'';
          flight_opts = scoped_opts ns sub ''requests_in_flight'' ''Currently in-flight HTTP requests'';
          size_opts = scoped_opts ns sub ''response_size_bytes'' ''HTTP response body size in bytes''
      in
      bind_act (new_metric P (IntCounterVec, req_opts, [''method'', ''path'', ''status''], [])) (\<lambda>requests_total.
      bind_act (new_metric P (HistogramVec, dur_opts, [''method'', ''path'', ''status''], DEFAULT_QUERY_BUCKETS)) (\<lambda>request_duration_seconds.
      bind_act (new_metric P (IntGauge, flight_opts, [], [])) (\<lambda>requests_in_flight.
      bind_act (new_metric P (HistogramVec, size_opts, [''method'', ''path''], size_buckets)) (\<lambda>response_size_bytes.
      ret \<lparr>h_requests_total = requests_total,
           h_request_duration_seconds = request_duration_seconds,
           h_requests_in_flight = requests_in_flight,
           h_response_size_bytes = response_size_bytes\<rparr>)))))"

definition http_register ::
  "'s prometheus \<Rightarrow> http_metrics \<Rightarrow> handle \<Rightarrow> ('s, metrics_error, unit) action" where
  "http_register P m registry =
     register_metrics P registry
       [h_requests_total m,
        h_request_duration_seconds m,
        h_requests_in_flight m,
        h_response_size_bytes m]"

subsection \<open>The metrics as a list\<close>

definition http_handles :: "http_metrics \<Rightarrow> handle list" where
  "http_handles m =
     [h_requests_total m, h_request_duration_seconds m, h_requests_in_flight m, h_response_size_bytes m]"

definition http_specs :: "string \<Rightarrow> metric_spec list" where
  "http_specs ns =
     [(IntCounterVec, scoped_opts ns ''http'' ''requests_total'' ''Total HTTP requests'',
        [''method'', ''path'', ''status''], []),
      (HistogramVec, scoped_opts ns ''http'' ''request_duration_seconds'' ''HTTP request latency in seconds'',
        [''method'', ''path'', ''status''], DEFAULT_QUERY_BUCKETS),
      (IntGauge, scoped_opts ns ''http'' ''requests_in_flight'' ''Currently in-flight HTTP requests'', [], []),
      (HistogramVec, scoped_opts ns ''http'' ''response_size_bytes'' ''HTTP response body size in bytes'',
        [''method'', ''path''], size_buckets)]"

definition http_of :: "handle list \<Rightarrow> http_metrics" where
  "http_of hs =
     \<lparr>h_requests_total = hs ! 0, h_request_duration_seconds = hs ! 1,
      h_requests_in_flight = hs ! 2, h_response_size_bytes = hs ! 3\<rparr>"

definition http_names :: "string list" where
  "http_names =
     [''requests_total'', ''request_duration_seconds'', ''requests_in_flight'', ''response_size_bytes'']"

definition http_descs :: "string \<Rightarrow> metric_desc list" where
  "http_descs ns = map spec_desc (http_specs ns)"

lemma size_buckets_eval:
  "size_buckets =
     [F64_Fin False 7036874417766400 (-46), F64_Fin False 8796093022208000 (-43),
      F64_Fin False 5497558138880000 (-39), F64_Fin False 6871947673600000 (-36),
      F64_Fin False 8589934592000000 (-33), F64_Fin False 5368709120000000 (-29)]"
  by (simp add: size_buckets_def f64_eval)

lemma size_buckets_sorted: "sorted_wrt (<) size_buckets"
  by (simp add: size_buckets_eval less_f64_def scale_pow_def)

lemma http_new_new_all:
  "http_new P ns = bind_act (new_all P (http_specs ns)) (\<lambda>hs. ret (http_of hs))"
  by (simp add: http_new_def http_specs_def http_of_def bind_act_assoc Let_def)

lemma http_handles_of: "length hs = 4 \<Longrightarrow> http_handles (http_of hs) = hs"
  by (auto simp: http_handles_def http_of_def length_Suc_conv numeral_eq_Suc)

lemma length_http_specs [simp]: "length (http_specs ns) = 4"
  by (simp add: http_specs_def)

lemma http_specs_valid: "valid_namespace ns \<Longrightarrow> \<forall>sp\<in>set (http_specs ns). spec_valid sp"
  by (simp add: http_specs_def spec_valid_scoped valid_eval query_buckets_sorted size_buckets_sorted)

lemma http_new_Ok:
  assumes "prom_ok P V" and "http_new P ns s = (Ok m, t)"
  shows "allocated V s t (http_handles m) (http_descs ns)"
proof -
  have "allocated V s t (http_handles m) (map spec_desc (http_specs ns)) \<and> (\<exists>hs. m = http_of hs)"
    using assms(2) unfolding http_new_new_all
    by (rule new_struct_Ok [OF assms(1)]) (simp add: http_handles_of)
  then show ?thesis by (simp add: http_descs_def)
qed

lemma http_new_valid:
  assumes "prom_ok P V" and "valid_namespace ns"
  shows "\<exists>m t. http_new P ns s = (Ok m, t)"
  unfolding http_new_new_all by (rule new_struct_valid [OF assms(1) http_specs_valid [OF assms(2)]])

lemma http_desc_names:
  "concat (map d_names (http_descs ns)) = map (\<lambda>n. ns_prefix ns @ ''http_'' @ n) http_names"
  by (simp add: http_descs_def http_specs_def spec_desc_scoped http_names_def)

lemma http_cores:
  assumes "owned M (http_handles m) (http_descs ns)"
  shows "core_is M (h_requests_total m) IntCounterVec 3"
    "core_is M (h_request_duration_seconds m) HistogramVec 3"
    "core_is M (h_requests_in_flight m) IntGauge 0" "core_is M (h_response_size_bytes m) HistogramVec 2"
  using assms
  by (simp_all add: http_handles_def http_descs_def http_specs_def spec_desc_def owned_Cons core_is_def)

lemma http_register_registered:
  assumes "prom_ok P V" and "owned (meta V s) (http_handles m) (http_descs ns)" and "regs V s r = Some rs"
    and "http_register P m r s = (res, t)"
  shows "registered V s t r (http_handles m) res"
  using register_metrics_registered [OF assms(1,3) owned_dom [OF assms(2)]] assms(4)
  by (simp add: http_register_def http_handles_def)

end
