(* ===== verification/Layer.thy ===== *)
theory Layer
  imports Http
begin

text \<open>
  \<open>dr-metrix-axum/src/layer.rs\<close>: the Tower layer and service that record HTTP metrics.
  The \<open>http\<close> crate (requests, responses, headers), the clock behind \<open>Instant\<close> and the
  inner service are parameters.

  \<open>call\<close> has two halves: what it does before it returns the boxed future (\<open>http_call\<close>),
  and what the future does once the inner service has answered (\<open>http_finish\<close>): it lowers the
  gauge (\<open>leave_flight\<close>) and runs the statements of the arm that matches (\<open>record_statements\<close>).

  Any number of requests are on their way at a time, on several threads.  A step of \<open>http_act\<close> is
  the call, the answer of the inner service with the statement that lowers the gauge, one recording
  statement, the return, or the drop of a future that is still waiting; a statement that panics ends
  its future and is counted.  \<open>http_step\<close> adds an environment that leaves the HTTP metrics alone, and
  the invariants are proved by rule induction over the reachable states.  \<open>finish_acts\<close> shows that
  the steps of one future, taken in a row, are \<open>http_finish\<close>.
\<close>

subsection \<open>Layer and service\<close>

record http_layer =
  l_metrics :: http_metrics

record 'i http_service =
  sv_inner :: 'i
  sv_metrics :: http_metrics

definition http_layer_new :: "http_metrics \<Rightarrow> http_layer" where
  "http_layer_new m = \<lparr>l_metrics = m\<rparr>"

definition layer_service :: "http_layer \<Rightarrow> 'i \<Rightarrow> 'i http_service" where
  "layer_service l inner = \<lparr>sv_inner = inner, sv_metrics = l_metrics l\<rparr>"

text \<open>\<open>poll_ready\<close> asks the inner service.\<close>

definition http_poll_ready :: "('i \<Rightarrow> 's \<Rightarrow> 'p \<times> 's) \<Rightarrow> 'i http_service \<Rightarrow> 's \<Rightarrow> 'p \<times> 's" where
  "http_poll_ready poll_ready sv = poll_ready (sv_inner sv)"

record ('q, 'p, 'h) http_api =
  req_method :: "'q \<Rightarrow> string"
  req_matched_path :: "'q \<Rightarrow> string option"
  req_uri_path :: "'q \<Rightarrow> string"
  resp_status :: "'p \<Rightarrow> u16"
  resp_content_length :: "'p \<Rightarrow> 'h option"
  header_to_str :: "'h \<Rightarrow> string option"

text \<open>What the boxed future has captured; an \<open>Instant\<close> is a number of nanoseconds.\<close>

record pending =
  pd_method :: string
  pd_path :: string
  pd_start :: nat

definition request_path :: "('q, 'p, 'h) http_api \<Rightarrow> 'q \<Rightarrow> string" where
  "request_path A req =
     (case req_matched_path A req of Some p \<Rightarrow> p | None \<Rightarrow> req_uri_path A req)"

definition http_call ::
  "'s prometheus \<Rightarrow> ('q, 'p, 'h) http_api \<Rightarrow> ('s \<Rightarrow> nat) \<Rightarrow> http_metrics \<Rightarrow> 'q \<Rightarrow> 's \<Rightarrow> pending \<times> 's" where
  "http_call P A now m req s =
     (let method = req_method A req;
          path = request_path A req;
          s1 = int_gauge_inc P (plain (h_requests_in_flight m)) s;
          start = now s1
      in (\<lparr>pd_method = method, pd_path = path, pd_start = start\<rparr>, s1))"

definition show_u16 :: "u16 \<Rightarrow> string" where
  "show_u16 w = show_nat (unat w)"

text \<open>The \<open>Content-Length\<close> header, if there is one and it parses as an \<open>f64\<close>.\<close>

definition content_length :: "('q, 'p, 'h) http_api \<Rightarrow> 'p \<Rightarrow> f64 option" where
  "content_length A response =
     Option.bind (Option.bind (resp_content_length A response) (header_to_str A)) parse_f64"

text \<open>The first statement that writes after the inner service has answered.\<close>

definition leave_flight :: "'s prometheus \<Rightarrow> http_metrics \<Rightarrow> 's \<Rightarrow> 's" where
  "leave_flight P m = int_gauge_dec P (plain (h_requests_in_flight m))"

text \<open>
  What the arms of the \<open>match\<close> record: the labels, the elapsed time, and the size when there is
  one; and the statements that do it, in order.
\<close>

record recording =
  rc_method :: string
  rc_path :: string
  rc_status :: string
  rc_elapsed :: f64
  rc_size :: "f64 option"

definition http_answer :: "('q, 'p, 'h) http_api \<Rightarrow> pending \<Rightarrow> f64 \<Rightarrow> 'err + 'p \<Rightarrow> recording" where
  "http_answer A pd elapsed result =
     (case result of
        Inr response \<Rightarrow>
          \<lparr>rc_method = pd_method pd, rc_path = pd_path pd, rc_status = show_u16 (resp_status A response),
           rc_elapsed = elapsed, rc_size = content_length A response\<rparr>
      | Inl err \<Rightarrow>
          \<lparr>rc_method = pd_method pd, rc_path = pd_path pd, rc_status = ''500'',
           rc_elapsed = elapsed, rc_size = None\<rparr>)"

definition record_statements ::
  "'s prometheus \<Rightarrow> http_metrics \<Rightarrow> recording \<Rightarrow> ('s, 'e, unit) action list" where
  "record_statements P m r =
     [count_labelled P (h_requests_total m) [rc_method r, rc_path r, rc_status r],
      observe_labelled P (h_request_duration_seconds m) [rc_method r, rc_path r, rc_status r] (rc_elapsed r)] @
     (case rc_size r of
        None \<Rightarrow> []
      | Some len \<Rightarrow> [observe_labelled P (h_response_size_bytes m) [rc_method r, rc_path r] len])"

definition http_record ::
  "'s prometheus \<Rightarrow> ('q, 'p, 'h) http_api \<Rightarrow> http_metrics \<Rightarrow> pending \<Rightarrow> f64 \<Rightarrow> 'err + 'p \<Rightarrow>
     ('s, 'e, unit) action" where
  "http_record P A m pd elapsed result = run_all (record_statements P m (http_answer A pd elapsed result))"

definition http_finish ::
  "'s prometheus \<Rightarrow> ('q, 'p, 'h) http_api \<Rightarrow> ('s \<Rightarrow> nat) \<Rightarrow> http_metrics \<Rightarrow> pending \<Rightarrow> 'err + 'p \<Rightarrow>
     ('s, 'e, 'err + 'p) action" where
  "http_finish P A now m pd result s =
     (let elapsed = as_secs_f64 (now s - pd_start pd);
          s1 = leave_flight P m s
      in bind_act (http_record P A m pd elapsed result) (\<lambda>_. ret result) s1)"

text \<open>A request that runs to completion: \<open>call\<close>, the inner service, the rest of the future.\<close>

definition http_serve ::
  "'s prometheus \<Rightarrow> ('q, 'p, 'h) http_api \<Rightarrow> ('s \<Rightarrow> nat) \<Rightarrow> http_metrics \<Rightarrow>
     ('q \<Rightarrow> 's \<Rightarrow> ('err + 'p) \<times> 's) \<Rightarrow> 'q \<Rightarrow> ('s, 'e, 'err + 'p) action" where
  "http_serve P A now m inner req s =
     (case http_call P A now m req s of (pd, s1) \<Rightarrow>
        (case inner req s1 of (result, s2) \<Rightarrow> http_finish P A now m pd result s2))"

subsection \<open>One request\<close>

text \<open>The status label of a result, and all three labels.\<close>

definition status_label :: "('q, 'p, 'h) http_api \<Rightarrow> 'err + 'p \<Rightarrow> string" where
  "status_label A result = (case result of Inl _ \<Rightarrow> ''500'' | Inr p \<Rightarrow> show_u16 (resp_status A p))"

definition labels_of :: "('q, 'p, 'h) http_api \<Rightarrow> pending \<Rightarrow> 'err + 'p \<Rightarrow> string list" where
  "labels_of A pd result = [pd_method pd, pd_path pd, status_label A result]"

text \<open>Appending an optional observation.\<close>

fun observed :: "metric_value \<Rightarrow> f64 option \<Rightarrow> metric_value" where
  "observed (HistV xs) (Some x) = HistV (xs @ [x])"
| "observed v _ = v"

definition size_of_result :: "('q, 'p, 'h) http_api \<Rightarrow> 'err + 'p \<Rightarrow> f64 option" where
  "size_of_result A result = (case result of Inl _ \<Rightarrow> None | Inr p \<Rightarrow> content_length A p)"

definition rc_labels :: "recording \<Rightarrow> string list" where
  "rc_labels r = [rc_method r, rc_path r, rc_status r]"

lemma http_answer_sel:
  "rc_labels (http_answer A pd x result) = labels_of A pd result" "rc_elapsed (http_answer A pd x result) = x"
  "rc_size (http_answer A pd x result) = size_of_result A result"
  by (simp_all add: rc_labels_def http_answer_def labels_of_def status_label_def size_of_result_def split: sum.splits)

lemma http_distinct:
  assumes "owned M (http_handles m) (http_descs ns)"
  shows "distinct [h_requests_total m, h_request_duration_seconds m, h_requests_in_flight m, h_response_size_bytes m]"
  using assms by (simp add: owned_def http_handles_def)

text \<open>
  Counting and observing in sequence; both branches of \<open>http_record\<close> begin with it.
\<close>

lemma count_and_observe:
  assumes P: "prom_ok P V"
    and c: "core_is (meta V s) h IntCounterVec (length ls)" "val V s (h, ls) = CountV n"
    and d: "core_is (meta V s) g HistogramVec (length ls)" "val V s (g, ls) = HistV xs" and ne: "h \<noteq> g"
  shows "\<exists>t. bind_act (count_labelled P h ls) (\<lambda>_. bind_act (observe_labelled P g ls x) (\<lambda>_. k)) s =
      (k t :: ('e, 'b) outcome \<times> _) \<and>
     meta V t = meta V s \<and> regs V t = regs V s \<and>
     val V t = (val V s)((h, ls) := CountV (n + 1), (g, ls) := HistV (xs @ [x]))"
proof -
  obtain u where u: "count_labelled P h ls s = (Ok () :: ('e, unit) outcome, u)" "assigns V s u (h, ls) (CountV (n + 1))"
    using count_labelled_Ok [OF P c] by blast
  have "core_is (meta V u) g HistogramVec (length ls)" "val V u (g, ls) = HistV xs"
    using u(2) d ne by (simp_all add: assigns_def)
  from observe_labelled_Ok [OF P this, of x] obtain t where
    "observe_labelled P g ls x u = (Ok () :: ('e, unit) outcome, t)" "assigns V u t (g, ls) (HistV (xs @ [x]))" by blast
  with u show ?thesis by (intro exI [of _ t]) (simp add: bind_act_of_Ok assigns_def)
qed

lemma in_flight_assigns:
  assumes P: "prom_ok P V" and own: "owned (meta V s) (http_handles m) (http_descs ns)"
    and n: "val V s (plain (h_requests_in_flight m)) = IntV n"
  shows "assigns V s (int_gauge_inc P (plain (h_requests_in_flight m)) s) (plain (h_requests_in_flight m)) (IntV (n + 1))"
    and "assigns V s (int_gauge_dec P (plain (h_requests_in_flight m)) s) (plain (h_requests_in_flight m)) (IntV (n - 1))"
proof -
  have "kind_at V s (plain (h_requests_in_flight m)) IntGauge"
    using http_cores(3) [OF own] by (auto simp: kind_at_def core_is_def plain_def)
  then show "assigns V s (int_gauge_inc P (plain (h_requests_in_flight m)) s) (plain (h_requests_in_flight m)) (IntV (n + 1))"
    and "assigns V s (int_gauge_dec P (plain (h_requests_in_flight m)) s) (plain (h_requests_in_flight m)) (IntV (n - 1))"
    using int_gauge_inc_dec_assigns [OF P _ n] by auto
qed

lemma http_record_Ok:
  fixes P :: "'s prometheus"
  assumes P: "prom_ok P V" and own: "owned (meta V s) (http_handles m) (http_descs ns)"
    and c: "val V s (h_requests_total m, labels_of A pd result) = CountV n"
    and d: "val V s (h_request_duration_seconds m, labels_of A pd result) = HistV xs"
    and z: "val V s (h_response_size_bytes m, [pd_method pd, pd_path pd]) = HistV zs"
  shows "\<exists>t. http_record P A m pd x result s = (Ok () :: ('e, unit) outcome, t) \<and>
     meta V t = meta V s \<and> regs V t = regs V s \<and>
     val V t = (val V s)((h_requests_total m, labels_of A pd result) := CountV (n + 1),
       (h_request_duration_seconds m, labels_of A pd result) := HistV (xs @ [x]),
       (h_response_size_bytes m, [pd_method pd, pd_path pd]) := observed (HistV zs) (size_of_result A result))"
proof -
  let ?ls = "labels_of A pd result" and ?zl = "[pd_method pd, pd_path pd]"
  let ?k = "(case size_of_result A result of None \<Rightarrow> ret ()
    | Some len \<Rightarrow> observe_labelled P (h_response_size_bytes m) ?zl len) :: ('s, 'e, unit) action"
  note cores = http_cores [OF own] and ne = http_distinct [OF own]
  have rec: "(http_record P A m pd x result :: ('s, 'e, unit) action) =
      bind_act (count_labelled P (h_requests_total m) ?ls)
        (\<lambda>_. bind_act (observe_labelled P (h_request_duration_seconds m) ?ls x) (\<lambda>_. bind_act ?k ret))"
    by (auto simp: http_record_def record_statements_def http_answer_def labels_of_def status_label_def size_of_result_def
        split: sum.splits option.splits)
  have l: "length ?ls = 3" by (simp add: labels_of_def)
  obtain u where u: "http_record P A m pd x result s = bind_act ?k ret u" "meta V u = meta V s" "regs V u = regs V s"
    "val V u = (val V s)((h_requests_total m, ?ls) := CountV (n + 1),
       (h_request_duration_seconds m, ?ls) := HistV (xs @ [x]))"
    using count_and_observe [OF P, of s "h_requests_total m" ?ls n "h_request_duration_seconds m" xs x "bind_act ?k ret"]
      cores ne c d l rec by auto
  show ?thesis
  proof (cases "size_of_result A result")
    case None
    then show ?thesis using u ne z by (intro exI [of _ u]) (auto simp: ret_def)
  next
    case (Some len)
    have "core_is (meta V u) (h_response_size_bytes m) HistogramVec (length ?zl)"
      "val V u (h_response_size_bytes m, ?zl) = HistV zs"
      using u(2,4) cores(4) z ne by (auto simp: numeral_eq_Suc)
    from observe_labelled_Ok [OF P this, of len] obtain t where
      t: "observe_labelled P (h_response_size_bytes m) ?zl len u = (Ok () :: ('e, unit) outcome, t)"
        "assigns V u t (h_response_size_bytes m, ?zl) (HistV (zs @ [len]))" by blast
    then show ?thesis using u Some
      by (intro exI [of _ t]) (simp add: bind_act_of_Ok assigns_def ret_def)
  qed
qed

lemma http_finish_Ok:
  assumes P: "prom_ok P V" and own: "owned (meta V s) (http_handles m) (http_descs ns)"
    and f: "val V s (plain (h_requests_in_flight m)) = IntV k"
    and c: "val V s (h_requests_total m, labels_of A pd result) = CountV n"
    and d: "val V s (h_request_duration_seconds m, labels_of A pd result) = HistV xs"
    and z: "val V s (h_response_size_bytes m, [pd_method pd, pd_path pd]) = HistV zs"
  shows "\<exists>t. http_finish P A now m pd result s = (Ok result :: ('e, _) outcome, t) \<and>
     meta V t = meta V s \<and> regs V t = regs V s \<and>
     val V t = (val V s)(plain (h_requests_in_flight m) := IntV (k - 1),
       (h_requests_total m, labels_of A pd result) := CountV (n + 1),
       (h_request_duration_seconds m, labels_of A pd result) :=
         HistV (xs @ [as_secs_f64 (now s - pd_start pd)]),
       (h_response_size_bytes m, [pd_method pd, pd_path pd]) := observed (HistV zs) (size_of_result A result))"
proof -
  let ?u = "leave_flight P m s"
  note ne = http_distinct [OF own]
  have u: "meta V ?u = meta V s" "regs V ?u = regs V s"
    "val V ?u = (val V s)(plain (h_requests_in_flight m) := IntV (k - 1))"
    using in_flight_assigns(2) [OF P own f] by (simp_all add: assigns_def leave_flight_def)
  have "owned (meta V ?u) (http_handles m) (http_descs ns)" using own u by simp
  moreover have "val V ?u (h_requests_total m, labels_of A pd result) = CountV n"
    "val V ?u (h_request_duration_seconds m, labels_of A pd result) = HistV xs"
    "val V ?u (h_response_size_bytes m, [pd_method pd, pd_path pd]) = HistV zs"
    using u(3) c d z ne by (auto simp: plain_def)
  ultimately obtain t where t: "http_record P A m pd (as_secs_f64 (now s - pd_start pd)) result ?u = (Ok () :: ('e, unit) outcome, t)"
    "meta V t = meta V ?u" "regs V t = regs V ?u"
    "val V t = (val V ?u)((h_requests_total m, labels_of A pd result) := CountV (n + 1),
       (h_request_duration_seconds m, labels_of A pd result) := HistV (xs @ [as_secs_f64 (now s - pd_start pd)]),
       (h_response_size_bytes m, [pd_method pd, pd_path pd]) := observed (HistV zs) (size_of_result A result))"
    using http_record_Ok [OF P, of ?u m ns A pd result n xs zs "as_secs_f64 (now s - pd_start pd)"] by blast
  then show ?thesis using u
    by (intro exI [of _ t]) (simp add: http_finish_def Let_def bind_act_of_Ok ret_def)
qed

subsection \<open>Interleaved requests\<close>

text \<open>
  The state of the server: the world; the futures that \<open>call\<close> has returned and whose inner
  service has not answered; those it has answered, with what they record and the number of
  statements they have run; and ghost fields: the labels of the requests that have finished, and
  how many futures were dropped and how many have panicked.

  A step is one \<open>call\<close>; the answer of an inner service, with any result, up to the statement that
  lowers the gauge (the clock was read in some world \<open>u\<close>); one more statement of a future that was
  answered, which may panic; its return; the drop of a future at its only \<open>await\<close> (a disconnected
  client, a timeout layer outside, or a panic of the inner service); or anything else in the
  process that leaves the HTTP metrics alone.  So other tasks run between any two statements.
\<close>

record 's http_state =
  hs_world :: 's
  hs_pending :: "nat \<rightharpoonup> pending"
  hs_recording :: "nat \<rightharpoonup> recording \<times> nat"
  hs_done :: "string list list"
  hs_dropped :: nat
  hs_panics :: nat

definition http_untouched :: "'s prom_view \<Rightarrow> http_metrics \<Rightarrow> 's \<Rightarrow> 's \<Rightarrow> bool" where
  "http_untouched V m s t \<longleftrightarrow>
     (\<forall>h\<in>set (http_handles m). meta V t h = meta V s h \<and> (\<forall>ls. val V t (h, ls) = val V s (h, ls)))"

inductive http_act ::
  "'s prometheus \<Rightarrow> ('q, 'p, 'h) http_api \<Rightarrow> ('s \<Rightarrow> nat) \<Rightarrow> http_metrics \<Rightarrow> 's http_state \<Rightarrow> 's http_state \<Rightarrow> bool"
  for P A now m where
  Call: "hs_pending c i = None \<Longrightarrow> hs_recording c i = None \<Longrightarrow> http_call P A now m req (hs_world c) = (pd, t) \<Longrightarrow>
    http_act P A now m c (c\<lparr>hs_world := t, hs_pending := (hs_pending c)(i \<mapsto> pd)\<rparr>)"
| Answer: "hs_pending c i = Some pd \<Longrightarrow>
    r = http_answer A pd (as_secs_f64 (now u - pd_start pd)) (result :: string + 'p) \<Longrightarrow>
    http_act P A now m c
      (c\<lparr>hs_world := leave_flight P m (hs_world c), hs_pending := (hs_pending c)(i := None),
         hs_recording := (hs_recording c)(i \<mapsto> (r, 0))\<rparr>)"
| Record: "hs_recording c i = Some (r, k) \<Longrightarrow> k < length (record_statements P m r :: ('s, metrics_error, unit) action list) \<Longrightarrow>
    (record_statements P m r ! k) (hs_world c) = (x :: (metrics_error, unit) outcome, t) \<Longrightarrow>
    http_act P A now m c
      (c\<lparr>hs_world := t, hs_recording := (hs_recording c)(i := if x = Ok () then Some (r, Suc k) else None),
         hs_panics := (if x = Ok () then hs_panics c else Suc (hs_panics c))\<rparr>)"
| Return: "hs_recording c i = Some (r, length (record_statements P m r :: ('s, metrics_error, unit) action list)) \<Longrightarrow>
    http_act P A now m c
      (c\<lparr>hs_recording := (hs_recording c)(i := None), hs_done := rc_labels r # hs_done c\<rparr>)"
| Drop: "hs_pending c i = Some pd \<Longrightarrow>
    http_act P A now m c
      (c\<lparr>hs_pending := (hs_pending c)(i := None), hs_dropped := Suc (hs_dropped c)\<rparr>)"

inductive http_step ::
  "'s prometheus \<Rightarrow> ('q, 'p, 'h) http_api \<Rightarrow> ('s \<Rightarrow> nat) \<Rightarrow> 's prom_view \<Rightarrow> http_metrics \<Rightarrow>
     's http_state \<Rightarrow> 's http_state \<Rightarrow> bool"
  for P A now V m where
  Act: "http_act P A now m c d \<Longrightarrow> http_step P A now V m c d"
| Env: "http_untouched V m (hs_world c) t \<Longrightarrow> http_step P A now V m c (c\<lparr>hs_world := t\<rparr>)"

inductive_cases http_actE: "http_act P A now m c d"
inductive_cases http_stepE: "http_step P A now V m c d"

definition http_start :: "'s prom_view \<Rightarrow> http_metrics \<Rightarrow> string \<Rightarrow> 's http_state \<Rightarrow> bool" where
  "http_start V m ns c \<longleftrightarrow>
     owned (meta V (hs_world c)) (http_handles m) (http_descs ns) \<and>
     hs_pending c = Map.empty \<and> hs_recording c = Map.empty \<and> hs_done c = [] \<and> hs_dropped c = 0 \<and> hs_panics c = 0 \<and>
     val V (hs_world c) (plain (h_requests_in_flight m)) = IntV 0 \<and>
     (\<forall>ls. val V (hs_world c) (h_requests_total m, ls) = CountV 0 \<and>
        val V (hs_world c) (h_request_duration_seconds m, ls) = HistV [] \<and>
        val V (hs_world c) (h_response_size_bytes m, ls) = HistV [])"

inductive http_reach ::
  "'s prometheus \<Rightarrow> ('q, 'p, 'h) http_api \<Rightarrow> ('s \<Rightarrow> nat) \<Rightarrow> 's prom_view \<Rightarrow> http_metrics \<Rightarrow> string \<Rightarrow>
     's http_state \<Rightarrow> bool"
  for P A now V m ns where
  start: "http_start V m ns c \<Longrightarrow> http_reach P A now V m ns c"
| step: "http_reach P A now V m ns c \<Longrightarrow> http_step P A now V m c d \<Longrightarrow> http_reach P A now V m ns d"

text \<open>
  The invariant.  The gauge counts the pending futures and the dropped ones.  A counter is the
  number of finished requests and of those that are past their first statement, its histogram has
  an observation for each finished request and each that is past its second.
\<close>

definition flight_inv :: "'s prom_view \<Rightarrow> http_metrics \<Rightarrow> 's http_state \<Rightarrow> bool" where
  "flight_inv V m c \<longleftrightarrow>
     finite (dom (hs_pending c)) \<and>
     val V (hs_world c) (plain (h_requests_in_flight m)) =
       IntV (of_nat (card (dom (hs_pending c)) + hs_dropped c))"

text \<open>The futures with these labels that have run at least \<open>k\<close> statements.\<close>

definition past :: "(nat \<rightharpoonup> recording \<times> nat) \<Rightarrow> nat \<Rightarrow> string list \<Rightarrow> nat set" where
  "past rec k ls = {i. \<exists>r j. rec i = Some (r, j) \<and> rc_labels r = ls \<and> k \<le> j}"

definition counts_inv :: "'s prom_view \<Rightarrow> http_metrics \<Rightarrow> 's http_state \<Rightarrow> bool" where
  "counts_inv V m c \<longleftrightarrow>
     finite (dom (hs_recording c)) \<and>
     (\<forall>ls. val V (hs_world c) (h_requests_total m, ls) =
          CountV (of_nat (count_list (hs_done c) ls + card (past (hs_recording c) 1 ls))) \<and>
        (\<exists>xs. val V (hs_world c) (h_request_duration_seconds m, ls) = HistV xs \<and>
           length xs = count_list (hs_done c) ls + card (past (hs_recording c) 2 ls)) \<and>
        (\<exists>zs. val V (hs_world c) (h_response_size_bytes m, ls) = HistV zs))"

definition http_inv :: "'s prom_view \<Rightarrow> http_metrics \<Rightarrow> string \<Rightarrow> 's http_state \<Rightarrow> bool" where
  "http_inv V m ns c \<longleftrightarrow>
     owned (meta V (hs_world c)) (http_handles m) (http_descs ns) \<and> flight_inv V m c \<and> counts_inv V m c \<and>
     dom (hs_pending c) \<inter> dom (hs_recording c) = {} \<and> hs_panics c = 0"

lemma past_empty [simp]: "past Map.empty k ls = {}"
  by (simp add: past_def)

lemma finite_past: "finite (dom rec) \<Longrightarrow> finite (past rec k ls)"
  by (erule finite_subset [rotated]) (auto simp: past_def)

lemma past_new: "rec i = None \<Longrightarrow> 0 < k \<Longrightarrow> past (rec(i \<mapsto> (r, 0))) k ls = past rec k ls"
  by (auto simp: past_def split: if_splits)

lemma past_next:
  assumes "rec i = Some (r, j)"
  shows "past (rec(i \<mapsto> (r, Suc j))) k ls = (if rc_labels r = ls \<and> k = Suc j then insert i (past rec k ls) else past rec k ls)"
    and "i \<notin> past rec (Suc j) ls"
  using assms by (auto simp: past_def le_Suc_eq split: if_splits)

lemma past_gone:
  "past (rec(i := None)) k ls = past rec k ls - {i}"
  "rec i = Some (r, j) \<Longrightarrow> i \<in> past rec k ls \<longleftrightarrow> rc_labels r = ls \<and> k \<le> j"
  by (auto simp: past_def split: if_splits)

lemma past_mono: "k \<le> l \<Longrightarrow> past rec l ls \<subseteq> past rec k ls"
  by (force simp: past_def)

lemma http_inv_start: "http_start V m ns c \<Longrightarrow> http_inv V m ns c"
  by (simp add: http_start_def http_inv_def flight_inv_def counts_inv_def)

lemma owned_cong:
  "owned M hs ds \<Longrightarrow> (\<And>h. h \<in> set hs \<Longrightarrow> M' h = M h) \<Longrightarrow> owned M' hs ds"
  by (auto simp: owned_def list_all2_conv_all_nth)

text \<open>A step that writes the gauge only leaves the counts as they are.\<close>

lemma counts_inv_gauge:
  assumes "counts_inv V m c" and "assigns V (hs_world c) t (plain (h_requests_in_flight m)) v"
    and "owned (meta V (hs_world c)) (http_handles m) (http_descs ns)"
  shows "counts_inv V m (c\<lparr>hs_world := t\<rparr>)"
  using assms http_distinct [OF assms(3)] by (auto simp: counts_inv_def assigns_def plain_def)

lemma http_invD:
  assumes "http_inv V m ns c"
  shows "owned (meta V (hs_world c)) (http_handles m) (http_descs ns)" "finite (dom (hs_pending c))"
    "val V (hs_world c) (plain (h_requests_in_flight m)) = IntV (of_nat (card (dom (hs_pending c)) + hs_dropped c))"
    "counts_inv V m c" "dom (hs_pending c) \<inter> dom (hs_recording c) = {}" "hs_panics c = 0"
  using assms by (simp_all add: http_inv_def flight_inv_def)

lemma http_inv_call:
  assumes P: "prom_ok P V" and inv: "http_inv V m ns c" and i: "hs_pending c i = None" "hs_recording c i = None"
    and run: "http_call P A now m req (hs_world c) = (pd, t)"
  shows "http_inv V m ns (c\<lparr>hs_world := t, hs_pending := (hs_pending c)(i \<mapsto> pd)\<rparr>)"
proof -
  note d = http_invD [OF inv]
  have t: "t = int_gauge_inc P (plain (h_requests_in_flight m)) (hs_world c)"
    using run by (simp add: http_call_def Let_def)
  have a: "assigns V (hs_world c) t (plain (h_requests_in_flight m))
      (IntV (of_nat (card (dom (hs_pending c)) + hs_dropped c) + 1))"
    using in_flight_assigns(1) [OF P d(1,3)] t by simp
  have "flight_inv V m (c\<lparr>hs_world := t, hs_pending := (hs_pending c)(i \<mapsto> pd)\<rparr>)"
    using a d(2) i by (simp add: flight_inv_def assigns_def domIff add.commute)
  moreover have "counts_inv V m (c\<lparr>hs_world := t, hs_pending := (hs_pending c)(i \<mapsto> pd)\<rparr>)"
    using counts_inv_gauge [OF d(4) a d(1)] by (simp add: counts_inv_def)
  ultimately show ?thesis using a d i by (auto simp: http_inv_def assigns_def domIff)
qed

lemma card_dom_remove:
  "finite (dom M) \<Longrightarrow> M i = Some x \<Longrightarrow> card (dom M) = Suc (card (dom (M(i := None))))"
  using card.remove [of "dom M" i] by (simp add: domI)

lemma http_inv_answer:
  assumes P: "prom_ok P V" and inv: "http_inv V m ns c" and i: "hs_pending c i = Some pd"
  shows "http_inv V m ns (c\<lparr>hs_world := leave_flight P m (hs_world c), hs_pending := (hs_pending c)(i := None),
    hs_recording := (hs_recording c)(i \<mapsto> (r, 0))\<rparr>)"
proof -
  let ?t = "leave_flight P m (hs_world c)"
  note d = http_invD [OF inv]
  have a: "assigns V (hs_world c) ?t (plain (h_requests_in_flight m))
      (IntV (of_nat (card (dom (hs_pending c)) + hs_dropped c) - 1))"
    using in_flight_assigns(2) [OF P d(1,3)] by (simp add: leave_flight_def)
  have r: "hs_recording c i = None" using d(5) i by (metis IntI domI domIff empty_iff)
  have "flight_inv V m (c\<lparr>hs_world := ?t, hs_pending := (hs_pending c)(i := None), hs_recording := (hs_recording c)(i \<mapsto> (r, 0))\<rparr>)"
    using a d(2) card_dom_remove [OF d(2) i] by (simp add: flight_inv_def assigns_def)
  moreover have "counts_inv V m (c\<lparr>hs_world := ?t, hs_pending := (hs_pending c)(i := None), hs_recording := (hs_recording c)(i \<mapsto> (r, 0))\<rparr>)"
    using counts_inv_gauge [OF d(4) a d(1)] past_new [where rec = "hs_recording c", OF r] by (simp add: counts_inv_def)
  ultimately show ?thesis using a d by (auto simp: http_inv_def assigns_def)
qed

text \<open>Every statement of an answered future succeeds.\<close>

lemma record_statement:
  fixes P :: "'s prometheus" and x :: "('e, unit) outcome"
  assumes P: "prom_ok P V" and own: "owned (meta V s) (http_handles m) (http_descs ns)"
    and v: "val V s (h_requests_total m, rc_labels r) = CountV n"
      "val V s (h_request_duration_seconds m, rc_labels r) = HistV xs"
      "val V s (h_response_size_bytes m, [rc_method r, rc_path r]) = HistV zs"
    and k: "k < length (record_statements P m r :: ('s, 'e, unit) action list)"
    and run: "(record_statements P m r ! k) s = (x :: ('e, unit) outcome, t)"
  obtains (count) "k = 0" "x = Ok ()" "assigns V s t (h_requests_total m, rc_labels r) (CountV (n + 1))"
  | (observe) "k = 1" "x = Ok ()" "assigns V s t (h_request_duration_seconds m, rc_labels r) (HistV (xs @ [rc_elapsed r]))"
  | (size) len where "k = 2" "rc_size r = Some len" "x = Ok ()"
      "assigns V s t (h_response_size_bytes m, [rc_method r, rc_path r]) (HistV (zs @ [len]))"
proof -
  note cores = http_cores [OF own]
  have l: "length (rc_labels r) = 3" "length [rc_method r, rc_path r] = 2" by (simp_all add: rc_labels_def)
  consider "k = 0" | "k = 1" | len where "k = 2" "rc_size r = Some len"
    using k by (cases "rc_size r") (auto simp: record_statements_def less_Suc_eq numeral_eq_Suc)
  then show ?thesis
  proof cases
    case 1
    have "core_is (meta V s) (h_requests_total m) IntCounterVec (length (rc_labels r))" using cores(1) l by simp
    from count_labelled_Ok [OF P this v(1)] obtain t' where
      "count_labelled P (h_requests_total m) (rc_labels r) s = (Ok () :: ('e, unit) outcome, t')"
      "assigns V s t' (h_requests_total m, rc_labels r) (CountV (n + 1))" by blast
    with run 1 count show ?thesis by (simp add: record_statements_def rc_labels_def)
  next
    case 2
    have "core_is (meta V s) (h_request_duration_seconds m) HistogramVec (length (rc_labels r))" using cores(2) l by simp
    from observe_labelled_Ok [OF P this v(2)] obtain t' where
      "observe_labelled P (h_request_duration_seconds m) (rc_labels r) (rc_elapsed r) s = (Ok () :: ('e, unit) outcome, t')"
      "assigns V s t' (h_request_duration_seconds m, rc_labels r) (HistV (xs @ [rc_elapsed r]))" by blast
    with run 2 observe show ?thesis by (simp add: record_statements_def rc_labels_def)
  next
    case (3 len)
    have "core_is (meta V s) (h_response_size_bytes m) HistogramVec (length [rc_method r, rc_path r])" unfolding l(2) by (rule cores(4))
    from observe_labelled_Ok [OF P this v(3)] obtain t' where
      "observe_labelled P (h_response_size_bytes m) [rc_method r, rc_path r] len s = (Ok () :: ('e, unit) outcome, t')"
      "assigns V s t' (h_response_size_bytes m, [rc_method r, rc_path r]) (HistV (zs @ [len]))" by blast
    with run 3 size show ?thesis by (simp add: record_statements_def)
  qed
qed

lemma counts_invD:
  assumes "counts_inv V m c"
  shows "finite (dom (hs_recording c))"
    "val V (hs_world c) (h_requests_total m, ls) = CountV (of_nat (count_list (hs_done c) ls + card (past (hs_recording c) 1 ls)))"
    "\<exists>xs. val V (hs_world c) (h_request_duration_seconds m, ls) = HistV xs \<and>
       length xs = count_list (hs_done c) ls + card (past (hs_recording c) 2 ls)"
    "\<exists>zs. val V (hs_world c) (h_response_size_bytes m, ls) = HistV zs"
  using assms by (simp_all add: counts_inv_def)

lemma http_inv_record:
  assumes P: "prom_ok P V" and inv: "http_inv V m ns c" and i: "hs_recording c i = Some (r, k)"
    and k: "k < length (record_statements P m r :: ('s, 'e, unit) action list)"
    and run: "(record_statements P m r ! k) (hs_world c) = (x :: ('e, unit) outcome, t)"
  shows "x = Ok ()" "meta V t = meta V (hs_world c)"
    "fst sr \<notin> set (http_handles m) \<Longrightarrow> val V t sr = val V (hs_world c) sr"
    "http_inv V m ns (c\<lparr>hs_world := t, hs_recording := (hs_recording c)(i \<mapsto> (r, Suc k))\<rparr>)"
proof -
  let ?d = "c\<lparr>hs_world := t, hs_recording := (hs_recording c)(i \<mapsto> (r, Suc k))\<rparr>"
  note d = http_invD [OF inv]
  note q = counts_invD [OF d(4)]
  note ne = http_distinct [OF d(1)]
  note nx = past_next [where rec = "hs_recording c", OF i] and fin = finite_past [OF q(1)]
  obtain xs zs where xz: "val V (hs_world c) (h_request_duration_seconds m, rc_labels r) = HistV xs"
    "length xs = count_list (hs_done c) (rc_labels r) + card (past (hs_recording c) 2 (rc_labels r))"
    "val V (hs_world c) (h_response_size_bytes m, [rc_method r, rc_path r]) = HistV zs"
    using q(3,4) by meson
  have "x = Ok () \<and> meta V t = meta V (hs_world c) \<and>
      (\<forall>sr. fst sr \<notin> set (http_handles m) \<longrightarrow> val V t sr = val V (hs_world c) sr) \<and>
      val V t (plain (h_requests_in_flight m)) = val V (hs_world c) (plain (h_requests_in_flight m)) \<and> counts_inv V m ?d"
    using P d(1) q(2) xz(1,3) k run
  proof (cases rule: record_statement)
    case count
    have p: "past ((hs_recording c)(i \<mapsto> (r, Suc k))) 1 ls = (if rc_labels r = ls then insert i (past (hs_recording c) 1 ls) else past (hs_recording c) 1 ls)"
      "past ((hs_recording c)(i \<mapsto> (r, Suc k))) 2 ls = past (hs_recording c) 2 ls" for ls
      using nx(1) [of 1 ls] nx(1) [of 2 ls] count(1) by simp_all
    have q': "card (insert i (past (hs_recording c) 1 ls)) = Suc (card (past (hs_recording c) 1 ls))" for ls
      using nx(2) [of ls] fin [of 1 ls] count(1) by simp
    have "val V t (h_requests_total m, ls) = CountV (of_nat (count_list (hs_done c) ls + card (past (hs_recording ?d) 1 ls)))" for ls
      using count(3) q(2) [of ls] by (simp add: assigns_def p q' add.commute add.left_commute del: One_nat_def)
    moreover have "\<exists>xs. val V t (h_request_duration_seconds m, ls) = HistV xs \<and>
        length xs = count_list (hs_done c) ls + card (past (hs_recording ?d) 2 ls)" for ls
      using count(3) q(3) [of ls] ne by (auto simp: assigns_def p)
    moreover have "\<exists>zs. val V t (h_response_size_bytes m, ls) = HistV zs" for ls
      using count q(4) [of ls] ne by (auto simp: assigns_def)
    ultimately show ?thesis
      using count ne q(1) by (auto simp: assigns_def http_handles_def plain_def counts_inv_def)
  next
    case observe
    have p: "past ((hs_recording c)(i \<mapsto> (r, Suc k))) 1 ls = past (hs_recording c) 1 ls"
      "past ((hs_recording c)(i \<mapsto> (r, Suc k))) 2 ls = (if rc_labels r = ls then insert i (past (hs_recording c) 2 ls) else past (hs_recording c) 2 ls)" for ls
      using nx(1) [of 1 ls] nx(1) [of 2 ls] observe(1) by simp_all
    have q': "i \<notin> past (hs_recording c) 2 ls" for ls using nx(2) [of ls] observe(1) by (simp add: numeral_2_eq_2)
    have "val V t (h_requests_total m, ls) = CountV (of_nat (count_list (hs_done c) ls + card (past (hs_recording ?d) 1 ls)))" for ls
      using observe(3) q(2) [of ls] ne by (simp add: assigns_def p del: One_nat_def)
    moreover have "\<exists>xs. val V t (h_request_duration_seconds m, ls) = HistV xs \<and>
        length xs = count_list (hs_done c) ls + card (past (hs_recording ?d) 2 ls)" for ls
      using observe(3) q(3) [of ls] xz(2) q' [of ls] fin by (auto simp: assigns_def p)
    moreover have "\<exists>zs. val V t (h_response_size_bytes m, ls) = HistV zs" for ls
      using observe q(4) [of ls] ne by (auto simp: assigns_def)
    ultimately show ?thesis
      using observe ne q(1) by (auto simp: assigns_def http_handles_def plain_def counts_inv_def)
  next
    case (size len)
    have p: "past ((hs_recording c)(i \<mapsto> (r, Suc k))) 1 ls = past (hs_recording c) 1 ls"
      "past ((hs_recording c)(i \<mapsto> (r, Suc k))) 2 ls = past (hs_recording c) 2 ls" for ls
      using nx(1) [of 1 ls] nx(1) [of 2 ls] size(1) by simp_all
    have "val V t (h_requests_total m, ls) = CountV (of_nat (count_list (hs_done c) ls + card (past (hs_recording ?d) 1 ls)))" for ls
      using size(4) q(2) [of ls] ne by (simp add: assigns_def p del: One_nat_def)
    moreover have "\<exists>xs. val V t (h_request_duration_seconds m, ls) = HistV xs \<and>
        length xs = count_list (hs_done c) ls + card (past (hs_recording ?d) 2 ls)" for ls
      using size(4) q(3) [of ls] ne by (auto simp: assigns_def p)
    moreover have "\<exists>zs. val V t (h_response_size_bytes m, ls) = HistV zs" for ls
      using size q(4) [of ls] by (auto simp: assigns_def)
    ultimately show ?thesis
      using size ne q(1) by (auto simp: assigns_def http_handles_def plain_def counts_inv_def)
  qed
  note all = this
  from all show "x = Ok ()" "meta V t = meta V (hs_world c)" by blast+
  show "fst sr \<notin> set (http_handles m) \<Longrightarrow> val V t sr = val V (hs_world c) sr" using all by blast
  from all show "http_inv V m ns ?d" using d i by (auto simp: http_inv_def flight_inv_def)
qed

lemma http_inv_return:
  assumes inv: "http_inv V m ns c" and i: "hs_recording c i = Some (r, k)" and k: "2 \<le> k"
  shows "http_inv V m ns (c\<lparr>hs_recording := (hs_recording c)(i := None), hs_done := rc_labels r # hs_done c\<rparr>)"
proof -
  note d = http_invD [OF inv]
  have "count_list (rc_labels r # hs_done c) ls + card (past ((hs_recording c)(i := None)) n ls) =
      count_list (hs_done c) ls + card (past (hs_recording c) n ls)" if "n \<le> 2" for n ls
    using past_gone [where i = i and k = n and ls = ls and rec = "hs_recording c"] i k that
      finite_past [OF counts_invD(1) [OF d(4)], of n ls] card_Suc_Diff1 [of "past (hs_recording c) n ls" i]
    by auto
  then have "counts_inv V m (c\<lparr>hs_recording := (hs_recording c)(i := None), hs_done := rc_labels r # hs_done c\<rparr>)"
    using counts_invD [OF d(4)] by (simp add: counts_inv_def del: count_list.simps)
  with d show ?thesis by (auto simp: http_inv_def flight_inv_def)
qed

lemma http_inv_drop:
  assumes "http_inv V m ns c" and "hs_pending c i = Some pd"
  shows "http_inv V m ns (c\<lparr>hs_pending := (hs_pending c)(i := None), hs_dropped := Suc (hs_dropped c)\<rparr>)"
  using assms card_dom_remove [OF http_invD(2) assms(2), OF assms(1)]
  by (auto simp: http_inv_def flight_inv_def counts_inv_def)

lemma http_inv_env:
  assumes inv: "http_inv V m ns c" and u: "http_untouched V m (hs_world c) t"
  shows "http_inv V m ns (c\<lparr>hs_world := t\<rparr>)"
proof -
  have "owned (meta V t) (http_handles m) (http_descs ns)"
    using inv u by (auto simp: http_inv_def http_untouched_def elim!: owned_cong)
  then show ?thesis
    using inv u by (simp add: http_inv_def flight_inv_def counts_inv_def http_untouched_def http_handles_def plain_def)
qed

lemma length_record_statements: "2 \<le> length (record_statements P m r :: ('s, 'e, unit) action list)"
  by (simp add: record_statements_def split: option.splits)

lemma http_act_inv:
  assumes act: "http_act P A now m c d" and P: "prom_ok P V" and inv: "http_inv V m ns c"
  shows "http_inv V m ns d"
  using act
proof cases
  case (Call i req pd t)
  then show ?thesis using http_inv_call [OF P inv Call(2,3,4)] by simp
next
  case (Answer i pd r u result)
  then show ?thesis using http_inv_answer [OF P inv Answer(2)] by simp
next
  case (Record i r k x t)
  note r = http_inv_record [OF P inv Record(2,3,4)]
  show ?thesis using r(1,4) Record(1) by simp
next
  case (Return i r)
  then show ?thesis using http_inv_return [OF inv Return(2) length_record_statements] by simp
next
  case (Drop i pd)
  then show ?thesis using http_inv_drop [OF inv Drop(2)] by simp
qed

lemma http_step_inv:
  "http_step P A now V m c d \<Longrightarrow> prom_ok P V \<Longrightarrow> http_inv V m ns c \<Longrightarrow> http_inv V m ns d"
  by (induction rule: http_step.induct) (blast intro: http_act_inv http_inv_env)+

lemma http_reach_inv:
  assumes "prom_ok P V"
  shows "http_reach P A now V m ns c \<Longrightarrow> http_inv V m ns c"
  by (induction rule: http_reach.induct) (blast intro: http_inv_start http_step_inv [OF _ assms])+

text \<open>The steps of one future, taken in a row, are \<open>http_finish\<close>.\<close>

lemma record_acts:
  assumes "hs_recording c i = Some (r, k)" "k \<le> length (record_statements P m r :: ('s, metrics_error, unit) action list)"
    and "run_all (drop k (record_statements P m r)) (hs_world c) = (Ok () :: (metrics_error, unit) outcome, t)"
  shows "(http_act P A now m)\<^sup>*\<^sup>* c (c\<lparr>hs_world := t, hs_recording := (hs_recording c)
    (i \<mapsto> (r, length (record_statements P m r :: ('s, metrics_error, unit) action list)))\<rparr>)"
  using assms
proof (induction "length (record_statements P m r :: ('s, metrics_error, unit) action list) - k" arbitrary: k c)
  case 0
  then have "c\<lparr>hs_world := t, hs_recording := (hs_recording c)
    (i \<mapsto> (r, length (record_statements P m r :: ('s, metrics_error, unit) action list)))\<rparr> = c"
    by (simp add: ret_def fun_upd_idem)
  then show ?case by (metis rtranclp.rtrancl_refl)
next
  case (Suc n)
  let ?as = "record_statements P m r :: ('s, metrics_error, unit) action list"
  have k: "k < length ?as" using Suc.hyps(2) by simp
  obtain x u where u: "(?as ! k) (hs_world c) = (x, u)" by (cases "(?as ! k) (hs_world c)")
  have rest: "x = Ok ()" "run_all (drop (Suc k) ?as) u = (Ok (), t)"
    using Suc.prems(3) u unfolding Cons_nth_drop_Suc [OF k, symmetric] by (cases x; simp add: bind_act_def)+
  let ?d = "c\<lparr>hs_world := u, hs_recording := (hs_recording c)(i \<mapsto> (r, Suc k))\<rparr>"
  have "http_act P A now m c ?d"
    using http_act.Record [where A = A and now = now, OF Suc.prems(1) k u] rest(1) by simp
  moreover have "(http_act P A now m)\<^sup>*\<^sup>* ?d (?d\<lparr>hs_world := t, hs_recording := (hs_recording ?d)(i \<mapsto> (r, length ?as))\<rparr>)"
    using Suc.hyps k rest(2) by (intro Suc.hyps(1) [of "Suc k"]) simp_all
  ultimately show ?case by (simp add: converse_rtranclp_into_rtranclp)
qed

lemma finish_acts:
  fixes P :: "'s prometheus"
  assumes i: "hs_pending c i = Some pd" "hs_recording c i = None"
    and run: "http_finish P A now m pd (result :: string + 'p) (hs_world c) = (Ok result :: (metrics_error, _) outcome, t)"
  shows "(http_act P A now m)\<^sup>*\<^sup>* c
    (c\<lparr>hs_world := t, hs_pending := (hs_pending c)(i := None), hs_done := labels_of A pd result # hs_done c\<rparr>)"
proof -
  let ?r = "http_answer A pd (as_secs_f64 (now (hs_world c) - pd_start pd)) result"
  let ?n = "length (record_statements P m ?r :: ('s, metrics_error, unit) action list)"
  let ?d = "c\<lparr>hs_world := leave_flight P m (hs_world c), hs_pending := (hs_pending c)(i := None),
    hs_recording := (hs_recording c)(i \<mapsto> (?r, 0))\<rparr>"
  let ?e = "?d\<lparr>hs_world := t, hs_recording := (hs_recording ?d)(i \<mapsto> (?r, ?n))\<rparr>"
  have "run_all (drop 0 (record_statements P m ?r)) (hs_world ?d) = (Ok () :: (metrics_error, unit) outcome, t)"
    using run by (auto simp: http_finish_def http_record_def Let_def action_iff)
  then have "(http_act P A now m)\<^sup>*\<^sup>* ?d ?e" by (intro record_acts [of ?d i ?r 0]) simp_all
  moreover have "http_act P A now m c ?d" by (rule http_act.Answer [OF i(1) refl])
  moreover have "http_act P A now m ?e (?e\<lparr>hs_recording := (hs_recording ?e)(i := None), hs_done := rc_labels ?r # hs_done ?e\<rparr>)"
    by (rule http_act.Return) simp
  moreover have "?e\<lparr>hs_recording := (hs_recording ?e)(i := None), hs_done := rc_labels ?r # hs_done ?e\<rparr> =
      c\<lparr>hs_world := t, hs_pending := (hs_pending c)(i := None), hs_done := labels_of A pd result # hs_done c\<rparr>"
    using i(2) by (simp add: http_answer_sel fun_upd_idem)
  ultimately show ?thesis by (metis (no_types, lifting) converse_rtranclp_into_rtranclp rtranclp.rtrancl_into_rtrancl)
qed

lemma http_acts_reach:
  "(http_act P A now m)\<^sup>*\<^sup>* c d \<Longrightarrow> http_reach P A now V m ns c \<Longrightarrow> http_reach P A now V m ns d"
  by (induction rule: rtranclp_induct) (auto intro: http_reach.step http_step.Act)

subsection \<open>A server for the examples\<close>

record demo_request =
  dq_method :: string
  dq_template :: "string option"
  dq_uri :: string

record demo_response =
  dp_status_code :: u16
  dp_length :: "string option"

definition demo_api :: "(demo_request, demo_response, string) http_api" where
  "demo_api =
     \<lparr>req_method = dq_method, req_matched_path = dq_template, req_uri_path = dq_uri,
      resp_status = dp_status_code, resp_content_length = dp_length, header_to_str = Some\<rparr>"

definition demo_http :: http_metrics where
  "demo_http = http_of [1..<5]"

definition demo_http_world :: ref_world where
  "demo_http_world = world_of (zip [1..<5] (http_descs ''myapp''))"

definition demo_get :: demo_request where
  "demo_get = \<lparr>dq_method = ''GET'', dq_template = Some ''/users/{id}'', dq_uri = ''/users/7''\<rparr>"

definition demo_404 :: "string + demo_response" where
  "demo_404 = Inr \<lparr>dp_status_code = 404, dp_length = Some ''12''\<rparr>"

definition demo_inner :: "demo_request \<Rightarrow> 's \<Rightarrow> (string + demo_response) \<times> 's" where
  "demo_inner req s = (demo_404, s)"

lemma demo_http_handles: "http_handles demo_http = [1..<5]"
  by (simp add: demo_http_def http_handles_of)

lemma demo_http_owned: "owned (meta ref_view demo_http_world) (http_handles demo_http) (http_descs ''myapp'')"
  unfolding demo_http_handles ref_view_sel demo_http_world_def world_of_def ref_world.simps
  by (rule owned_map_of_zip) (simp_all add: http_descs_def del: upt_Suc)

lemma demo_http_values:
  "val ref_view demo_http_world (plain (h_requests_in_flight demo_http)) = IntV 0"
  "val ref_view demo_http_world (h_requests_total demo_http, ls) = CountV 0"
  "val ref_view demo_http_world (h_request_duration_seconds demo_http, ls) = HistV []"
  "val ref_view demo_http_world (h_response_size_bytes demo_http, ls) = HistV []"
  using demo_http_owned http_cores [OF demo_http_owned]
  by (auto simp: demo_http_world_def world_of_def core_is_def plain_def)

definition demo_http_start :: "ref_world http_state" where
  "demo_http_start = \<lparr>hs_world = demo_http_world, hs_pending = Map.empty, hs_recording = Map.empty, hs_done = [],
     hs_dropped = 0, hs_panics = 0\<rparr>"

lemma demo_http_start: "http_start ref_view demo_http ''myapp'' demo_http_start"
  using demo_http_owned demo_http_values by (simp add: http_start_def demo_http_start_def)

lemma http_untouched_refl: "http_untouched V m s s"
  by (simp add: http_untouched_def)

lemma http_finish_ready:
  assumes P: "prom_ok P V" and c: "http_reach P A now V m ns c"
  shows "\<exists>t. http_finish P A now' m pd result (hs_world c) = (Ok result :: ('e, 'err + 'p) outcome, t)"
proof -
  note d = http_invD [OF http_reach_inv [OF P c]]
  note q = counts_invD [OF d(4)]
  obtain xs zs where "val V (hs_world c) (h_request_duration_seconds m, labels_of A pd result) = HistV xs"
    "val V (hs_world c) (h_response_size_bytes m, [pd_method pd, pd_path pd]) = HistV zs"
    using q(3,4) by meson
  from http_finish_Ok [where 'e = 'e and now = now', OF P d(1,3) q(2) this] show ?thesis by blast
qed

text \<open>The HTTP layer writes its own metrics only.\<close>

lemma http_act_frame:
  assumes P: "prom_ok P V" and act: "http_act P A now m c d" and inv: "http_inv V m ns c"
  shows "meta V (hs_world d) = meta V (hs_world c)"
    and "fst sr \<notin> set (http_handles m) \<Longrightarrow> val V (hs_world d) sr = val V (hs_world c) sr"
proof -
  note d = http_invD [OF inv]
  have "meta V (hs_world d) = meta V (hs_world c) \<and>
      (\<forall>sr. fst sr \<notin> set (http_handles m) \<longrightarrow> val V (hs_world d) sr = val V (hs_world c) sr)"
    using act
  proof cases
    case (Call i req pd t)
    then show ?thesis using in_flight_assigns(1) [OF P d(1,3)]
      by (auto simp: http_call_def Let_def assigns_def http_handles_def plain_def)
  next
    case (Answer i pd r u result)
    then show ?thesis using in_flight_assigns(2) [OF P d(1,3)]
      by (auto simp: leave_flight_def assigns_def http_handles_def plain_def)
  next
    case (Record i r k x t)
    with http_inv_record(2,3) [OF P inv Record(2,3,4)] show ?thesis by simp
  qed simp_all
  then show "meta V (hs_world d) = meta V (hs_world c)"
    and "fst sr \<notin> set (http_handles m) \<Longrightarrow> val V (hs_world d) sr = val V (hs_world c) sr" by blast+
qed

text \<open>The state after one request was called, and the one after it has finished.\<close>

lemma demo_called:
  "\<exists>pd t c. http_call ref_prom demo_api (\<lambda>_. 0) demo_http demo_get demo_http_world = (pd, t) \<and>
     http_reach ref_prom demo_api (\<lambda>_. 0) ref_view demo_http ''myapp'' c \<and>
     hs_world c = t \<and> hs_pending c = [0 \<mapsto> pd] \<and> hs_recording c = Map.empty \<and> hs_done c = [] \<and> hs_dropped c = 0 \<and>
     pd = \<lparr>pd_method = ''GET'', pd_path = ''/users/{id}'', pd_start = 0\<rparr>"
proof -
  obtain pd t where call: "http_call ref_prom demo_api (\<lambda>_. 0) demo_http demo_get (hs_world demo_http_start) = (pd, t)"
    by (cases "http_call ref_prom demo_api (\<lambda>_. 0) demo_http demo_get (hs_world demo_http_start)")
  let ?c = "demo_http_start\<lparr>hs_world := t, hs_pending := (hs_pending demo_http_start)(0 \<mapsto> pd)\<rparr>"
  have "http_reach ref_prom demo_api (\<lambda>_. 0) ref_view demo_http ''myapp'' ?c"
    by (rule http_reach.step [OF http_reach.start [OF demo_http_start]])
      (rule http_step.Act, rule http_act.Call [OF _ _ call], simp_all add: demo_http_start_def)
  moreover have "pd = \<lparr>pd_method = ''GET'', pd_path = ''/users/{id}'', pd_start = 0\<rparr>"
    using call by (simp add: http_call_def request_path_def demo_api_def demo_get_def Let_def)
  ultimately show ?thesis
    using call by (intro exI [of _ pd] exI [of _ t] exI [of _ ?c]) (simp add: demo_http_start_def)
qed

lemma demo_finished:
  "\<exists>c. http_reach ref_prom demo_api (\<lambda>_. 0) ref_view demo_http ''myapp'' c \<and> hs_recording c = Map.empty \<and>
     hs_done c = [[''GET'', ''/users/{id}'', ''404'']]"
proof -
  obtain pd c where c: "http_reach ref_prom demo_api (\<lambda>_. 0) ref_view demo_http ''myapp'' c"
    "hs_pending c 0 = Some pd" "hs_recording c = Map.empty" "hs_done c = []"
    and pd: "pd = \<lparr>pd_method = ''GET'', pd_path = ''/users/{id}'', pd_start = 0\<rparr>"
    using demo_called by auto
  obtain t where "http_finish ref_prom demo_api (\<lambda>_. 0) demo_http pd demo_404 (hs_world c) =
      (Ok demo_404 :: (metrics_error, _) outcome, t)"
    using http_finish_ready [where 'e = metrics_error, OF ref_prom_ok c(1), of "\<lambda>_. 0" pd demo_404] by blast
  from http_acts_reach [OF finish_acts [OF c(2) _ this] c(1)] c(3)
  have "http_reach ref_prom demo_api (\<lambda>_. 0) ref_view demo_http ''myapp''
      (c\<lparr>hs_world := t, hs_pending := (hs_pending c)(0 := None), hs_done := labels_of demo_api pd demo_404 # hs_done c\<rparr>)"
    by simp
  moreover have "labels_of demo_api pd demo_404 = [''GET'', ''/users/{id}'', ''404'']"
    by (simp add: labels_of_def status_label_def pd demo_404_def demo_api_def show_u16_def show_nat_numeral)
  ultimately show ?thesis using c(3,4)
    by (intro exI [of _ "c\<lparr>hs_world := t, hs_pending := (hs_pending c)(0 := None),
      hs_done := labels_of demo_api pd demo_404 # hs_done c\<rparr>"]) simp
qed

subsection \<open>Properties\<close>

text \<open>
  C3: a request that runs to completion returns what the inner service returned.  The gauge of
  requests in flight is back where it was; the counter and the duration histogram of
  (method, path, status) went up by one, where the path is the matched route when there is one
  and the status of an error is 500; the response size is recorded exactly when the
  \<open>Content-Length\<close> header parses; every other series is what the inner service left.
\<close>

theorem http_serve_records:
  assumes P: "prom_ok P V" and own: "owned (meta V s) (http_handles m) (http_descs ns)"
    and f: "val V s (plain (h_requests_in_flight m)) = IntV k"
    and call: "http_call P A now m req s = (pd, s1)"
    and inner: "inner req s1 = (result, s2)" and u: "http_untouched V m s1 s2"
    and c: "val V s (h_requests_total m, labels_of A pd result) = CountV n"
    and d: "val V s (h_request_duration_seconds m, labels_of A pd result) = HistV xs"
    and z: "val V s (h_response_size_bytes m, [pd_method pd, pd_path pd]) = HistV zs"
  shows "pd = \<lparr>pd_method = req_method A req, pd_path = request_path A req, pd_start = now s1\<rparr> \<and>
    (\<exists>t. http_serve P A now m inner req s = (Ok result :: ('e, _) outcome, t) \<and>
      meta V t = meta V s2 \<and> regs V t = regs V s2 \<and>
      val V t = (val V s2)(plain (h_requests_in_flight m) := IntV k,
        (h_requests_total m, labels_of A pd result) := CountV (n + 1),
        (h_request_duration_seconds m, labels_of A pd result) := HistV (xs @ [as_secs_f64 (now s2 - now s1)]),
        (h_response_size_bytes m, [pd_method pd, pd_path pd]) := observed (HistV zs) (size_of_result A result)))"
proof -
  have pd: "pd = \<lparr>pd_method = req_method A req, pd_path = request_path A req, pd_start = now s1\<rparr>"
    and s1: "s1 = int_gauge_inc P (plain (h_requests_in_flight m)) s"
    using call by (auto simp: http_call_def Let_def)
  have a: "assigns V s s1 (plain (h_requests_in_flight m)) (IntV (k + 1))"
    using in_flight_assigns(1) [OF P own f] s1 by simp
  note ne = http_distinct [OF own]
  have own1: "owned (meta V s1) (http_handles m) (http_descs ns)" using own a by (simp add: assigns_def)
  have own2: "owned (meta V s2) (http_handles m) (http_descs ns)"
    using own1 u by (auto simp: http_untouched_def elim!: owned_cong)
  have same2: "val V s2 (h, ls) = val V s1 (h, ls)" if "h \<in> set (http_handles m)" for h ls
    using u that by (simp add: http_untouched_def)
  have v2: "val V s2 (plain (h_requests_in_flight m)) = IntV (k + 1)"
    "val V s2 (h_requests_total m, labels_of A pd result) = CountV n"
    "val V s2 (h_request_duration_seconds m, labels_of A pd result) = HistV xs"
    "val V s2 (h_response_size_bytes m, [pd_method pd, pd_path pd]) = HistV zs"
    using a c d z ne by (auto simp: same2 http_handles_def plain_def assigns_def)
  from http_finish_Ok [where 'e = 'e and now = now, OF P own2 v2] pd call inner show ?thesis
    by (simp add: http_serve_def)
qed

theorem http_serve_records_witness:
  "\<exists>t. http_serve ref_prom demo_api (\<lambda>_. 0) demo_http demo_inner demo_get demo_http_world =
      (Ok demo_404 :: (metrics_error, _) outcome, t) \<and>
    val ref_view t (plain (h_requests_in_flight demo_http)) = IntV 0 \<and>
    val ref_view t (h_requests_total demo_http, [''GET'', ''/users/{id}'', ''404'']) = CountV 1 \<and>
    val ref_view t (h_response_size_bytes demo_http, [''GET'', ''/users/{id}'']) = HistV [f64_of_nat 12]"
proof -
  obtain pd s1 where call: "http_call ref_prom demo_api (\<lambda>_. 0) demo_http demo_get demo_http_world = (pd, s1)"
    by (cases "http_call ref_prom demo_api (\<lambda>_. 0) demo_http demo_get demo_http_world")
  have inner: "demo_inner demo_get s1 = (demo_404, s1)" by (simp add: demo_inner_def)
  note W = http_serve_records [where 'e = metrics_error and inner = demo_inner and now = "\<lambda>_. 0" and ?s2.0 = s1, OF ref_prom_ok demo_http_owned demo_http_values(1) call
      inner http_untouched_refl demo_http_values(2-4)]
  have pd: "pd = \<lparr>pd_method = ''GET'', pd_path = ''/users/{id}'', pd_start = 0\<rparr>"
    using W by (simp add: demo_api_def request_path_def demo_get_def)
  have l: "labels_of demo_api pd demo_404 = [''GET'', ''/users/{id}'', ''404'']"
    by (simp add: labels_of_def status_label_def pd demo_404_def demo_api_def show_u16_def show_nat_numeral)
  have z: "size_of_result demo_api demo_404 = Some (f64_of_nat 12)"
    by (simp add: size_of_result_def demo_404_def content_length_def demo_api_def parse_f64_def parse_f64_number_def
        span_digits_def is_digit_def digit_val_def parse_exponent_def lower_char_def f64_of_nat_def
        split: if_splits)
  have ne: "distinct [h_requests_total demo_http, h_request_duration_seconds demo_http,
      h_requests_in_flight demo_http, h_response_size_bytes demo_http]"
    by (rule http_distinct [OF demo_http_owned])
  show ?thesis using W ne unfolding l z by (auto simp: pd plain_def)
qed

text \<open>
  C10: in every reachable state the gauge of requests in flight is the number of pending
  futures plus the number of futures that were ever dropped; while none is dropped it is exact.
\<close>

theorem in_flight_counts_dropped:
  assumes "prom_ok P V" and "http_reach P A now V m ns c"
  shows "val V (hs_world c) (plain (h_requests_in_flight m)) =
     IntV (of_nat (card (dom (hs_pending c)) + hs_dropped c)) \<and> finite (dom (hs_pending c))"
  using http_reach_inv [OF assms] by (simp add: http_inv_def flight_inv_def)

theorem in_flight_counts_dropped_witness:
  "val ref_view (snd (http_call ref_prom demo_api (\<lambda>_. 0) demo_http demo_get demo_http_world))
     (plain (h_requests_in_flight demo_http)) = IntV 1"
proof -
  obtain pd t c where c: "http_call ref_prom demo_api (\<lambda>_. 0) demo_http demo_get demo_http_world = (pd, t)"
    "http_reach ref_prom demo_api (\<lambda>_. 0) ref_view demo_http ''myapp'' c" "hs_world c = t"
    "hs_pending c = [0 \<mapsto> pd]" "hs_dropped c = 0"
    using demo_called by blast
  from in_flight_counts_dropped [OF ref_prom_ok c(2)] c show ?thesis by simp
qed

text \<open>
  C16: over all interleavings of the statements of the requests, for all labels: the request
  counter is the number of finished requests with these labels and of those that have run their
  first statement, the duration histogram has an observation for each finished one and each that
  has run its second.  So the histogram is never ahead of the counter, and while no request is
  between its answer and its return they agree.
\<close>

theorem http_counts_agree:
  assumes "prom_ok P V" and "http_reach P A now V m ns c"
  shows "\<exists>n xs. val V (hs_world c) (h_requests_total m, ls) = CountV (of_nat n) \<and>
     val V (hs_world c) (h_request_duration_seconds m, ls) = HistV xs \<and>
     n = count_list (hs_done c) ls + card (past (hs_recording c) 1 ls) \<and>
     length xs = count_list (hs_done c) ls + card (past (hs_recording c) 2 ls) \<and> length xs \<le> n \<and>
     (hs_recording c = Map.empty \<longrightarrow> length xs = n)"
proof -
  note q = counts_invD [OF http_invD(4) [OF http_reach_inv [OF assms]]]
  obtain xs where "val V (hs_world c) (h_request_duration_seconds m, ls) = HistV xs"
    "length xs = count_list (hs_done c) ls + card (past (hs_recording c) 2 ls)" using q(3) by blast
  moreover have "card (past (hs_recording c) 2 ls) \<le> card (past (hs_recording c) 1 ls)"
    by (rule card_mono [OF finite_past [OF q(1)] past_mono]) simp
  ultimately show ?thesis using q(2) [of ls] by auto
qed

theorem http_counts_agree_witness:
  "\<exists>c :: ref_world http_state. val ref_view (hs_world c) (h_requests_total demo_http, [''GET'', ''/users/{id}'', ''404'']) = CountV 1 \<and>
     (\<exists>x. val ref_view (hs_world c) (h_request_duration_seconds demo_http, [''GET'', ''/users/{id}'', ''404'']) = HistV [x])"
proof -
  obtain c where c: "http_reach ref_prom demo_api (\<lambda>_. 0) ref_view demo_http ''myapp'' c" "hs_recording c = Map.empty"
    "hs_done c = [[''GET'', ''/users/{id}'', ''404'']]"
    using demo_finished by blast
  from http_counts_agree [OF ref_prom_ok c(1), of "[''GET'', ''/users/{id}'', ''404'']"] c(2,3)
  show ?thesis by (auto simp: length_Suc_conv)
qed

text \<open>
  In every reachable state every pending request can complete with whatever the inner
  service answers: the code after the \<open>await\<close> never panics, never fails and returns the
  answer unchanged.
\<close>

theorem http_finish_progress:
  assumes "prom_ok P V" and "http_reach P A now V m ns c" and "hs_pending c i = Some pd"
  shows "\<exists>t. http_finish P A now m pd result (hs_world c) = (Ok result :: ('e, 'err + 'p) outcome, t)"
  using assms(1,2) by (rule http_finish_ready)

theorem http_finish_progress_witness:
  "\<exists>pd t. http_finish ref_prom demo_api (\<lambda>_. 0) demo_http pd (Inl ''reset'' :: string + demo_response)
      (snd (http_call ref_prom demo_api (\<lambda>_. 0) demo_http demo_get demo_http_world)) =
    (Ok (Inl ''reset'') :: (metrics_error, string + demo_response) outcome, t)"
proof -
  obtain pd t c where c: "http_call ref_prom demo_api (\<lambda>_. 0) demo_http demo_get demo_http_world = (pd, t)"
    "http_reach ref_prom demo_api (\<lambda>_. 0) ref_view demo_http ''myapp'' c" "hs_world c = t"
    "hs_pending c = [0 \<mapsto> pd]"
    using demo_called by blast
  from http_finish_progress [where 'e = metrics_error, OF ref_prom_ok c(2), of 0 pd "Inl ''reset''"] c
  show ?thesis by auto
qed

text \<open>What was dropped stays counted.\<close>

lemma dropped_mono: "(http_step P A now V m)\<^sup>*\<^sup>* c d \<Longrightarrow> hs_dropped c \<le> hs_dropped d"
proof (induction rule: rtranclp_induct)
  case (step d e)
  have "hs_dropped d \<le> hs_dropped e" if "http_act P A now m d e" using that by cases simp_all
  with step show ?case by (auto elim!: http_stepE)
qed simp

lemma http_steps_reach:
  "(http_step P A now V m)\<^sup>*\<^sup>* c d \<Longrightarrow> http_reach P A now V m ns c \<Longrightarrow> http_reach P A now V m ns d"
  by (induction rule: rtranclp_induct) (auto intro: http_reach.step)

text \<open>
  C34: the gauge leaks: once the future of a pending request is dropped, the gauge is raised for
  good.  The dropped future can be dropped in every such state; in every state after that,
  whatever happens, the gauge shows at least one more than the requests that are pending, and at
  least 1 when none is.
\<close>

theorem in_flight_leak:
  assumes P: "prom_ok P V" and c: "http_reach P A now V m ns c" and i: "hs_pending c i = Some pd"
  shows "let d = c\<lparr>hs_pending := (hs_pending c)(i := None), hs_dropped := Suc (hs_dropped c)\<rparr> in
     http_act P A now m c d \<and>
     (\<forall>e. (http_step P A now V m)\<^sup>*\<^sup>* d e \<longrightarrow>
        (\<exists>k>0. val V (hs_world e) (plain (h_requests_in_flight m)) = IntV (of_nat (card (dom (hs_pending e)) + k)) \<and>
           k = hs_dropped e))"
proof -
  let ?d = "c\<lparr>hs_pending := (hs_pending c)(i := None), hs_dropped := Suc (hs_dropped c)\<rparr>"
  have act: "http_act P A now m c ?d" by (rule http_act.Drop [OF i])
  have d: "http_reach P A now V m ns ?d" by (rule http_reach.step [OF c http_step.Act [OF act]])
  have "0 < hs_dropped e \<and> val V (hs_world e) (plain (h_requests_in_flight m)) =
      IntV (of_nat (card (dom (hs_pending e)) + hs_dropped e))"
    if e: "(http_step P A now V m)\<^sup>*\<^sup>* ?d e" for e
    using dropped_mono [OF e] http_invD(3) [OF http_reach_inv [OF P http_steps_reach [OF e d]]] by simp
  with act show ?thesis by simp
qed

theorem in_flight_leak_witness:
  "\<exists>(d :: ref_world http_state). hs_pending d = Map.empty \<and>
     val ref_view (hs_world d) (plain (h_requests_in_flight demo_http)) = IntV 1"
proof -
  obtain pd c where c: "http_reach ref_prom demo_api (\<lambda>_. 0) ref_view demo_http ''myapp'' c"
    "hs_pending c = [0 \<mapsto> pd]" "hs_dropped c = 0"
    using demo_called by blast
  then have i: "hs_pending c 0 = Some pd" by simp
  let ?d = "c\<lparr>hs_pending := (hs_pending c)(0 := None), hs_dropped := Suc (hs_dropped c)\<rparr>"
  have "\<exists>k>0. val ref_view (hs_world ?d) (plain (h_requests_in_flight demo_http)) =
      IntV (of_nat (card (dom (hs_pending ?d)) + k)) \<and> k = hs_dropped ?d"
    using in_flight_leak [OF ref_prom_ok c(1) i] unfolding Let_def by blast
  with c(2,3) show ?thesis by (intro exI [of _ ?d]) simp
qed

end
