(* ===== verification/PromState.thy ===== *)
theory PromState
  imports Layer
begin

text \<open>
  \<open>dr-metrix-axum/src/state.rs\<close>: \<open>PrometheusMetrics\<close>, the shared state of an application,
  and its builder.  The fields behind interior mutability (the mutex with the task handles, the
  atomic counter) are fields of a record that the operations take and return next to the world;
  \<open>m_poisoned\<close> says whether a thread has panicked while it held the mutex.

  The lemmas: \<open>build\<close> on every valid namespace; \<open>add_collector\<close> for any implementation of
  the trait (in the locale \<open>metrics_collector\<close>); over all sequences of \<open>add_collector\<close> and
  \<open>shutdown\<close>, the invariant of the tasks that were spawned and not told to stop.  \<open>abort\<close> only
  requests a cancellation, so nothing is said here about the moment at which a task ends.
\<close>

record prom_state =
  m_registry :: handle
  m_http :: http_metrics
  m_handles :: "(string \<times> handle) list"
  m_poisoned :: bool
  m_count :: usize

record metrics_builder =
  b_namespace :: string
  b_process_collector :: bool

definition prom_builder :: "string \<Rightarrow> metrics_builder" where
  "prom_builder namespc = \<lparr>b_namespace = namespc, b_process_collector = False\<rparr>"

definition with_process_collector :: "metrics_builder \<Rightarrow> metrics_builder" where
  "with_process_collector b = b\<lparr>b_process_collector := True\<rparr>"

definition new_registry :: "'s prometheus \<Rightarrow> ('s, 'e, handle) action" where
  "new_registry P s = (case registry_new P s of (r, t) \<Rightarrow> (Ok r, t))"

definition register_process :: "'s prometheus \<Rightarrow> handle \<Rightarrow> ('s, metrics_error, unit) action" where
  "register_process P registry s =
     (case process_collector_for_self P s of (pc, t) \<Rightarrow> register_one P registry pc t)"

definition build :: "'s prometheus \<Rightarrow> metrics_builder \<Rightarrow> ('s, metrics_error, prom_state) action" where
  "build P b =
     bind_act (new_registry P) (\<lambda>registry.
     bind_act (if b_process_collector b then register_process P registry else ret ()) (\<lambda>_.
     bind_act (http_new P (b_namespace b)) (\<lambda>http.
     bind_act (http_register P http registry) (\<lambda>_.
     ret \<lparr>m_registry = registry, m_http = http, m_handles = [], m_poisoned = False, m_count = 0\<rparr>))))"

definition http_layer_of :: "prom_state \<Rightarrow> http_layer" where
  "http_layer_of pm = http_layer_new (m_http pm)"

text \<open>A value of a type that implements the trait, as its methods.\<close>

record 's collector =
  co_name :: string
  co_register :: "handle \<Rightarrow> ('s, metrics_error, unit) action"
  co_collect :: "('s, metrics_error, unit) action"

definition add_collector ::
  "'s tokio \<Rightarrow> 's collector \<Rightarrow> nat \<Rightarrow> ('s \<times> prom_state, metrics_error, unit) action" where
  "add_collector T c interval sp =
     (case sp of (s, pm) \<Rightarrow>
        (case co_register c (m_registry pm) s of
           (Err e, t) \<Rightarrow> (Err e, (t, pm))
         | (Panic, t) \<Rightarrow> (Panic, (t, pm))
         | (Ok _, t) \<Rightarrow>
             (case spawn_collect_loop T (co_name c) (co_collect c) interval t of
                (h, u) \<Rightarrow>
                  if m_poisoned pm then (Panic, (u, pm))
                  else (Ok (), (u, pm\<lparr>m_handles := m_handles pm @ [(co_name c, h)],
                                      m_count := m_count pm + 1\<rparr>)))))"

definition collector_count :: "prom_state \<Rightarrow> usize" where
  "collector_count pm = m_count pm"

text \<open>The drained handles are aborted in the order in which they were pushed.\<close>

fun abort_all :: "'s tokio \<Rightarrow> (string \<times> handle) list \<Rightarrow> 's \<Rightarrow> 's" where
  "abort_all T [] s = s"
| "abort_all T ((name, h) # hs) s = abort_all T hs (tokio_abort T h s)"

definition shutdown :: "'s tokio \<Rightarrow> ('s \<times> prom_state, 'e, unit) action" where
  "shutdown T sp =
     (case sp of (s, pm) \<Rightarrow>
        if m_poisoned pm then (Panic, (s, pm))
        else (Ok (), (abort_all T (m_handles pm) s, pm\<lparr>m_handles := []\<rparr>)))"

definition drop_prom :: "'s tokio \<Rightarrow> ('s \<times> prom_state, 'e, unit) action" where
  "drop_prom T = shutdown T"

subsection \<open>Building\<close>

text \<open>No metric of a backend or of the HTTP layer has the name of a process metric.\<close>

fun has_infix :: "string \<Rightarrow> string \<Rightarrow> bool" where
  "has_infix p [] \<longleftrightarrow> p = []"
| "has_infix p (c # cs) \<longleftrightarrow> take (length p) (c # cs) = p \<or> has_infix p cs"

lemma has_infix_append: "has_infix p (a @ p @ b)"
proof (induction a)
  case Nil
  then show ?case by (cases p; cases b) simp_all
next
  case (Cons c a)
  then show ?case by simp
qed

lemma process_names_no_infix:
  "x \<in> set process_metric_names \<Longrightarrow>
     \<not> has_infix ''http_'' x \<and> \<not> has_infix ''redis_'' x \<and> \<not> has_infix ''mongo_'' x \<and> \<not> has_infix ''postgres_'' x"
  by (auto simp: process_metric_names_def)

lemma process_names_disjoint:
  assumes "\<not> (\<exists>x\<in>set process_metric_names. has_infix sub x)"
  shows "set (map (\<lambda>n. ns_prefix ns @ sub @ n) names) \<inter> set process_metric_names = {}"
  using assms has_infix_append by fastforce

lemma http_process_disjoint:
  "set (map (\<lambda>n. ns_prefix ns @ ''http_'' @ n) http_names) \<inter> set process_metric_names = {}"
  using process_names_no_infix by (intro process_names_disjoint) blast

lemma prefixed_distinct: "distinct (map (\<lambda>n. a @ b @ n) names) \<longleftrightarrow> distinct names"
  by (simp add: distinct_map inj_on_def)

lemma registry_new_law:
  assumes "prom_ok P V" "registry_new P s = (r, t)"
  shows "r \<notin> dom (regs V s)" "meta V t = meta V s" "val V t = val V s" "regs V t = (regs V s)(r \<mapsto> [])"
  using assms unfolding prom_ok_def law_registry_new_def by blast+

lemma process_collector_law:
  assumes "prom_ok P V" "process_collector_for_self P s = (h, t)"
  obtains d where "h \<notin> dom (meta V s)" "regs V t = regs V s" "meta V t = (meta V s)(h \<mapsto> d)"
    "set (d_names d) \<subseteq> set process_metric_names" "\<And>sr. fst sr \<noteq> h \<Longrightarrow> val V t sr = val V s sr"
  using assms unfolding prom_ok_def law_process_def by blast

lemma allocated_old:
  assumes "allocated V s t hs ds" and "h \<in> dom (meta V s)"
  shows "meta V t h = meta V s h" and "val V t (h, ls) = val V s (h, ls)"
proof -
  have "h \<notin> set hs" using assms by (auto simp: allocated_def)
  then show "meta V t h = meta V s h" and "val V t (h, ls) = val V s (h, ls)"
    using assms(1) by (simp_all add: allocated_def)
qed

lemma names_of_cong: "(\<And>h. h \<in> set hs \<Longrightarrow> M' h = M h) \<Longrightarrow> names_of M' hs = names_of M hs"
  by (induction hs) auto

text \<open>The process collector, or nothing, in a new registry.\<close>

lemma process_part:
  assumes P: "prom_ok P V" and r: "regs V s r = Some []"
  shows "\<exists>pc t. (if b then register_process P r else ret ()) s = (Ok (), t) \<and> length pc = (if b then 1 else 0) \<and>
     regs V t = (regs V s)(r \<mapsto> pc) \<and> set pc \<subseteq> dom (meta V t) \<and> set pc \<inter> dom (meta V s) = {} \<and>
     set (names_of (meta V t) pc) \<subseteq> set process_metric_names \<and>
     (\<forall>h\<in>dom (meta V s). meta V t h = meta V s h \<and> (\<forall>ls. val V t (h, ls) = val V s (h, ls)))"
proof (cases b)
  case True
  obtain pc u where pc: "process_collector_for_self P s = (pc, u)" by (cases "process_collector_for_self P s")
  obtain d where d: "pc \<notin> dom (meta V s)" "regs V u = regs V s" "meta V u = (meta V s)(pc \<mapsto> d)"
    "set (d_names d) \<subseteq> set process_metric_names" "\<And>sr. fst sr \<noteq> pc \<Longrightarrow> val V u sr = val V s sr"
    using process_collector_law [OF P pc] by blast
  obtain res t where t: "register_one P r pc u = (res, t)" by (cases "register_one P r pc u")
  have m: "meta V u pc = Some d" and rs: "regs V u r = Some []" using d r by simp_all
  from P rs m t have "res = Ok ()" "meta V t = meta V u" "val V t = val V u" "regs V t = (regs V u)(r \<mapsto> [pc])"
    by (cases rule: register_one_cases; auto simp: name_clash_def)+
  with True pc t d show ?thesis
    by (intro exI [of _ "[pc]"] exI [of _ t]) (auto simp: register_process_def)
next
  case False
  then show ?thesis using r by (intro exI [of _ "[]"] exI [of _ s]) (auto simp: ret_def)
qed

text \<open>The starting state of the HTTP layer in a given world.\<close>

definition http_idle :: "'s \<Rightarrow> 's http_state" where
  "http_idle s =
     \<lparr>hs_world = s, hs_pending = Map.empty, hs_recording = Map.empty, hs_done = [], hs_dropped = 0, hs_panics = 0\<rparr>"

lemma allocated_http_start:
  assumes a: "allocated V s t (http_handles m) (http_descs ns)"
    and u: "meta V u = meta V t" "val V u = val V t"
  shows "http_start V m ns (http_idle u)"
proof -
  have own: "owned (meta V u) (http_handles m) (http_descs ns)"
    using allocated_owned [OF a] u by simp
  have "\<forall>(h, d)\<in>set (zip (http_handles m) (http_descs ns)). \<forall>ls. val V u (h, ls) = initial_value (d_kind d)"
    using a u by (simp add: allocated_def)
  then have "val V u (plain (h_requests_in_flight m)) = IntV 0 \<and>
      (\<forall>ls. val V u (h_requests_total m, ls) = CountV 0 \<and>
        val V u (h_request_duration_seconds m, ls) = HistV [] \<and>
        val V u (h_response_size_bytes m, ls) = HistV [])"
    by (simp add: plain_def http_handles_def http_descs_def http_specs_def spec_desc_def)
  with own show ?thesis by (simp add: http_start_def http_idle_def)
qed

lemma build_parts:
  assumes P: "prom_ok P V" and ns: "valid_namespace (b_namespace b)"
  shows "\<exists>pm t pc. build P b s = (Ok pm, t) \<and> m_handles pm = [] \<and> \<not> m_poisoned pm \<and> m_count pm = 0 \<and>
     m_registry pm \<notin> dom (regs V s) \<and> regs V t = (regs V s)(m_registry pm \<mapsto> pc @ http_handles (m_http pm)) \<and>
     length pc = (if b_process_collector b then 1 else 0) \<and> set pc \<subseteq> dom (meta V t) \<and>
     set (names_of (meta V t) pc) \<subseteq> set process_metric_names \<and>
     http_start V (m_http pm) (b_namespace b) (http_idle t) \<and>
     (\<forall>h\<in>dom (meta V s). meta V t h = meta V s h \<and> (\<forall>ls. val V t (h, ls) = val V s (h, ls)))"
proof -
  let ?ns = "b_namespace b"
  obtain r s1 where r: "registry_new P s = (r, s1)" by (cases "registry_new P s")
  note s1 = registry_new_law [OF P r]
  obtain pc s2 where pc: "(if b_process_collector b then register_process P r else ret ()) s1 = (Ok (), s2)"
    "length pc = (if b_process_collector b then 1 else 0)" "regs V s2 = (regs V s1)(r \<mapsto> pc)"
    "set pc \<subseteq> dom (meta V s2)" "set (names_of (meta V s2) pc) \<subseteq> set process_metric_names"
    "\<forall>h\<in>dom (meta V s1). meta V s2 h = meta V s1 h \<and> (\<forall>ls. val V s2 (h, ls) = val V s1 (h, ls))"
    using process_part [OF P, of s1 r "b_process_collector b"] s1(4) by auto
  obtain hm s3 where hm: "http_new P ?ns s2 = (Ok hm, s3)" using http_new_valid [OF P ns] by blast
  note al = http_new_Ok [OF P hm]
  have own: "owned (meta V s3) (http_handles hm) (http_descs ?ns)" by (rule allocated_owned [OF al])
  have r3: "regs V s3 r = Some pc" using al pc(3) by (simp add: allocated_def)
  obtain res t where t: "http_register P hm r s3 = (res, t)" by (cases "http_register P hm r s3")
  have old: "meta V s3 h = meta V s2 h" if "h \<in> set pc" for h
    using allocated_old(1) [OF al] pc(4) that by blast
  have names: "names_of (meta V s3) pc = names_of (meta V s2) pc"
    using old by (intro names_of_cong) simp
  have hn: "names_of (meta V s3) (http_handles hm) = map (\<lambda>n. ns_prefix ?ns @ ''http_'' @ n) http_names"
    using names_of_owned [OF own] by (simp add: http_desc_names)
  have "set (names_of (meta V s3) (http_handles hm)) \<inter> set (names_of (meta V s3) pc) = {}"
    unfolding hn names using http_process_disjoint [of ?ns] pc(5) by blast
  moreover have "distinct (names_of (meta V s3) (http_handles hm))"
    unfolding hn prefixed_distinct by (simp add: http_names_def)
  moreover have reg: "registered V s3 t r (http_handles hm) res" by (rule http_register_registered [OF P own r3 t])
  ultimately have ok: "res = Ok ()" "regs V t = (regs V s3)(r \<mapsto> pc @ http_handles hm)"
    using registered_fresh [OF reg r3] by auto
  have mv: "meta V t = meta V s3" "val V t = val V s3" using reg by (simp_all add: registered_def)
  have start: "http_start V hm ?ns (http_idle t)" by (rule allocated_http_start [OF al mv])
  have keep: "meta V t h = meta V s h \<and> (\<forall>ls. val V t (h, ls) = val V s (h, ls))" if "h \<in> dom (meta V s)" for h
  proof -
    have "h \<in> dom (meta V s1)" using that s1(2) by simp
    then have k2: "meta V s2 h = meta V s h \<and> (\<forall>ls. val V s2 (h, ls) = val V s (h, ls))" using pc(6) s1 by simp
    then have "h \<in> dom (meta V s2)" using that by (simp add: domIff)
    with k2 show ?thesis using allocated_old [OF al] mv by simp
  qed
  have "build P b s = (Ok \<lparr>m_registry = r, m_http = hm, m_handles = [], m_poisoned = False, m_count = 0\<rparr>, t)"
    using r pc(1) hm t ok(1) by (simp add: build_def new_registry_def bind_act_of_Ok ret_def bind_act_def)
  moreover have "regs V t = (regs V s)(r \<mapsto> pc @ http_handles hm)"
    using ok(2) al pc(3) s1(4) by (simp add: allocated_def)
  moreover have "set pc \<subseteq> dom (meta V t)" using pc(4) old mv by (auto simp: domIff subset_iff)
  moreover have "set (names_of (meta V t) pc) \<subseteq> set process_metric_names" using names pc(5) mv by simp
  ultimately show ?thesis using s1(1) pc(2) start keep by auto
qed

subsection \<open>Adding a collector\<close>

text \<open>Spawning and aborting tasks does not touch the metrics.\<close>

definition tokio_quiet :: "'s tokio \<Rightarrow> 's prom_view \<Rightarrow> bool" where
  "tokio_quiet T V \<longleftrightarrow>
     (\<forall>lt s. same V s (snd (tokio_spawn T lt s))) \<and> (\<forall>h s. same V s (tokio_abort T h s))"

text \<open>\<open>h\<close> is the handle that \<open>spawn\<close> returned for the task \<open>lt\<close>.\<close>

definition spawned :: "'s tokio \<Rightarrow> 's loop_task \<Rightarrow> handle \<Rightarrow> bool" where
  "spawned T lt h \<longleftrightarrow> (\<exists>s t. tokio_spawn T lt s = (h, t))"

lemma add_collector_Ok_iff:
  "add_collector T c interval (s, pm) = (Ok x, (u, pm')) \<longleftrightarrow>
     (\<exists>t h. co_register c (m_registry pm) s = (Ok (), t) \<and>
        tokio_spawn T \<lparr>task_name = co_name c, task_interval = interval, task_collect = co_collect c\<rparr> t = (h, u) \<and>
        \<not> m_poisoned pm \<and>
        pm' = pm\<lparr>m_handles := m_handles pm @ [(co_name c, h)], m_count := m_count pm + 1\<rparr>)"
  by (auto simp: add_collector_def spawn_collect_loop_def split: prod.splits outcome.splits)

lemma add_collector_Err_iff:
  "add_collector T c interval (s, pm) = (Err e, (u, pm')) \<longleftrightarrow>
     co_register c (m_registry pm) s = (Err e, u) \<and> pm' = pm"
  by (auto simp: add_collector_def split: prod.splits outcome.splits)

lemma add_collector_Panic:
  "add_collector T c interval (s, pm) = (Panic, (u, pm')) \<Longrightarrow> pm' = pm"
  by (auto simp: add_collector_def split: prod.splits outcome.splits if_splits)

context metrics_collector
begin

text \<open>A collector whose names are free is registered and its loop is spawned.\<close>

lemma add_fresh:
  assumes P: "prom_ok P V" and T: "tokio_quiet T V" and own: "owned (meta V s) own descs"
    and r: "regs V s (m_registry pm) = Some rs" and np: "\<not> m_poisoned pm"
    and fresh: "distinct (names_of (meta V s) own)"
      "set (names_of (meta V s) own) \<inter> set (names_of (meta V s) rs) = {}"
  shows "\<exists>h t. add_collector T \<lparr>co_name = name, co_register = register P, co_collect = collect P\<rparr> interval (s, pm) =
       (Ok (), (t, pm\<lparr>m_handles := m_handles pm @ [(name, h)], m_count := m_count pm + 1\<rparr>)) \<and>
     spawned T \<lparr>task_name = name, task_interval = interval, task_collect = collect P\<rparr> h \<and>
     meta V t = meta V s \<and> val V t = val V s \<and> regs V t = (regs V s)(m_registry pm \<mapsto> rs @ own)"
proof -
  obtain res t where t: "register P (m_registry pm) s = (res, t)" by (cases "register P (m_registry pm) s")
  have ok: "res = Ok ()" "meta V t = meta V s" "val V t = val V s" "regs V t = (regs V s)(m_registry pm \<mapsto> rs @ own)"
    using register_fresh [OF P own r t fresh] by auto
  obtain h u where u: "tokio_spawn T \<lparr>task_name = name, task_interval = interval, task_collect = collect P\<rparr> t = (h, u)"
    by (cases "tokio_spawn T \<lparr>task_name = name, task_interval = interval, task_collect = collect P\<rparr> t")
  have "same V t u" using T u by (metis tokio_quiet_def snd_conv)
  with t ok u np show ?thesis
    by (auto simp: add_collector_def spawn_collect_loop_def same_def spawned_def)
qed

text \<open>
  A collector one of whose names is taken is refused: no task is spawned, the count and the
  handles stay; the metrics before the clash remain registered.
\<close>

lemma add_clash:
  assumes P: "prom_ok P V" and own: "owned (meta V s) own descs"
    and r: "regs V s (m_registry pm) = Some rs"
    and clash: "set (names_of (meta V s) own) \<inter> set (names_of (meta V s) rs) \<noteq> {}"
  shows "\<exists>t. add_collector T \<lparr>co_name = name, co_register = register P, co_collect = collect P\<rparr> interval (s, pm) =
       (Err (Prometheus AlreadyReg), (t, pm)) \<and>
     meta V t = meta V s \<and> val V t = val V s \<and>
     (\<exists>k<length own. regs V t = (regs V s)(m_registry pm \<mapsto> rs @ take k own))"
proof -
  obtain res t where t: "register P (m_registry pm) s = (res, t)" by (cases "register P (m_registry pm) s")
  have reg: "registered V s t (m_registry pm) own res" by (rule register_registers [OF P own r t])
  from registered_clash [OF reg r owned_dom [OF own] clash] t reg show ?thesis
    by (auto simp: add_collector_def registered_def)
qed

end

subsection \<open>The tasks that were not told to stop\<close>

text \<open>
  \<open>R s\<close> are the collector tasks that were spawned and whose cancellation nobody has requested in
  the world \<open>s\<close>.  Documented behaviour of \<open>tokio\<close>: \<open>spawn\<close> returns the handle of a new task;
  \<open>abort\<close> schedules the cancellation of the task, which takes effect when the task next reaches an
  \<open>await\<close>, so the task may still be running when \<open>abort\<close> returns.  Whether a task has ended by
  itself, by a panic, does not matter here; that is a question of its code (\<open>run_task\<close>).
\<close>

definition tokio_tasks :: "'s tokio \<Rightarrow> ('s \<Rightarrow> handle set) \<Rightarrow> bool" where
  "tokio_tasks T R \<longleftrightarrow>
     (\<forall>lt s h t. tokio_spawn T lt s = (h, t) \<longrightarrow> h \<notin> R s \<and> R t = insert h (R s)) \<and>
     (\<forall>h s. R (tokio_abort T h s) = R s - {h})"

text \<open>Registering a collector spawns no task and aborts none.\<close>

definition spawns_nothing :: "('s \<Rightarrow> handle set) \<Rightarrow> 's collector \<Rightarrow> bool" where
  "spawns_nothing R c \<longleftrightarrow> (\<forall>r s. R (snd (co_register c r s)) = R s)"

lemma spawns_nothingD:
  assumes "spawns_nothing R c" and "co_register c r s = (x, t)"
  shows "R t = R s"
proof -
  have "R (snd (co_register c r s)) = R s" using assms(1) by (simp add: spawns_nothing_def)
  with assms(2) show ?thesis by simp
qed

text \<open>
  The state of an application: the world, the shared state, and a ghost counter of the calls of
  \<open>add_collector\<close> that returned \<open>Ok\<close>.  The steps are calls of the two operations, in any
  order, and anything else that spawns no collector task.
\<close>

record 's app =
  ap_world :: 's
  ap_prom :: prom_state
  ap_added :: nat

inductive app_step :: "'s tokio \<Rightarrow> ('s \<Rightarrow> handle set) \<Rightarrow> 's app \<Rightarrow> 's app \<Rightarrow> bool"
  for T R where
  Add: "add_collector T c interval (ap_world a, ap_prom a) = (res, (t, pm)) \<Longrightarrow> spawns_nothing R c \<Longrightarrow>
    app_step T R a
      (a\<lparr>ap_world := t, ap_prom := pm, ap_added := (if res = Ok () then Suc (ap_added a) else ap_added a)\<rparr>)"
| Shutdown: "shutdown T (ap_world a, ap_prom a) = (res :: (metrics_error, unit) outcome, (t, pm)) \<Longrightarrow>
    app_step T R a (a\<lparr>ap_world := t, ap_prom := pm\<rparr>)"
| Other: "R t \<subseteq> R (ap_world a) \<Longrightarrow> app_step T R a (a\<lparr>ap_world := t\<rparr>)"

definition app_start :: "('s \<Rightarrow> handle set) \<Rightarrow> 's app \<Rightarrow> bool" where
  "app_start R a \<longleftrightarrow>
     R (ap_world a) = {} \<and> m_handles (ap_prom a) = [] \<and> \<not> m_poisoned (ap_prom a) \<and>
     m_count (ap_prom a) = 0 \<and> ap_added a = 0"

inductive app_reach :: "'s tokio \<Rightarrow> ('s \<Rightarrow> handle set) \<Rightarrow> 's app \<Rightarrow> bool" for T R where
  start: "app_start R a \<Longrightarrow> app_reach T R a"
| step: "app_reach T R a \<Longrightarrow> app_step T R a b \<Longrightarrow> app_reach T R b"

text \<open>No task is orphaned: what was not told to stop is in the handles.  The count never goes down.\<close>

definition app_inv :: "('s \<Rightarrow> handle set) \<Rightarrow> 's app \<Rightarrow> bool" where
  "app_inv R a \<longleftrightarrow>
     R (ap_world a) \<subseteq> snd ` set (m_handles (ap_prom a)) \<and> \<not> m_poisoned (ap_prom a) \<and>
     m_count (ap_prom a) = of_nat (ap_added a) \<and> length (m_handles (ap_prom a)) \<le> ap_added a"

lemma abort_all_tasks:
  assumes T: "tokio_tasks T R"
  shows "R (abort_all T hs s) \<subseteq> R s - snd ` set hs"
proof (induction hs arbitrary: s)
  case (Cons x hs)
  obtain name h where x: "x = (name, h)" by (cases x)
  have "R (abort_all T hs (tokio_abort T h s)) \<subseteq> R (tokio_abort T h s) - snd ` set hs" by (rule Cons.IH)
  moreover have "R (tokio_abort T h s) \<subseteq> R s - {h}" using T by (simp add: tokio_tasks_def)
  ultimately show ?case by (auto simp: x)
qed simp

lemma app_inv_add:
  assumes T: "tokio_tasks T R" and c: "spawns_nothing R c" and inv: "app_inv R a"
    and run: "add_collector T c interval (ap_world a, ap_prom a) = (res, (t, pm))"
  shows "app_inv R (a\<lparr>ap_world := t, ap_prom := pm, ap_added := (if res = Ok () then Suc (ap_added a) else ap_added a)\<rparr>)"
proof (cases res)
  case (Ok x)
  then obtain u h where u: "co_register c (m_registry (ap_prom a)) (ap_world a) = (Ok (), u)"
    "tokio_spawn T \<lparr>task_name = co_name c, task_interval = interval, task_collect = co_collect c\<rparr> u = (h, t)"
    "pm = (ap_prom a)\<lparr>m_handles := m_handles (ap_prom a) @ [(co_name c, h)], m_count := m_count (ap_prom a) + 1\<rparr>"
    using run by (auto simp: add_collector_Ok_iff)
  have "R u = R (ap_world a)" using spawns_nothingD [OF c u(1)] .
  moreover have "R t = insert h (R u)" using T u(2) unfolding tokio_tasks_def by blast
  ultimately show ?thesis using inv u(3) Ok by (auto simp: app_inv_def add.commute)
next
  case (Err e)
  then have "co_register c (m_registry (ap_prom a)) (ap_world a) = (Err e, t)" "pm = ap_prom a"
    using run by (simp_all add: add_collector_Err_iff)
  moreover from this have "R t = R (ap_world a)" using spawns_nothingD [OF c] by blast
  ultimately show ?thesis using inv Err by (auto simp: app_inv_def)
next
  case Panic
  then have "\<exists>u. co_register c (m_registry (ap_prom a)) (ap_world a) = (Panic, u) \<and> u = t" "pm = ap_prom a"
    using run inv by (auto simp: add_collector_def app_inv_def split: prod.splits outcome.splits if_splits)
  moreover from this have "R t = R (ap_world a)" using spawns_nothingD [OF c] by blast
  ultimately show ?thesis using inv Panic by (auto simp: app_inv_def)
qed

lemma shutdown_tasks:
  assumes T: "tokio_tasks T R" and inv: "app_inv R a"
    and run: "shutdown T (ap_world a, ap_prom a) = (res :: ('e, unit) outcome, (t, pm))"
  shows "res = Ok () \<and> R t = {} \<and> pm = (ap_prom a)\<lparr>m_handles := []\<rparr>"
  using run inv abort_all_tasks [OF T, of "m_handles (ap_prom a)" "ap_world a"]
  by (auto simp: shutdown_def app_inv_def)

lemma app_step_inv: "app_step T R a b \<Longrightarrow> tokio_tasks T R \<Longrightarrow> app_inv R a \<Longrightarrow> app_inv R b"
proof (induction rule: app_step.induct)
  case (Add c interval a res t pm)
  then show ?case by (intro app_inv_add)
next
  case (Shutdown a res t pm)
  from shutdown_tasks [OF this(2,3,1)] Shutdown(3) show ?case by (simp add: app_inv_def)
next
  case (Other t a)
  then show ?case by (auto simp: app_inv_def)
qed

lemma app_reach_inv:
  assumes "tokio_tasks T R"
  shows "app_reach T R a \<Longrightarrow> app_inv R a"
proof (induction rule: app_reach.induct)
  case (start a)
  then show ?case by (simp add: app_start_def app_inv_def)
next
  case (step a b)
  then show ?case by (blast intro: app_step_inv [OF _ assms])
qed

subsection \<open>A runtime for the examples\<close>

text \<open>A world that is the next task number and the tasks that were not told to stop.\<close>

type_synonym demo_tasks = "nat \<times> handle list"

definition demo_runtime :: "demo_tasks tokio" where
  "demo_runtime =
     \<lparr>interval_panics = (\<lambda>d. d = 0),
      tokio_spawn = (\<lambda>lt w. (fst w, (Suc (fst w), fst w # snd w))),
      tokio_abort = (\<lambda>h w. (fst w, removeAll h (snd w)))\<rparr>"

definition demo_running :: "demo_tasks \<Rightarrow> handle set" where
  "demo_running w = {h \<in> set (snd w). h < fst w}"

definition demo_collector :: "demo_tasks collector" where
  "demo_collector = \<lparr>co_name = ''demo'', co_register = (\<lambda>_. ret ()), co_collect = ret ()\<rparr>"

definition demo_app :: "demo_tasks app" where
  "demo_app =
     \<lparr>ap_world = (0, []),
      ap_prom = \<lparr>m_registry = 0, m_http = demo_http, m_handles = [], m_poisoned = False, m_count = 0\<rparr>,
      ap_added = 0\<rparr>"

lemma demo_runtime_tasks: "tokio_tasks demo_runtime demo_running"
  by (auto simp: tokio_tasks_def demo_runtime_def demo_running_def)

lemma demo_app_start: "app_start demo_running demo_app"
  by (simp add: app_start_def demo_app_def demo_running_def)

lemma demo_app_added:
  "\<exists>a. app_reach demo_runtime demo_running a \<and> ap_added a = 1 \<and> demo_running (ap_world a) = {0}"
proof -
  let ?pm = "(ap_prom demo_app)\<lparr>m_handles := [(''demo'', 0)], m_count := 1\<rparr>"
  have "add_collector demo_runtime demo_collector 5 (ap_world demo_app, ap_prom demo_app) = (Ok (), ((Suc 0, [0]), ?pm))"
    by (simp add: add_collector_def spawn_collect_loop_def demo_runtime_def demo_collector_def demo_app_def ret_def)
  moreover have "spawns_nothing demo_running demo_collector"
    by (simp add: spawns_nothing_def demo_collector_def ret_def)
  ultimately have "app_step demo_runtime demo_running demo_app
      (demo_app\<lparr>ap_world := (Suc 0, [0]), ap_prom := ?pm,
        ap_added := (if (Ok () :: (metrics_error, unit) outcome) = Ok () then Suc (ap_added demo_app) else ap_added demo_app)\<rparr>)"
    by (rule app_step.Add)
  from app_reach.step [OF app_reach.start [OF demo_app_start] this]
  have "app_reach demo_runtime demo_running (demo_app\<lparr>ap_world := (Suc 0, [0]), ap_prom := ?pm, ap_added := 1\<rparr>)"
    by (simp add: demo_app_def)
  moreover have "ap_added (demo_app\<lparr>ap_world := (Suc 0, [0]), ap_prom := ?pm, ap_added := 1\<rparr>) = 1"
    "demo_running (ap_world (demo_app\<lparr>ap_world := (Suc 0, [0]), ap_prom := ?pm, ap_added := 1\<rparr>)) = {0}"
    by (simp_all add: demo_running_def)
  ultimately show ?thesis by blast
qed

subsection \<open>Properties\<close>

text \<open>
  C31: for every namespace that is empty or a valid metric name, \<open>build\<close> succeeds.  The new
  registry holds the process collector, if it was asked for, and the four HTTP metrics; the HTTP
  layer starts idle with zero values; there are no tasks and no collectors; no metric that
  existed before is changed.
\<close>

theorem build_total:
  assumes "prom_ok P V" and "valid_namespace (b_namespace b)"
  shows "\<exists>pm t pc. build P b s = (Ok pm, t) \<and> m_handles pm = [] \<and> \<not> m_poisoned pm \<and> m_count pm = 0 \<and>
     m_registry pm \<notin> dom (regs V s) \<and> regs V t = (regs V s)(m_registry pm \<mapsto> pc @ http_handles (m_http pm)) \<and>
     length pc = (if b_process_collector b then 1 else 0) \<and>
     set (names_of (meta V t) pc) \<subseteq> set process_metric_names \<and>
     names_of (meta V t) (http_handles (m_http pm)) = map (\<lambda>n. ns_prefix (b_namespace b) @ ''http_'' @ n) http_names \<and>
     http_start V (m_http pm) (b_namespace b) (http_idle t) \<and>
     (\<forall>h\<in>dom (meta V s). meta V t h = meta V s h \<and> (\<forall>ls. val V t (h, ls) = val V s (h, ls)))"
proof -
  obtain pm t pc where b: "build P b s = (Ok pm, t)" "http_start V (m_http pm) (b_namespace b) (http_idle t)"
    and rest: "m_handles pm = [] \<and> \<not> m_poisoned pm \<and> m_count pm = 0 \<and>
     m_registry pm \<notin> dom (regs V s) \<and> regs V t = (regs V s)(m_registry pm \<mapsto> pc @ http_handles (m_http pm)) \<and>
     length pc = (if b_process_collector b then 1 else 0) \<and>
     set (names_of (meta V t) pc) \<subseteq> set process_metric_names \<and>
     (\<forall>h\<in>dom (meta V s). meta V t h = meta V s h \<and> (\<forall>ls. val V t (h, ls) = val V s (h, ls)))"
    using build_parts [OF assms, of s] by blast
  have "owned (meta V t) (http_handles (m_http pm)) (http_descs (b_namespace b))"
    using b(2) by (simp add: http_start_def http_idle_def)
  then have "names_of (meta V t) (http_handles (m_http pm)) =
      map (\<lambda>n. ns_prefix (b_namespace b) @ ''http_'' @ n) http_names"
    by (simp add: names_of_owned http_desc_names)
  with b rest show ?thesis by blast
qed

theorem build_total_witness:
  "\<exists>pm t. build ref_prom (with_process_collector (prom_builder ''myapp'')) empty_world = (Ok pm, t) \<and>
     m_count pm = 0 \<and> (\<exists>hs. regs ref_view t (m_registry pm) = Some hs \<and> length hs = 5)"
proof -
  have "valid_namespace (b_namespace (with_process_collector (prom_builder ''myapp'')))"
    by (simp add: valid_namespace_def valid_eval with_process_collector_def prom_builder_def)
  from build_total [OF ref_prom_ok this, of empty_world] show ?thesis
    by (fastforce simp: with_process_collector_def prom_builder_def http_handles_def simp del: ref_view_sel)
qed

text \<open>
  C18: over all sequences of calls of \<open>add_collector\<close> and \<open>shutdown\<close> no collector task is
  orphaned: every task that was spawned and not told to stop is in the handles, so that
  \<open>shutdown\<close> can reach it.  The mutex is never poisoned, and the count is the number of successful
  calls of \<open>add_collector\<close>.
\<close>

theorem no_orphan_tasks:
  assumes "tokio_tasks T R" and "app_reach T R a"
  shows "R (ap_world a) \<subseteq> snd ` set (m_handles (ap_prom a)) \<and> \<not> m_poisoned (ap_prom a) \<and>
     collector_count (ap_prom a) = of_nat (ap_added a)"
  using app_reach_inv [OF assms] by (simp add: app_inv_def collector_count_def)

theorem no_orphan_tasks_witness:
  "\<exists>a. app_reach demo_runtime demo_running a \<and> demo_running (ap_world a) = {0} \<and>
     0 \<in> snd ` set (m_handles (ap_prom a)) \<and> collector_count (ap_prom a) = 1"
proof -
  obtain a where a: "app_reach demo_runtime demo_running a" "ap_added a = 1" "demo_running (ap_world a) = {0}"
    using demo_app_added by blast
  from no_orphan_tasks [OF demo_runtime_tasks a(1)] a show ?thesis by auto
qed

text \<open>
  C14: in every reachable state \<open>shutdown\<close> succeeds, and afterwards every collector task that was
  ever spawned has been told to stop (it ends at its next \<open>await\<close>) and no handle is left; a
  second \<open>shutdown\<close>, as \<open>Drop\<close> makes, changes nothing.  The collector count stays what it was.
\<close>

theorem shutdown_stops_all:
  assumes T: "tokio_tasks T R" and a: "app_reach T R a"
  shows "\<exists>t pm. shutdown T (ap_world a, ap_prom a) = (Ok () :: ('e, unit) outcome, (t, pm)) \<and>
     R t = {} \<and> m_handles pm = [] \<and> collector_count pm = collector_count (ap_prom a) \<and>
     drop_prom T (t, pm) = (Ok () :: ('e, unit) outcome, (t, pm))"
proof -
  have inv: "app_inv R a" by (rule app_reach_inv [OF T a])
  obtain res :: "('e, unit) outcome" and t pm where run: "shutdown T (ap_world a, ap_prom a) = (res, (t, pm))"
    by (metis surj_pair)
  have "res = Ok () \<and> R t = {} \<and> pm = (ap_prom a)\<lparr>m_handles := []\<rparr>"
    by (rule shutdown_tasks [OF T inv run])
  with run inv show ?thesis
    by (intro exI [of _ t] exI [of _ pm])
      (simp add: collector_count_def drop_prom_def shutdown_def app_inv_def)
qed

theorem shutdown_stops_all_witness:
  "\<exists>(a :: demo_tasks app) t pm. demo_running (ap_world a) = {0} \<and>
     shutdown demo_runtime (ap_world a, ap_prom a) = (Ok () :: (metrics_error, unit) outcome, (t, pm)) \<and>
     demo_running t = {} \<and> collector_count pm = 1"
proof -
  obtain a where a: "app_reach demo_runtime demo_running a" "ap_added a = 1" "demo_running (ap_world a) = {0}"
    using demo_app_added by blast
  have "collector_count (ap_prom a) = 1"
    using app_reach_inv [OF demo_runtime_tasks a(1)] a(2) by (simp add: app_inv_def collector_count_def)
  with shutdown_stops_all [where 'e = metrics_error, OF demo_runtime_tasks a(1)] a(3) show ?thesis by metis
qed

text \<open>
  C35: \<open>add_collector\<close> with an interval for which \<open>tokio::time::interval\<close> panics reports
  success and counts the collector, although the task it has spawned is dead from its first
  step on and will never collect.
\<close>

theorem dead_interval_reports_success:
  assumes "interval_panics T interval" and "co_register c (m_registry pm) s = (Ok (), t)" and "\<not> m_poisoned pm"
    and "lt = \<lparr>task_name = co_name c, task_interval = interval, task_collect = co_collect c\<rparr>"
  shows "\<exists>h u. tokio_spawn T lt t = (h, u) \<and> (\<forall>n w. run_task T lt n w = (Dead, [], w)) \<and>
     add_collector T c interval (s, pm) =
       (Ok (), (u, pm\<lparr>m_handles := m_handles pm @ [(co_name c, h)], m_count := m_count pm + 1\<rparr>))"
proof -
  obtain h u where "tokio_spawn T lt t = (h, u)" by (cases "tokio_spawn T lt t")
  moreover from this have "add_collector T c interval (s, pm) =
      (Ok (), (u, pm\<lparr>m_handles := m_handles pm @ [(co_name c, h)], m_count := m_count pm + 1\<rparr>))"
    using assms(2-4) by (simp add: add_collector_Ok_iff)
  moreover have "run_task T lt n w = (Dead, [], w)" for n w using assms(1,4) by (simp add: run_task_def)
  ultimately show ?thesis by blast
qed

theorem dead_interval_reports_success_witness:
  "\<exists>w pm. add_collector demo_runtime demo_collector (from_secs 0) (ap_world demo_app, ap_prom demo_app) = (Ok (), (w, pm)) \<and>
     collector_count pm = 1"
proof -
  have "interval_panics demo_runtime (from_secs 0)"
    "co_register demo_collector (m_registry (ap_prom demo_app)) (ap_world demo_app) = (Ok (), ap_world demo_app)"
    "\<not> m_poisoned (ap_prom demo_app)"
    by (simp_all add: demo_runtime_def from_secs_def demo_collector_def demo_app_def ret_def)
  from dead_interval_reports_success [OF this refl] show ?thesis
    by (auto simp: collector_count_def demo_app_def)
qed

end
