(* ===== verification/Handler.thy ===== *)
theory Handler
  imports PromState
begin

text \<open>
  \<open>dr-metrix-axum/src/handler.rs\<close>: the two Axum handlers.  A reply is what the handler hands
  to \<open>into_response\<close>: the status, the headers it sets and the body; gathering and encoding are
  the Prometheus crate's, parameters of the model.
\<close>

record reply =
  rp_status :: nat
  rp_headers :: "(string \<times> string) list"
  rp_body :: string

definition metrics_handler :: "'s prometheus \<Rightarrow> prom_state \<Rightarrow> 's \<Rightarrow> reply" where
  "metrics_handler P pm s =
     (let families = registry_gather P (m_registry pm) s in
      case text_encode P families of
        Inr buf \<Rightarrow>
          \<lparr>rp_status = 200,
           rp_headers = [(''content-type'', ''text/plain; version=0.0.4; charset=utf-8'')],
           rp_body = buf\<rparr>
      | Inl e \<Rightarrow> \<lparr>rp_status = 500, rp_headers = [], rp_body = ''''\<rparr>)"

definition health_handler :: "prom_state \<Rightarrow> reply" where
  \<open>health_handler pm =
     (let active = collector_count pm in
      \<lparr>rp_status = 200, rp_headers = [],
       rp_body = ''{"status":"ok","collectors":'' @ show_nat (unat active) @ ''}''\<rparr>)\<close>

subsection \<open>What a registry shows\<close>

text \<open>
  What is assumed of \<open>Registry::gather\<close>.  A registered gauge without labels is a family of its
  own, under the name of its descriptor, with one sample, its value.  The family of a registered
  vector has a sample for every series that was made: \<open>K s\<close> are the series that
  \<open>with_label_values\<close> has returned, and setting a gauge removes none.
\<close>

definition shows_gauges :: "'s prometheus \<Rightarrow> 's prom_view \<Rightarrow> bool" where
  "shows_gauges P V \<longleftrightarrow>
     (\<forall>r s hs h d n. regs V s r = Some hs \<longrightarrow> h \<in> set hs \<longrightarrow> meta V s h = Some d \<longrightarrow>
        d_kind d = IntGauge \<or> d_kind d = Gauge \<longrightarrow> d_labels d = [] \<longrightarrow> d_names d = [n] \<longrightarrow>
        (n, [([], val V s (plain h))]) \<in> set (registry_gather P r s))"

definition shows_series :: "'s prometheus \<Rightarrow> 's prom_view \<Rightarrow> ('s \<Rightarrow> series set) \<Rightarrow> bool" where
  "shows_series P V K \<longleftrightarrow>
     (\<forall>r s hs h d n ls. regs V s r = Some hs \<longrightarrow> h \<in> set hs \<longrightarrow> meta V s h = Some d \<longrightarrow>
        d_kind d = IntGaugeVec \<longrightarrow> d_names d = [n] \<longrightarrow> (h, ls) \<in> K s \<longrightarrow>
        (\<exists>samples. (n, samples) \<in> set (registry_gather P r s) \<and> (ls, val V s (h, ls)) \<in> set samples))"

definition makes_series :: "'s prometheus \<Rightarrow> ('s \<Rightarrow> series set) \<Rightarrow> bool" where
  "makes_series P K \<longleftrightarrow>
     (\<forall>h ls s sr t. with_label_values P h ls s = (Some sr, t) \<longrightarrow> insert sr (K s) \<subseteq> K t) \<and>
     (\<forall>sr v s. K s \<subseteq> K (int_gauge_set P sr v s))"

definition gather_ok :: "'s prometheus \<Rightarrow> 's prom_view \<Rightarrow> ('s \<Rightarrow> series set) \<Rightarrow> bool" where
  "gather_ok P V K \<longleftrightarrow> shows_gauges P V \<and> shows_series P V K \<and> makes_series P K"

lemma gathered:
  assumes "gather_ok P V K" "regs V s r = Some rs" "set hs \<subseteq> set rs" and own: "owned (meta V s) hs ds"
    and "i < length ds" "d_kind (ds ! i) = IntGauge \<or> d_kind (ds ! i) = Gauge" "d_labels (ds ! i) = []" "d_names (ds ! i) = [n]"
  shows "(n, [([], val V s (plain (hs ! i)))]) \<in> set (registry_gather P r s)"
proof -
  have "i < length hs" using assms(5) owned_length [OF own] by simp
  with owned_nth [OF own this] assms(3) have "meta V s (hs ! i) = Some (ds ! i)" "hs ! i \<in> set rs" by auto
  with assms(1,2,6-8) show ?thesis unfolding gather_ok_def shows_gauges_def by (elim conjE) metis
qed

lemma gathered_series:
  assumes "gather_ok P V K" "regs V s r = Some rs" "set hs \<subseteq> set rs" and own: "owned (meta V s) hs ds"
    and "i < length ds" "d_kind (ds ! i) = IntGaugeVec" "d_names (ds ! i) = [n]" "(hs ! i, ls) \<in> K s"
  shows "\<exists>samples. (n, samples) \<in> set (registry_gather P r s) \<and> (ls, val V s (hs ! i, ls)) \<in> set samples"
proof -
  have "i < length hs" using assms(5) owned_length [OF own] by simp
  with owned_nth [OF own this] assms(3) have "meta V s (hs ! i) = Some (ds ! i)" "hs ! i \<in> set rs" by auto
  with assms(1,2,6-8) show ?thesis unfolding gather_ok_def shows_series_def by (elim conjE) metis
qed

text \<open>A labelled gauge that was set is a series of its vector, and stays one.\<close>

lemma set_labelled_series:
  assumes G: "gather_ok P V K" and run: "set_labelled P h ls v s = (Ok (), t)" and P: "prom_ok P V"
    and c: "core_is (meta V s) h IntGaugeVec (length ls)"
  shows "insert (h, ls) (K s) \<subseteq> K t"
proof -
  obtain u where u: "with_label_values P h ls s = (Some (h, ls), u)"
    using c labelled_Ok [OF P, of s h _ ls] unfolding core_is_def by metis
  then have "t = int_gauge_set P (h, ls) v u"
    using run by (simp add: set_labelled_def bind_act_def labelled_def step_act_def)
  moreover have "makes_series P K" using G by (simp add: gather_ok_def)
  then have "insert (h, ls) (K s) \<subseteq> K u" "K u \<subseteq> K (int_gauge_set P (h, ls) v u)"
    using u unfolding makes_series_def by blast+
  ultimately show ?thesis by blast
qed

definition ref_series :: "ref_world \<Rightarrow> series set" where
  "ref_series w =
     {sr \<in> set (w_kids w). \<exists>d. map_of (w_meta w) (fst sr) = Some d \<and> length (snd sr) = length (d_labels d)}"

lemma ref_gather_ok: "gather_ok ref_prom ref_view ref_series"
  unfolding gather_ok_def
proof (intro conjI)
  show "shows_gauges ref_prom ref_view"
    unfolding shows_gauges_def
  proof (intro allI impI)
    fix r s hs h d n
    assume "regs ref_view s r = Some hs" "h \<in> set hs" "meta ref_view s h = Some d" "d_labels d = []" "d_names d = [n]"
    then have "(n, [([], w_val s (h, []))]) \<in> set (ref_gather r s)"
      by (auto simp: ref_gather_def intro!: bexI [of _ h])
    then show "(n, [([], val ref_view s (plain h))]) \<in> set (registry_gather ref_prom r s)"
      by (simp add: ref_prom_def plain_def)
  qed
  show "shows_series ref_prom ref_view ref_series"
    unfolding shows_series_def
  proof (intro allI impI)
    fix r s hs h d n ls
    assume a: "regs ref_view s r = Some hs" "h \<in> set hs" "meta ref_view s h = Some d" "d_names d = [n]" "(h, ls) \<in> ref_series s"
    let ?xs = "if d_labels d = [] then [([], w_val s (h, []))]
      else map (\<lambda>(_, ls). (ls, w_val s (h, ls))) (filter (\<lambda>sr. fst sr = h) (w_kids s))"
    have "(n, ?xs) \<in> set (ref_gather r s)" using a by (auto simp: ref_gather_def intro!: bexI [of _ h])
    moreover have "(ls, w_val s (h, ls)) \<in> set ?xs" using a(3,5) by (force simp: ref_series_def)
    ultimately show "\<exists>samples. (n, samples) \<in> set (registry_gather ref_prom r s) \<and> (ls, val ref_view s (h, ls)) \<in> set samples"
      by (auto simp: ref_prom_def)
  qed
  show "makes_series ref_prom ref_series"
    by (auto simp: makes_series_def ref_prom_def ref_labels_def ref_update_def ref_series_def split: option.splits if_splits)
qed

subsection \<open>Properties\<close>

text \<open>
  \<open>GET /metrics\<close> answers 200 with the encoding of exactly the metric families that the
  application's registry gathers, and 500 with an empty body when encoding fails.
\<close>

theorem metrics_handler_status:
  "rp_status (metrics_handler P pm s) \<in> {200, 500} \<and>
   (rp_status (metrics_handler P pm s) = 200 \<longleftrightarrow>
      (\<exists>buf. text_encode P (registry_gather P (m_registry pm) s) = Inr buf \<and>
         rp_body (metrics_handler P pm s) = buf)) \<and>
   (rp_status (metrics_handler P pm s) = 500 \<longleftrightarrow>
      (\<exists>e. text_encode P (registry_gather P (m_registry pm) s) = Inl e))"
  by (cases "text_encode P (registry_gather P (m_registry pm) s)") (simp_all add: metrics_handler_def)

text \<open>
  C36: \<open>GET /health\<close> reports the collectors that were ever added: after \<open>shutdown\<close> all collector
  tasks have been told to stop, and the reply is the same as before.
\<close>

theorem health_stale_after_shutdown:
  assumes T: "tokio_tasks T R" and a: "app_reach T R a" and n: "ap_added a < 2 ^ 64"
  shows "\<exists>t pm. shutdown T (ap_world a, ap_prom a) = (Ok () :: ('e, unit) outcome, (t, pm)) \<and> R t = {} \<and>
     health_handler pm = health_handler (ap_prom a) \<and>
     rp_body (health_handler pm) =
       (let q = [CHR 0x22] in
        ''{'' @ q @ ''status'' @ q @ '':'' @ q @ ''ok'' @ q @ '','' @ q @ ''collectors'' @ q @ '':'' @
        show_nat (ap_added a) @ ''}'')"
proof -
  have inv: "app_inv R a" by (rule app_reach_inv [OF T a])
  obtain res :: "('e, unit) outcome" and t pm where run: "shutdown T (ap_world a, ap_prom a) = (res, (t, pm))"
    by (metis surj_pair)
  have s: "res = Ok () \<and> R t = {} \<and> pm = (ap_prom a)\<lparr>m_handles := []\<rparr>"
    by (rule shutdown_tasks [OF T inv run])
  have "unat (of_nat (ap_added a) :: usize) = ap_added a"
    using n by (simp add: unsigned_of_nat take_bit_nat_eq_self)
  with run s inv show ?thesis
    by (intro exI [of _ t] exI [of _ pm]) (simp add: health_handler_def collector_count_def app_inv_def)
qed

theorem health_stale_after_shutdown_witness:
  \<open>\<exists>t pm. demo_running t = {} \<and> rp_body (health_handler pm) = ''{"status":"ok","collectors":1}''\<close>
proof -
  obtain a where a: "app_reach demo_runtime demo_running a" "ap_added a = 1"
    using demo_app_added by blast
  from health_stale_after_shutdown [where 'e = metrics_error, OF demo_runtime_tasks a(1)] a(2)
  obtain t pm where "demo_running t = {}" "rp_body (health_handler pm) =
      ''{'' @ [CHR 0x22] @ ''status'' @ [CHR 0x22] @ '':'' @ [CHR 0x22] @ ''ok'' @ [CHR 0x22] @ '','' @ [CHR 0x22] @
      ''collectors'' @ [CHR 0x22] @ '':'' @ show_nat 1 @ ''}''"
    by (auto simp: Let_def)
  then show ?thesis by (intro exI [of _ t] exI [of _ pm]) (simp add: show_nat.simps digit_char_eval)
qed

end
