(* ===== verification/RedisInfo.thy ===== *)
theory RedisInfo
  imports F64
begin

text \<open>
  \<open>dr-metrix-redis/src/info_parser.rs\<close>: the struct \<open>RedisInfo\<close> and \<open>parse_info\<close>,
  which reads the text of Redis' \<open>INFO ALL\<close> line by line.  \<open>parse_line\<close> is the body of
  the loop, with its \<open>continue\<close>s as branches, and \<open>parse_info\<close> folds it over the lines.

  The lemmas relate the loop to a declarative reading of the text (\<open>spec_info\<close>): a number
  is the last value given for its key, malformed numbers count as zero, and the keyspace
  lists the database lines in order; and they show that the parser recovers every field
  from the text a server prints (\<open>render_info\<close>).
\<close>

subsection \<open>The parser\<close>

record redis_info =
  i_connected_clients :: i64
  i_blocked_clients :: i64
  i_used_memory :: i64
  i_used_memory_rss :: i64
  i_mem_fragmentation_ratio :: f64
  i_total_commands_processed :: i64
  i_keyspace_hits :: i64
  i_keyspace_misses :: i64
  i_evicted_keys :: i64
  i_replication_offset :: i64
  i_connected_slaves :: i64
  i_keyspace :: "(u32 \<times> i64 \<times> i64) list"

definition default_info :: redis_info where
  "default_info =
     \<lparr>i_connected_clients = 0, i_blocked_clients = 0, i_used_memory = 0, i_used_memory_rss = 0,
      i_mem_fragmentation_ratio = F64_Fin False 0 (-1074), i_total_commands_processed = 0,
      i_keyspace_hits = 0, i_keyspace_misses = 0, i_evicted_keys = 0, i_replication_offset = 0,
      i_connected_slaves = 0, i_keyspace = []\<rparr>"

text \<open>\<open>value.parse().unwrap_or(0)\<close>, and the same for the floating-point field.\<close>

definition i64_or_0 :: "string \<Rightarrow> i64" where
  "i64_or_0 v = (case parse_i64 v of Some n \<Rightarrow> n | None \<Rightarrow> 0)"

definition f64_or_0 :: "string \<Rightarrow> f64" where
  "f64_or_0 v = (case parse_f64 v of Some x \<Rightarrow> x | None \<Rightarrow> F64_Fin False 0 (-1074))"

fun db_fields :: "string list \<Rightarrow> i64 \<Rightarrow> i64 \<Rightarrow> i64 \<times> i64" where
  "db_fields [] keys expires = (keys, expires)"
| "db_fields (field # flds) keys expires =
     (case strip_prefix ''keys='' field of
        Some v \<Rightarrow> db_fields flds (i64_or_0 v) expires
      | None \<Rightarrow>
          (case strip_prefix ''expires='' field of
             Some v \<Rightarrow> db_fields flds keys (i64_or_0 v)
           | None \<Rightarrow> db_fields flds keys expires))"

text \<open>
  A keyspace line such as \<open>db0:keys=15420,expires=5,avg_ttl=0\<close>; \<open>None\<close> when the line
  falls through to the \<open>key:value\<close> case.
\<close>

definition parse_db_line :: "string \<Rightarrow> (u32 \<times> i64 \<times> i64) option" where
  "parse_db_line line =
     (case strip_prefix ''db'' line of
        None \<Rightarrow> None
      | Some rest \<Rightarrow>
          (case split_once (CHR '':'') rest of
             None \<Rightarrow> None
           | Some (db_idx_str, flds) \<Rightarrow>
               (case parse_u32 db_idx_str of
                  None \<Rightarrow> None
                | Some db_idx \<Rightarrow>
                    (case db_fields (split_on (CHR '','') flds) 0 0 of
                       (keys, expires) \<Rightarrow> Some (db_idx, keys, expires)))))"

definition set_field :: "string \<Rightarrow> string \<Rightarrow> redis_info \<Rightarrow> redis_info" where
  "set_field key v info =
     (if key = ''connected_clients'' then info\<lparr>i_connected_clients := i64_or_0 v\<rparr>
      else if key = ''blocked_clients'' then info\<lparr>i_blocked_clients := i64_or_0 v\<rparr>
      else if key = ''used_memory'' then info\<lparr>i_used_memory := i64_or_0 v\<rparr>
      else if key = ''used_memory_rss'' then info\<lparr>i_used_memory_rss := i64_or_0 v\<rparr>
      else if key = ''mem_fragmentation_ratio'' then
        info\<lparr>i_mem_fragmentation_ratio := f64_or_0 v\<rparr>
      else if key = ''total_commands_processed'' then
        info\<lparr>i_total_commands_processed := i64_or_0 v\<rparr>
      else if key = ''keyspace_hits'' then info\<lparr>i_keyspace_hits := i64_or_0 v\<rparr>
      else if key = ''keyspace_misses'' then info\<lparr>i_keyspace_misses := i64_or_0 v\<rparr>
      else if key = ''evicted_keys'' then info\<lparr>i_evicted_keys := i64_or_0 v\<rparr>
      else if key = ''master_repl_offset'' then info\<lparr>i_replication_offset := i64_or_0 v\<rparr>
      else if key = ''connected_slaves'' then info\<lparr>i_connected_slaves := i64_or_0 v\<rparr>
      else info)"

definition parse_line :: "string \<Rightarrow> redis_info \<Rightarrow> redis_info" where
  "parse_line raw_line info =
     (let line = trim raw_line
      in if line = [] \<or> hd line = CHR ''#'' then info
         else case parse_db_line line of
             Some entry \<Rightarrow> info\<lparr>i_keyspace := i_keyspace info @ [entry]\<rparr>
           | None \<Rightarrow>
               (case split_once (CHR '':'') line of
                  None \<Rightarrow> info
                | Some (key, v) \<Rightarrow> set_field key (trim v) info))"

definition parse_info :: "string \<Rightarrow> redis_info" where
  "parse_info raw = fold parse_line (lines raw) default_info"

subsection \<open>A declarative reading\<close>

definition line_db :: "string \<Rightarrow> (u32 \<times> i64 \<times> i64) option" where
  "line_db raw_line =
     (let line = trim raw_line
      in if line = [] \<or> hd line = CHR ''#'' then None else parse_db_line line)"

definition line_kv :: "string \<Rightarrow> (string \<times> string) option" where
  "line_kv raw_line =
     (let line = trim raw_line
      in if line = [] \<or> hd line = CHR ''#'' \<or> parse_db_line line \<noteq> None then None
         else map_option (\<lambda>(k, v). (k, trim v)) (split_once (CHR '':'') line))"

text \<open>The last value that the text gives for a key.\<close>

definition last_value :: "string \<Rightarrow> string list \<Rightarrow> string option" where
  "last_value key ls = map_of (rev (List.map_filter line_kv ls)) key"

definition last_int :: "string \<Rightarrow> string list \<Rightarrow> i64" where
  "last_int key ls = (case last_value key ls of None \<Rightarrow> 0 | Some v \<Rightarrow> i64_or_0 v)"

definition spec_info :: "string list \<Rightarrow> redis_info" where
  "spec_info ls =
     \<lparr>i_connected_clients = last_int ''connected_clients'' ls,
      i_blocked_clients = last_int ''blocked_clients'' ls,
      i_used_memory = last_int ''used_memory'' ls,
      i_used_memory_rss = last_int ''used_memory_rss'' ls,
      i_mem_fragmentation_ratio =
        (case last_value ''mem_fragmentation_ratio'' ls of
           None \<Rightarrow> F64_Fin False 0 (-1074) | Some v \<Rightarrow> f64_or_0 v),
      i_total_commands_processed = last_int ''total_commands_processed'' ls,
      i_keyspace_hits = last_int ''keyspace_hits'' ls,
      i_keyspace_misses = last_int ''keyspace_misses'' ls,
      i_evicted_keys = last_int ''evicted_keys'' ls,
      i_replication_offset = last_int ''master_repl_offset'' ls,
      i_connected_slaves = last_int ''connected_slaves'' ls,
      i_keyspace = List.map_filter line_db ls\<rparr>"

lemma map_filter_snoc:
  "List.map_filter f (xs @ [x]) =
     List.map_filter f xs @ (case f x of None \<Rightarrow> [] | Some y \<Rightarrow> [y])"
  by (simp add: List.map_filter_def split: option.splits)

lemma last_value_snoc:
  "last_value key (ls @ [l]) =
     (case line_kv l of
        None \<Rightarrow> last_value key ls
      | Some (k, v) \<Rightarrow> if k = key then Some v else last_value key ls)"
  by (auto simp: last_value_def map_filter_snoc split: option.splits)

lemma parse_line_entries:
  "parse_line l info =
     (case line_db l of
        Some e \<Rightarrow> info\<lparr>i_keyspace := i_keyspace info @ [e]\<rparr>
      | None \<Rightarrow> (case line_kv l of None \<Rightarrow> info | Some (k, v) \<Rightarrow> set_field k v info))"
proof (cases "parse_db_line (trim l)")
  case None
  then show ?thesis
    by (auto simp: parse_line_def line_db_def line_kv_def Let_def split: option.splits)
next
  case (Some e)
  then show ?thesis
    by (cases e) (auto simp: parse_line_def line_db_def line_kv_def Let_def split: option.splits)
qed

lemma line_db_kv_exclusive: "line_db l = Some e \<Longrightarrow> line_kv l = None"
  by (cases e) (auto simp: line_db_def line_kv_def Let_def split: if_splits)

definition info_keys :: "string list" where
  "info_keys =
     [''connected_clients'', ''blocked_clients'', ''used_memory'', ''used_memory_rss'',
      ''mem_fragmentation_ratio'', ''total_commands_processed'', ''keyspace_hits'',
      ''keyspace_misses'', ''evicted_keys'', ''master_repl_offset'', ''connected_slaves'']"

lemma set_field_other:
  assumes "k \<notin> set info_keys"
  shows "set_field k v info = info"
  using assms by (simp only: set_field_def info_keys_def list.set insert_iff de_Morgan_disj simp_thms if_False)

lemma spec_info_snoc_other:
  assumes "k \<notin> set info_keys" "line_kv l = Some (k, v)" "line_db l = None"
  shows "spec_info (ls @ [l]) = spec_info ls"
proof -
  have "last_value key (ls @ [l]) = last_value key ls" if "key \<in> set info_keys" for key
    using that assms by (auto simp: last_value_snoc)
  then show ?thesis
    using assms(3)
    by (simp add: spec_info_def last_int_def map_filter_snoc info_keys_def del: last_value_snoc)
qed

lemma set_field_spec:
  assumes kv: "line_kv l = Some (k, v)" and "line_db l = None"
  shows "set_field k v (spec_info ls) = spec_info (ls @ [l])"
proof (cases "k \<in> set info_keys")
  case False
  then show ?thesis using assms by (simp add: set_field_other spec_info_snoc_other)
next
  case True
  have int: "last_int key (ls @ [l]) = (if k = key then i64_or_0 v else last_int key ls)" for key
    using kv by (simp add: last_int_def last_value_snoc)
  have lv: "last_value key (ls @ [l]) = (if k = key then Some v else last_value key ls)" for key
    using kv by (simp add: last_value_snoc)
  have db: "List.map_filter line_db (ls @ [l]) = List.map_filter line_db ls"
    using assms(2) by (simp add: map_filter_snoc)
  from True show ?thesis
    unfolding info_keys_def list.set insert_iff empty_iff
    by (elim disjE FalseE; hypsubst; simp add: set_field_def; simp add: spec_info_def int lv db)
qed

lemma fold_parse_line: "fold parse_line ls default_info = spec_info ls"
proof (induction ls rule: rev_induct)
  case Nil
  show ?case
    by (simp add: spec_info_def default_info_def last_int_def last_value_def List.map_filter_def)
next
  case (snoc l ls)
  have "fold parse_line (ls @ [l]) default_info = parse_line l (spec_info ls)"
    using snoc by simp
  also have "\<dots> = spec_info (ls @ [l])"
  proof (cases "line_db l")
    case (Some e)
    then show ?thesis
      by (simp add: parse_line_entries line_db_kv_exclusive spec_info_def last_int_def
          last_value_snoc map_filter_snoc)
  next
    case None
    show ?thesis
    proof (cases "line_kv l")
      case None
      with \<open>line_db l = None\<close> show ?thesis
        by (simp add: parse_line_entries spec_info_def last_int_def last_value_snoc map_filter_snoc)
    next
      case (Some kv)
      with \<open>line_db l = None\<close> show ?thesis
        by (cases kv) (simp add: parse_line_entries set_field_spec)
    qed
  qed
  finally show ?case .
qed

subsection \<open>The text a server prints\<close>

text \<open>
  Lines end with a carriage return and a line feed, sections start with a comment and are
  separated by an empty line.  The ratio is given as the server's own token.
\<close>

definition db_line :: "u32 \<times> i64 \<times> i64 \<Rightarrow> string" where
  "db_line e =
     (case e of (db, keys, expires) \<Rightarrow>
        ''db'' @ show_u32 db @ '':keys='' @ show_i64 keys @ '',expires='' @ show_i64 expires
          @ '',avg_ttl=0'')"

definition kv_line :: "string \<Rightarrow> string \<Rightarrow> string" where
  "kv_line key v = key @ '':'' @ v"

definition info_lines :: "string \<Rightarrow> redis_info \<Rightarrow> string list" where
  "info_lines ratio i =
     [''# Clients'',
      kv_line ''connected_clients'' (show_i64 (i_connected_clients i)),
      kv_line ''blocked_clients'' (show_i64 (i_blocked_clients i)),
      '''', ''# Memory'',
      kv_line ''used_memory'' (show_i64 (i_used_memory i)),
      kv_line ''used_memory_rss'' (show_i64 (i_used_memory_rss i)),
      kv_line ''mem_fragmentation_ratio'' ratio,
      '''', ''# Stats'',
      kv_line ''total_commands_processed'' (show_i64 (i_total_commands_processed i)),
      kv_line ''evicted_keys'' (show_i64 (i_evicted_keys i)),
      kv_line ''keyspace_hits'' (show_i64 (i_keyspace_hits i)),
      kv_line ''keyspace_misses'' (show_i64 (i_keyspace_misses i)),
      '''', ''# Replication'', kv_line ''role'' ''master'',
      kv_line ''connected_slaves'' (show_i64 (i_connected_slaves i)),
      kv_line ''master_repl_offset'' (show_i64 (i_replication_offset i)),
      '''', ''# Keyspace''] @ map db_line (i_keyspace i)"

definition render_info :: "string \<Rightarrow> redis_info \<Rightarrow> string" where
  "render_info ratio i = concat (map (\<lambda>l. l @ [carriage_return, newline]) (info_lines ratio i))"

lemma lines_concat_crlf:
  "\<forall>l\<in>set ls. newline \<notin> set l \<Longrightarrow> lines (concat (map (\<lambda>l. l @ [carriage_return, newline]) ls)) = ls"
proof (induction ls)
  case (Cons l ls)
  have "newline \<notin> set (l @ [carriage_return])"
    using Cons.prems by (simp add: newline_def carriage_return_def)
  from lines_Cons [OF this, of "concat (map (\<lambda>l. l @ [carriage_return, newline]) ls)"]
  show ?case using Cons by simp
qed simp

lemma show_printable:
  "\<forall>c\<in>set (show_i64 n). printable c" "\<forall>c\<in>set (show_u32 d). printable c"
  using show_nat_digits is_digit_printable
  by (auto simp: show_i64_def show_u32_def printable_def)

lemma show_i64_not_Nil [simp]: "show_i64 n \<noteq> []"
  by (simp add: show_i64_def)

lemma i64_or_0_show [simp]: "i64_or_0 (show_i64 n) = n"
  by (simp add: i64_or_0_def)

lemma printable_not_newline: "printable c \<Longrightarrow> c \<noteq> newline"
  by (auto simp: printable_def newline_def)

lemma trim_printable: "\<forall>c\<in>set s. printable c \<Longrightarrow> trim s = s"
  by (rule trim_id) (metis hd_in_set last_in_set)

lemma parse_kv_line:
  assumes key: "key \<noteq> []" "\<forall>c\<in>set key. printable c" "CHR '':'' \<notin> set key"
      "hd key \<noteq> CHR ''d''" "hd key \<noteq> CHR ''#''"
    and v: "\<forall>c\<in>set v. printable c"
  shows "parse_line (kv_line key v) info = set_field key v info"
proof -
  have "\<forall>c\<in>set (kv_line key v). printable c"
    using key(2) v by (auto simp: kv_line_def printable_def)
  then have "trim (kv_line key v) = kv_line key v" by (rule trim_printable)
  moreover have "parse_db_line (kv_line key v) = None"
    using key(1,4) by (cases key) (auto simp: parse_db_line_def kv_line_def)
  moreover have "split_once (CHR '':'') (kv_line key v) = Some (key, v)"
    using split_once_append [OF key(3), of v] by (simp add: kv_line_def)
  moreover have "kv_line key v \<noteq> []" "hd (kv_line key v) \<noteq> CHR ''#''"
    using key(1,5) by (auto simp: kv_line_def)
  ultimately show ?thesis
    using trim_printable [OF v] by (simp add: parse_line_def)
qed

lemma parse_db_line_render: "parse_db_line (db_line e) = Some e"
proof -
  obtain d k x where e: "e = (d, k, x)" by (cases e)
  have digits: "c \<notin> set (show_u32 d)" if "\<not> is_digit c" for c
    using show_nat_digits that by (auto simp: show_u32_def)
  have nocomma: "CHR '','' \<notin> set (show_i64 n)" for n
    by (auto simp: show_i64_def dest!: bspec [OF show_nat_digits])
  let ?f = "''keys='' @ show_i64 k @ '',expires='' @ show_i64 x @ '',avg_ttl=0''"
  have "split_on (CHR '','') ?f = [''keys='' @ show_i64 k, ''expires='' @ show_i64 x, ''avg_ttl=0'']"
    using split_on_append_sep [of "CHR '',''" "''keys='' @ show_i64 k"
        "''expires='' @ show_i64 x @ '',avg_ttl=0''"]
      split_on_append_sep [of "CHR '',''" "''expires='' @ show_i64 x" "''avg_ttl=0''"] nocomma
    by simp
  moreover have "split_once (CHR '':'') (show_u32 d @ '':'' @ ?f) = Some (show_u32 d, ?f)"
    using split_once_append [of "CHR '':''" "show_u32 d" ?f] digits by simp
  ultimately show ?thesis by (simp add: parse_db_line_def db_line_def e)
qed

lemma parse_line_db: "parse_line (db_line e) info = info\<lparr>i_keyspace := i_keyspace info @ [e]\<rparr>"
proof -
  have "\<forall>c\<in>set (db_line e). printable c"
    using show_printable by (auto simp: db_line_def printable_def split: prod.splits)
  moreover have "db_line e \<noteq> []" "hd (db_line e) \<noteq> CHR ''#''"
    by (auto simp: db_line_def split: prod.splits)
  ultimately show ?thesis
    by (simp add: parse_line_def trim_printable parse_db_line_render)
qed

lemma fold_parse_db_lines:
  "fold parse_line (map db_line es) info = info\<lparr>i_keyspace := i_keyspace info @ es\<rparr>"
  by (induction es arbitrary: info) (simp_all add: parse_line_db)

lemma parse_line_skip:
  "parse_line '''' info = info"
  "\<forall>c\<in>set w. printable c \<Longrightarrow> w \<noteq> '''' \<Longrightarrow> parse_line (''# '' @ w) info = info"
proof -
  show "parse_line '''' info = info" by (simp add: parse_line_def trim_id)
  assume w: "\<forall>c\<in>set w. printable c" "w \<noteq> ''''"
  then have "trim (''# '' @ w) = ''# '' @ w"
    by (intro trim_id) (auto simp: printable_def)
  then show "parse_line (''# '' @ w) info = info" by (simp add: parse_line_def)
qed

lemma parse_int_line:
  assumes "key \<noteq> []" "\<forall>c\<in>set key. printable c" "CHR '':'' \<notin> set key"
      "hd key \<noteq> CHR ''d''" "hd key \<noteq> CHR ''#''"
  shows "parse_line (kv_line key (show_i64 n)) info = set_field key (show_i64 n) info"
  using assms show_printable(1) by (rule parse_kv_line)

lemma info_lines_no_newline:
  assumes "\<forall>c\<in>set ratio. printable c"
  shows "\<forall>l\<in>set (info_lines ratio i). newline \<notin> set l"
proof -
  have num: "newline \<notin> set (show_i64 n)" "newline \<notin> set (show_u32 d)" for n d
    using show_printable printable_not_newline by blast+
  have db: "newline \<notin> set (db_line e)" for e
    using num by (cases e) (auto simp: db_line_def newline_def)
  have r: "newline \<notin> set ratio" using assms printable_not_newline by blast
  show ?thesis
    using num db r by (auto simp: info_lines_def kv_line_def newline_def)
qed

lemma fold_parse_info_lines:
  assumes "\<forall>c\<in>set ratio. printable c" and "parse_f64 ratio = Some (i_mem_fragmentation_ratio i)"
  shows "fold parse_line (info_lines ratio i) default_info = i"
proof -
  have skip: "parse_line '''' info = info" "parse_line ''# Clients'' info = info"
    "parse_line ''# Memory'' info = info" "parse_line ''# Stats'' info = info"
    "parse_line ''# Replication'' info = info" "parse_line ''# Keyspace'' info = info" for info
    using parse_line_skip(1) parse_line_skip(2) [of "''Clients''"] parse_line_skip(2) [of "''Memory''"]
      parse_line_skip(2) [of "''Stats''"] parse_line_skip(2) [of "''Replication''"]
      parse_line_skip(2) [of "''Keyspace''"]
    by (simp_all add: printable_def)
  have role: "parse_line (kv_line ''role'' ''master'') info = info" for info
    by (subst parse_kv_line) (simp_all add: printable_def set_field_def)
  have ratio: "parse_line (kv_line ''mem_fragmentation_ratio'' ratio) info =
      info\<lparr>i_mem_fragmentation_ratio := i_mem_fragmentation_ratio i\<rparr>" for info
    using assms by (subst parse_kv_line) (simp_all add: printable_def set_field_def f64_or_0_def)
  have int: "parse_line (kv_line key (show_i64 n)) info = set_field key (show_i64 n) info"
    if "key \<in> set info_keys" for key n info
  proof (rule parse_int_line)
    have "\<forall>key\<in>set info_keys. key \<noteq> [] \<and> (\<forall>c\<in>set key. printable c) \<and> CHR '':'' \<notin> set key \<and>
        hd key \<noteq> CHR ''d'' \<and> hd key \<noteq> CHR ''#''"
      by (simp add: info_keys_def printable_def)
    with that show "key \<noteq> []" "\<forall>c\<in>set key. printable c" "CHR '':'' \<notin> set key"
      "hd key \<noteq> CHR ''d''" "hd key \<noteq> CHR ''#''" by blast+
  qed
  have keys: "set_field ''connected_clients'' v info = info\<lparr>i_connected_clients := i64_or_0 v\<rparr>"
    "set_field ''blocked_clients'' v info = info\<lparr>i_blocked_clients := i64_or_0 v\<rparr>"
    "set_field ''used_memory'' v info = info\<lparr>i_used_memory := i64_or_0 v\<rparr>"
    "set_field ''used_memory_rss'' v info = info\<lparr>i_used_memory_rss := i64_or_0 v\<rparr>"
    "set_field ''total_commands_processed'' v info = info\<lparr>i_total_commands_processed := i64_or_0 v\<rparr>"
    "set_field ''evicted_keys'' v info = info\<lparr>i_evicted_keys := i64_or_0 v\<rparr>"
    "set_field ''keyspace_hits'' v info = info\<lparr>i_keyspace_hits := i64_or_0 v\<rparr>"
    "set_field ''keyspace_misses'' v info = info\<lparr>i_keyspace_misses := i64_or_0 v\<rparr>"
    "set_field ''connected_slaves'' v info = info\<lparr>i_connected_slaves := i64_or_0 v\<rparr>"
    "set_field ''master_repl_offset'' v info = info\<lparr>i_replication_offset := i64_or_0 v\<rparr>" for v info
    by (simp_all add: set_field_def)
  show ?thesis
    by (simp add: info_lines_def fold_parse_db_lines skip role ratio int keys info_keys_def default_info_def)
qed

subsection \<open>Properties\<close>

text \<open>
  C17: \<open>parse_info\<close> computes the declarative reading of the text: every scalar field is the
  number last given for its key (0 when the key is missing or its value is malformed), every
  keyspace entry is a database line, in order, and comments, empty lines, unknown keys and
  lines without a colon have no effect.
\<close>

theorem parse_info_spec: "parse_info raw = spec_info (lines raw)"
  by (simp add: parse_info_def fold_parse_line)

text \<open>
  C9: the text a server prints for a set of statistics, with CRLF line ends, comments, empty
  lines and a key the parser does not know, is parsed back to exactly these statistics: the
  signed 64-bit counters, the ratio and every database of the keyspace.
\<close>

theorem parse_info_roundtrip:
  assumes "\<forall>c\<in>set ratio. printable c"
    and "parse_f64 ratio = Some (i_mem_fragmentation_ratio i)"
  shows "parse_info (render_info ratio i) = i"
  using fold_parse_info_lines [OF assms] info_lines_no_newline [OF assms(1)]
  by (simp add: parse_info_def render_info_def lines_concat_crlf)

definition sample_info :: redis_info where
  "sample_info =
     \<lparr>i_connected_clients = 12, i_blocked_clients = 0, i_used_memory = 5242880,
      i_used_memory_rss = -1, i_mem_fragmentation_ratio = F64_Fin False 6755399441055744 (-52),
      i_total_commands_processed = 99, i_keyspace_hits = 7, i_keyspace_misses = 3,
      i_evicted_keys = 0, i_replication_offset = 42, i_connected_slaves = 1,
      i_keyspace = [(0, 15420, 5), (3, 7, 0)]\<rparr>"

lemma sample_ratio: "parse_f64 ''1.5'' = Some (F64_Fin False 6755399441055744 (-52))"
  by (simp add: parse_f64_def parse_f64_number_def span_digits_def is_digit_def digit_val_def
      lower_char_def parse_exponent_def f64_round_def frac_log2_def scale_pow_def
      round_half_even_def Let_def)

theorem parse_info_roundtrip_witness:
  "parse_info (render_info ''1.5'' sample_info) = sample_info"
proof (rule parse_info_roundtrip)
  show "\<forall>c\<in>set ''1.5''. printable c" by (simp add: printable_def)
  show "parse_f64 ''1.5'' = Some (i_mem_fragmentation_ratio sample_info)"
    by (simp add: sample_info_def sample_ratio)
qed

lemma sample_info_parses: "parse_info (render_info ''1.5'' sample_info) = sample_info"
  using fold_parse_info_lines [of "''1.5''" sample_info] info_lines_no_newline [of "''1.5''" sample_info]
  by (simp add: parse_info_def render_info_def lines_concat_crlf printable_def sample_ratio sample_info_def)

end
