(* ===== verification/Redis.thy ===== *)
theory Redis
  imports Core RedisInfo RefProm
begin

text \<open>
  \<open>dr-metrix-redis/src/metrics.rs\<close>: the struct \<open>RedisMetrics\<close>, its constructor and
  \<open>observe_command\<close>, and its implementation of the trait \<open>MetricsCollector\<close>.  The
  connection pool of the \<open>fred\<close> crate is a parameter: \<open>pool_size\<close> and
  \<open>pool_info\<close> (\<open>INFO ALL\<close>, or the text of the driver's error).

  The lemmas: construction allocates fifteen fresh metrics with the expected descriptors;
  \<open>redis_publish_writes\<close> computes the assignments of one successful poll;
  \<open>interpretation redis\<close> discharges the trait's contract.
\<close>

subsection \<open>The struct and its constructor\<close>

record redis_metrics =
  r_pool :: handle
  r_pool_connections :: handle
  r_connected_clients :: handle
  r_blocked_clients :: handle
  r_used_memory_bytes :: handle
  r_used_memory_rss :: handle
  r_mem_fragmentation_ratio :: handle
  r_keyspace_hits :: handle
  r_keyspace_misses :: handle
  r_evicted_keys :: handle
  r_total_commands_processed :: handle
  r_db_keys :: handle
  r_db_expires :: handle
  r_replication_offset :: handle
  r_connected_slaves :: handle
  r_command_duration_seconds :: handle

text \<open>The macros \<open>gauge!\<close>, \<open>fgauge!\<close>, \<open>gauge_vec!\<close> and \<open>histogram_vec!\<close>.\<close>

definition redis_gauge :: "string \<Rightarrow> string \<Rightarrow> string \<Rightarrow> metric_spec" where
  "redis_gauge ns name help = (IntGauge, scoped_opts ns ''redis'' name help, [], [])"

definition redis_fgauge :: "string \<Rightarrow> string \<Rightarrow> string \<Rightarrow> metric_spec" where
  "redis_fgauge ns name help = (Gauge, scoped_opts ns ''redis'' name help, [], [])"

definition redis_gauge_vec :: "string \<Rightarrow> string \<Rightarrow> string \<Rightarrow> string list \<Rightarrow> metric_spec" where
  "redis_gauge_vec ns name help labels =
     (IntGaugeVec, scoped_opts ns ''redis'' name help, labels, [])"

definition redis_histogram_vec ::
  "string \<Rightarrow> string \<Rightarrow> string \<Rightarrow> string list \<Rightarrow> f64 list \<Rightarrow> metric_spec" where
  "redis_histogram_vec ns name help labels buckets =
     (HistogramVec, scoped_opts ns ''redis'' name help, labels, buckets)"

text \<open>
  \<open>RedisMetrics::new\<close>: the metrics are constructed in the order of the struct expression,
  and the first refusal is returned.
\<close>

definition redis_new ::
  "'s prometheus \<Rightarrow> handle \<Rightarrow> collector_config \<Rightarrow> ('s, metrics_error, redis_metrics) action" where
  "redis_new P pool config =
     (let ns = namespace config in
     bind_act (new_metric P (redis_gauge ns ''pool_connections'' ''Number of connected pool clients'')) (\<lambda>pool_connections.
     bind_act (new_metric P (redis_gauge ns ''connected_clients'' ''Number of connected Redis clients'')) (\<lambda>connected_clients.
     bind_act (new_metric P (redis_gauge ns ''blocked_clients'' ''Number of blocked Redis clients'')) (\<lambda>blocked_clients.
     bind_act (new_metric P (redis_gauge ns ''used_memory_bytes'' ''Redis used memory in bytes'')) (\<lambda>used_memory_bytes.
     bind_act (new_metric P (redis_gauge ns ''used_memory_rss_bytes'' ''Redis RSS memory in bytes'')) (\<lambda>used_memory_rss.
     bind_act (new_metric P (redis_fgauge ns ''mem_fragmentation_ratio'' ''Redis memory fragmentation ratio'')) (\<lambda>mem_fragmentation_ratio.
     bind_act (new_metric P (redis_gauge ns ''keyspace_hits_total'' ''Redis keyspace hits (snapshot)'')) (\<lambda>keyspace_hits.
     bind_act (new_metric P (redis_gauge ns ''keyspace_misses_total'' ''Redis keyspace misses (snapshot)'')) (\<lambda>keyspace_misses.
     bind_act (new_metric P (redis_gauge ns ''evicted_keys_total'' ''Redis evicted keys (snapshot)'')) (\<lambda>evicted_keys.
     bind_act (new_metric P (redis_gauge ns ''commands_processed_total'' ''Total Redis commands processed (snapshot)'')) (\<lambda>total_commands_processed.
     bind_act (new_metric P (redis_gauge_vec ns ''db_keys'' ''Number of keys per database'' [''db''])) (\<lambda>db_keys.
     bind_act (new_metric P (redis_gauge_vec ns ''db_expires'' ''Number of expiring keys per database'' [''db''])) (\<lambda>db_expires.
     bind_act (new_metric P (redis_gauge ns ''replication_offset'' ''Redis master replication offset'')) (\<lambda>replication_offset.
     bind_act (new_metric P (redis_gauge ns ''connected_slaves'' ''Number of connected Redis replicas'')) (\<lambda>connected_slaves.
     bind_act (new_metric P (redis_histogram_vec ns ''command_duration_seconds'' ''Application-level Redis command duration'' [''cmd''] DEFAULT_QUERY_BUCKETS)) (\<lambda>command_duration_seconds.
     ret \<lparr>r_pool = pool,
        r_pool_connections = pool_connections,
        r_connected_clients = connected_clients,
        r_blocked_clients = blocked_clients,
        r_used_memory_bytes = used_memory_bytes,
        r_used_memory_rss = used_memory_rss,
        r_mem_fragmentation_ratio = mem_fragmentation_ratio,
        r_keyspace_hits = keyspace_hits,
        r_keyspace_misses = keyspace_misses,
        r_evicted_keys = evicted_keys,
        r_total_commands_processed = total_commands_processed,
        r_db_keys = db_keys,
        r_db_expires = db_expires,
        r_replication_offset = replication_offset,
        r_connected_slaves = connected_slaves,
        r_command_duration_seconds = command_duration_seconds\<rparr>))))))))))))))))"

text \<open>The trait methods \<open>name\<close> and \<open>register\<close>.\<close>

definition redis_name :: string where
  "redis_name = ''redis''"

definition redis_register ::
  "'s prometheus \<Rightarrow> redis_metrics \<Rightarrow> handle \<Rightarrow> ('s, metrics_error, unit) action" where
  "redis_register P m registry =
     register_metrics P registry
       [r_pool_connections m,
        r_connected_clients m,
        r_blocked_clients m,
        r_used_memory_bytes m,
        r_used_memory_rss m,
        r_mem_fragmentation_ratio m,
        r_keyspace_hits m,
        r_keyspace_misses m,
        r_evicted_keys m,
        r_total_commands_processed m,
        r_db_keys m,
        r_db_expires m,
        r_replication_offset m,
        r_connected_slaves m,
        r_command_duration_seconds m]"

definition observe_command ::
  "'s prometheus \<Rightarrow> redis_metrics \<Rightarrow> string \<Rightarrow> f64 \<Rightarrow> ('s, 'e, unit) action" where
  "observe_command P m cmd duration_secs =
     observe_labelled P (r_command_duration_seconds m) [cmd] duration_secs"

subsection \<open>One poll\<close>

record 's fred =
  pool_size :: "handle \<Rightarrow> 's \<Rightarrow> usize"
  pool_info :: "handle \<Rightarrow> 's \<Rightarrow> (string + string) \<times> 's"

definition redis_query :: "'s fred \<Rightarrow> redis_metrics \<Rightarrow> ('s, metrics_error, string) action" where
  "redis_query D m s =
     (case pool_info D (r_pool m) s of
        (Inl msg, t) \<Rightarrow> (Err (database_error msg), t)
      | (Inr raw, t) \<Rightarrow> (Ok raw, t))"

definition db_label :: "u32 \<Rightarrow> string" where
  "db_label db_idx = ''db'' @ show_u32 db_idx"

definition publish_db ::
  "'s prometheus \<Rightarrow> redis_metrics \<Rightarrow> u32 \<times> i64 \<times> i64 \<Rightarrow> ('s, metrics_error, unit) action" where
  "publish_db P m e =
     (case e of (db_idx, keys, expires) \<Rightarrow>
        (let label = db_label db_idx
         in run_all
              [set_labelled P (r_db_keys m) [label] keys,
               set_labelled P (r_db_expires m) [label] expires]))"

definition redis_publish ::
  "'s prometheus \<Rightarrow> redis_metrics \<Rightarrow> redis_info \<Rightarrow> ('s, metrics_error, unit) action" where
  "redis_publish P m info =
     bind_act
       (run_all
         [set_int P (r_connected_clients m) (i_connected_clients info),
          set_int P (r_blocked_clients m) (i_blocked_clients info),
          set_int P (r_used_memory_bytes m) (i_used_memory info),
          set_int P (r_used_memory_rss m) (i_used_memory_rss info),
          set_float P (r_mem_fragmentation_ratio m) (i_mem_fragmentation_ratio info),
          set_int P (r_keyspace_hits m) (i_keyspace_hits info),
          set_int P (r_keyspace_misses m) (i_keyspace_misses info),
          set_int P (r_evicted_keys m) (i_evicted_keys info),
          set_int P (r_total_commands_processed m) (i_total_commands_processed info),
          set_int P (r_replication_offset m) (i_replication_offset info),
          set_int P (r_connected_slaves m) (i_connected_slaves info)])
       (\<lambda>_. run_all (map (publish_db P m) (i_keyspace info)))"

definition redis_collect ::
  "'s prometheus \<Rightarrow> 's fred \<Rightarrow> redis_metrics \<Rightarrow> ('s, metrics_error, unit) action" where
  "redis_collect P D m =
     bind_act (\<lambda>s. set_int P (r_pool_connections m) (ucast (pool_size D (r_pool m) s)) s)
       (\<lambda>_. bind_act (redis_query D m) (\<lambda>raw. redis_publish P m (parse_info raw)))"

subsection \<open>The metrics as a list\<close>

definition redis_handles :: "redis_metrics \<Rightarrow> handle list" where
  "redis_handles m =
     [r_pool_connections m,
      r_connected_clients m,
      r_blocked_clients m,
      r_used_memory_bytes m,
      r_used_memory_rss m,
      r_mem_fragmentation_ratio m,
      r_keyspace_hits m,
      r_keyspace_misses m,
      r_evicted_keys m,
      r_total_commands_processed m,
      r_db_keys m,
      r_db_expires m,
      r_replication_offset m,
      r_connected_slaves m,
      r_command_duration_seconds m]"

definition redis_specs :: "string \<Rightarrow> metric_spec list" where
  "redis_specs ns =
     [redis_gauge ns ''pool_connections'' ''Number of connected pool clients'',
      redis_gauge ns ''connected_clients'' ''Number of connected Redis clients'',
      redis_gauge ns ''blocked_clients'' ''Number of blocked Redis clients'',
      redis_gauge ns ''used_memory_bytes'' ''Redis used memory in bytes'',
      redis_gauge ns ''used_memory_rss_bytes'' ''Redis RSS memory in bytes'',
      redis_fgauge ns ''mem_fragmentation_ratio'' ''Redis memory fragmentation ratio'',
      redis_gauge ns ''keyspace_hits_total'' ''Redis keyspace hits (snapshot)'',
      redis_gauge ns ''keyspace_misses_total'' ''Redis keyspace misses (snapshot)'',
      redis_gauge ns ''evicted_keys_total'' ''Redis evicted keys (snapshot)'',
      redis_gauge ns ''commands_processed_total'' ''Total Redis commands processed (snapshot)'',
      redis_gauge_vec ns ''db_keys'' ''Number of keys per database'' [''db''],
      redis_gauge_vec ns ''db_expires'' ''Number of expiring keys per database'' [''db''],
      redis_gauge ns ''replication_offset'' ''Redis master replication offset'',
      redis_gauge ns ''connected_slaves'' ''Number of connected Redis replicas'',
      redis_histogram_vec ns ''command_duration_seconds'' ''Application-level Redis command duration'' [''cmd''] DEFAULT_QUERY_BUCKETS]"

definition redis_of :: "handle \<Rightarrow> handle list \<Rightarrow> redis_metrics" where
  "redis_of pool hs =
     \<lparr>r_pool = pool,
      r_pool_connections = hs ! 0,
      r_connected_clients = hs ! 1,
      r_blocked_clients = hs ! 2,
      r_used_memory_bytes = hs ! 3,
      r_used_memory_rss = hs ! 4,
      r_mem_fragmentation_ratio = hs ! 5,
      r_keyspace_hits = hs ! 6,
      r_keyspace_misses = hs ! 7,
      r_evicted_keys = hs ! 8,
      r_total_commands_processed = hs ! 9,
      r_db_keys = hs ! 10,
      r_db_expires = hs ! 11,
      r_replication_offset = hs ! 12,
      r_connected_slaves = hs ! 13,
      r_command_duration_seconds = hs ! 14\<rparr>"

definition redis_names :: "string list" where
  "redis_names =
     [''pool_connections'', ''connected_clients'', ''blocked_clients'', ''used_memory_bytes'',
      ''used_memory_rss_bytes'', ''mem_fragmentation_ratio'', ''keyspace_hits_total'',
      ''keyspace_misses_total'', ''evicted_keys_total'', ''commands_processed_total'',
      ''db_keys'', ''db_expires'', ''replication_offset'', ''connected_slaves'',
      ''command_duration_seconds'']"

definition redis_descs :: "string \<Rightarrow> metric_desc list" where
  "redis_descs ns = map spec_desc (redis_specs ns)"

lemmas redis_macro_defs =
  redis_gauge_def redis_fgauge_def redis_gauge_vec_def redis_histogram_vec_def

lemma redis_new_new_all:
  "redis_new P pool config =
     bind_act (new_all P (redis_specs (namespace config))) (\<lambda>hs. ret (redis_of pool hs))"
  by (simp add: redis_new_def redis_specs_def redis_of_def bind_act_assoc Let_def)

lemma redis_handles_of: "length hs = 15 \<Longrightarrow> redis_handles (redis_of pool hs) = hs"
  by (auto simp: redis_handles_def redis_of_def length_Suc_conv numeral_eq_Suc)

lemma length_redis_specs [simp]: "length (redis_specs ns) = 15"
  by (simp add: redis_specs_def)

lemma redis_specs_valid: "valid_namespace ns \<Longrightarrow> \<forall>sp\<in>set (redis_specs ns). spec_valid sp"
  by (simp add: redis_specs_def redis_macro_defs spec_valid_scoped valid_eval query_buckets_sorted)

lemma redis_new_Ok:
  assumes "prom_ok P V" and "redis_new P pool config s = (Ok m, t)"
  shows "allocated V s t (redis_handles m) (redis_descs (namespace config))" and "r_pool m = pool"
proof -
  have "allocated V s t (redis_handles m) (map spec_desc (redis_specs (namespace config))) \<and>
      (\<exists>hs. m = redis_of pool hs)"
    using assms(2) unfolding redis_new_new_all
    by (rule new_struct_Ok [OF assms(1)]) (simp add: redis_handles_of)
  then show "allocated V s t (redis_handles m) (redis_descs (namespace config))" and "r_pool m = pool"
    by (auto simp: redis_descs_def redis_of_def)
qed

lemma redis_new_valid:
  assumes "prom_ok P V" and "valid_namespace (namespace config)"
  shows "\<exists>m t. redis_new P pool config s = (Ok m, t)"
  unfolding redis_new_new_all by (rule new_struct_valid [OF assms(1) redis_specs_valid [OF assms(2)]])

lemma redis_desc_names:
  "concat (map d_names (redis_descs ns)) = map (\<lambda>n. ns_prefix ns @ ''redis_'' @ n) redis_names"
  by (simp add: redis_descs_def redis_specs_def redis_macro_defs spec_desc_scoped redis_names_def)

subsection \<open>What one poll writes\<close>

lemma redis_cores:
  assumes "owned M (redis_handles m) (redis_descs ns)"
  shows "core_is M (r_pool_connections m) IntGauge 0" "core_is M (r_connected_clients m) IntGauge 0"
    "core_is M (r_blocked_clients m) IntGauge 0" "core_is M (r_used_memory_bytes m) IntGauge 0"
    "core_is M (r_used_memory_rss m) IntGauge 0" "core_is M (r_mem_fragmentation_ratio m) Gauge 0"
    "core_is M (r_keyspace_hits m) IntGauge 0" "core_is M (r_keyspace_misses m) IntGauge 0"
    "core_is M (r_evicted_keys m) IntGauge 0" "core_is M (r_total_commands_processed m) IntGauge 0"
    "core_is M (r_db_keys m) IntGaugeVec 1" "core_is M (r_db_expires m) IntGaugeVec 1"
    "core_is M (r_replication_offset m) IntGauge 0" "core_is M (r_connected_slaves m) IntGauge 0"
    "core_is M (r_command_duration_seconds m) HistogramVec 1"
  using assms
  by (simp_all add: redis_handles_def redis_descs_def redis_specs_def redis_macro_defs spec_desc_def
      owned_Cons core_is_def)

definition db_assigns :: "redis_metrics \<Rightarrow> u32 \<times> i64 \<times> i64 \<Rightarrow> assignment list" where
  "db_assigns m e =
     (case e of (db, keys, expires) \<Rightarrow>
        [((r_db_keys m, [db_label db]), IntV keys),
         ((r_db_expires m, [db_label db]), IntV expires)])"

definition scalar_assigns :: "redis_metrics \<Rightarrow> redis_info \<Rightarrow> assignment list" where
  "scalar_assigns m info =
     [(plain (r_connected_clients m), IntV (i_connected_clients info)),
      (plain (r_blocked_clients m), IntV (i_blocked_clients info)),
      (plain (r_used_memory_bytes m), IntV (i_used_memory info)),
      (plain (r_used_memory_rss m), IntV (i_used_memory_rss info)),
      (plain (r_mem_fragmentation_ratio m), FloatV (i_mem_fragmentation_ratio info)),
      (plain (r_keyspace_hits m), IntV (i_keyspace_hits info)),
      (plain (r_keyspace_misses m), IntV (i_keyspace_misses info)),
      (plain (r_evicted_keys m), IntV (i_evicted_keys info)),
      (plain (r_total_commands_processed m), IntV (i_total_commands_processed info)),
      (plain (r_replication_offset m), IntV (i_replication_offset info)),
      (plain (r_connected_slaves m), IntV (i_connected_slaves info))]"

definition poll_assigns :: "redis_metrics \<Rightarrow> redis_info \<Rightarrow> assignment list" where
  "poll_assigns m info = scalar_assigns m info @ concat (map (db_assigns m) (i_keyspace info))"

lemma redis_publish_writes:
  assumes P: "prom_ok P V" and own: "owned M (redis_handles m) (redis_descs ns)"
  shows "writes V M (redis_publish P m info) (poll_assigns m info)"
proof -
  note cores = redis_cores [OF own]
  note int = writes_set_int [OF P] and flt = writes_set_float [OF P]
  have db: "writes V M (publish_db P m e) (db_assigns m e)" for e
  proof (cases e)
    case (fields d k x)
    show ?thesis
      unfolding publish_db_def db_assigns_def fields Let_def prod.case
      using cores(11,12) by (intro writes_run_all_singles) (simp add: writes_set_labelled [OF P])
  qed
  show ?thesis
    unfolding redis_publish_def poll_assigns_def scalar_assigns_def
    by (intro writes_bind writes_run_all_singles writes_run_map db)
      (simp add: int [OF cores(1)] int [OF cores(2)] int [OF cores(3)] int [OF cores(4)]
        int [OF cores(5)] flt [OF cores(6)] int [OF cores(7)] int [OF cores(8)] int [OF cores(9)]
        int [OF cores(10)] int [OF cores(13)] int [OF cores(14)])
qed

lemma show_u32_inject [simp]: "show_u32 a = show_u32 b \<longleftrightarrow> a = b"
  by (metis parse_u32_show option.inject)

lemma db_label_inject [simp]: "db_label a = db_label b \<longleftrightarrow> a = b"
  by (simp add: db_label_def)

lemma db_assigns_lookup:
  assumes "r_db_keys m \<noteq> r_db_expires m"
  shows "apply_writes (concat (map (db_assigns m) es)) f (r_db_keys m, [db_label d]) =
      (case map_of (rev es) d of None \<Rightarrow> f (r_db_keys m, [db_label d]) | Some (k, x) \<Rightarrow> IntV k)"
    and "apply_writes (concat (map (db_assigns m) es)) f (r_db_expires m, [db_label d]) =
      (case map_of (rev es) d of None \<Rightarrow> f (r_db_expires m, [db_label d]) | Some (k, x) \<Rightarrow> IntV x)"
  using assms
  by (induction es rule: rev_induct) (auto simp: db_assigns_def split: option.splits prod.splits)

lemma db_assigns_other:
  assumes "fst sr \<noteq> r_db_keys m" "fst sr \<noteq> r_db_expires m"
  shows "apply_writes (concat (map (db_assigns m) es)) f sr = f sr"
  using assms by (intro apply_writes_other) (auto simp: db_assigns_def)

subsection \<open>The contract of the trait\<close>

text \<open>The driver does not touch the metrics.\<close>

definition fred_quiet :: "'s fred \<Rightarrow> 's prom_view \<Rightarrow> bool" where
  "fred_quiet D V \<longleftrightarrow> (\<forall>p s. same V s (snd (pool_info D p s)))"

definition pool_assign :: "'s fred \<Rightarrow> redis_metrics \<Rightarrow> 's \<Rightarrow> assignment" where
  "pool_assign D m s = (plain (r_pool_connections m), IntV (ucast (pool_size D (r_pool m) s)))"

lemma redis_collect_cases:
  assumes P: "prom_ok P V" and D: "fred_quiet D V"
    and own: "owned (meta V s) (redis_handles m) (redis_descs ns)"
    and run: "redis_collect P D m s = (res, t)"
  obtains (ok) raw u where "fst (pool_info D (r_pool m) u) = Inr raw" "res = Ok ()"
      "meta V t = meta V s" "regs V t = regs V s"
      "val V t = apply_writes (pool_assign D m s # poll_assigns m (parse_info raw)) (val V s)"
  | (failed) msg u where "fst (pool_info D (r_pool m) u) = Inl msg" "res = Err (Database msg)"
      "meta V t = meta V s" "regs V t = regs V s"
      "val V t = apply_writes [pool_assign D m s] (val V s)"
proof -
  obtain x u where u: "set_int P (r_pool_connections m) (ucast (pool_size D (r_pool m) s)) s = (x :: (metrics_error, unit) outcome, u)"
    by (cases "set_int P (r_pool_connections m) (ucast (pool_size D (r_pool m) s)) s :: (metrics_error, unit) outcome \<times> _")
  have w: "x = Ok ()" "meta V u = meta V s" "regs V u = regs V s"
    "val V u = apply_writes [pool_assign D m s] (val V s)"
    using writesD [OF writes_set_int [OF P redis_cores(1) [OF own]] u] by (auto simp: pool_assign_def)
  obtain y v where y: "pool_info D (r_pool m) u = (y, v)" by (cases "pool_info D (r_pool m) u")
  then have uv: "same V u v" using D by (metis fred_quiet_def snd_conv)
  have rest: "bind_act (redis_query D m) (\<lambda>raw. redis_publish P m (parse_info raw)) u = (res, t)"
    using run u w(1) by (simp add: redis_collect_def bind_act_def)
  show ?thesis
  proof (cases y)
    case (Inl msg)
    with rest y have "res = Err (Database msg)" "t = v"
      by (auto simp: bind_act_def redis_query_def database_error_def)
    with Inl y uv w that(2) [of u msg] show ?thesis by (simp add: same_def)
  next
    case (Inr raw)
    with rest y have p: "redis_publish P m (parse_info raw) v = (res, t)"
      by (auto simp: bind_act_def redis_query_def)
    have "writes V (meta V v) (redis_publish P m (parse_info raw)) (poll_assigns m (parse_info raw))"
      using redis_publish_writes [OF P own] uv w by (simp add: same_def)
    from writesD [OF this p] Inr y uv w that(1) [of u raw] show ?thesis
      by (simp add: same_def pool_assign_def)
  qed
qed

lemma poll_assigns_frame:
  "fst sr \<notin> set (redis_handles m) \<Longrightarrow>
     apply_writes (pool_assign D m s # poll_assigns m info) f sr = f sr"
  "fst sr \<notin> set (redis_handles m) \<Longrightarrow> apply_writes [pool_assign D m s] f sr = f sr"
  by (rule apply_writes_other,
      auto simp: poll_assigns_def scalar_assigns_def db_assigns_def pool_assign_def plain_def redis_handles_def)+

interpretation redis: metrics_collector redis_name "\<lambda>P. redis_register P m" "\<lambda>P. redis_collect P D m"
    "redis_handles m" "redis_descs ns" "fred_quiet D"
  for m :: redis_metrics and D :: "'s fred" and ns :: string
proof (unfold_locales, goal_cases)
  case (1 P V s r rs res t)
  then show ?case
    using register_metrics_registered [OF 1(1,3) owned_dom [OF 1(2)]]
    by (simp add: redis_register_def redis_handles_def)
next
  case (2 P V s res t)
  from 2 show ?case
    by (cases rule: redis_collect_cases) (auto simp: poll_assigns_frame)
qed

lemma poll_assigns_values:
  assumes "distinct (redis_handles m)"
    and "g = apply_writes (pool_assign D m s # poll_assigns m info) f"
  shows "g (plain (r_pool_connections m)) = IntV (ucast (pool_size D (r_pool m) s))"
    "g (plain (r_connected_clients m)) = IntV (i_connected_clients info)"
    "g (plain (r_blocked_clients m)) = IntV (i_blocked_clients info)"
    "g (plain (r_used_memory_bytes m)) = IntV (i_used_memory info)"
    "g (plain (r_used_memory_rss m)) = IntV (i_used_memory_rss info)"
    "g (plain (r_mem_fragmentation_ratio m)) = FloatV (i_mem_fragmentation_ratio info)"
    "g (plain (r_keyspace_hits m)) = IntV (i_keyspace_hits info)"
    "g (plain (r_keyspace_misses m)) = IntV (i_keyspace_misses info)"
    "g (plain (r_evicted_keys m)) = IntV (i_evicted_keys info)"
    "g (plain (r_total_commands_processed m)) = IntV (i_total_commands_processed info)"
    "g (plain (r_replication_offset m)) = IntV (i_replication_offset info)"
    "g (plain (r_connected_slaves m)) = IntV (i_connected_slaves info)"
    "g (r_db_keys m, [db_label d]) =
       (case map_of (rev (i_keyspace info)) d of
          None \<Rightarrow> f (r_db_keys m, [db_label d]) | Some (k, x) \<Rightarrow> IntV k)"
    "g (r_db_expires m, [db_label d]) =
       (case map_of (rev (i_keyspace info)) d of
          None \<Rightarrow> f (r_db_expires m, [db_label d]) | Some (k, x) \<Rightarrow> IntV x)"
    "g (r_command_duration_seconds m, ls) = f (r_command_duration_seconds m, ls)"
proof -
  have g: "g = apply_writes (concat (map (db_assigns m) (i_keyspace info)))
      (apply_writes (pool_assign D m s # scalar_assigns m info) f)"
    using assms(2) by (simp add: poll_assigns_def pool_assign_def)
  have d: "distinct (redis_handles m)" and d': "distinct (rev (redis_handles m))"
    using assms(1) by simp_all
  note simps = g db_assigns_other db_assigns_lookup redis_handles_def plain_def scalar_assigns_def
    pool_assign_def
  show "g (plain (r_pool_connections m)) = IntV (ucast (pool_size D (r_pool m) s))"
    "g (plain (r_connected_clients m)) = IntV (i_connected_clients info)"
    "g (plain (r_blocked_clients m)) = IntV (i_blocked_clients info)"
    "g (plain (r_used_memory_bytes m)) = IntV (i_used_memory info)"
    "g (plain (r_used_memory_rss m)) = IntV (i_used_memory_rss info)"
    "g (plain (r_mem_fragmentation_ratio m)) = FloatV (i_mem_fragmentation_ratio info)"
    "g (plain (r_keyspace_hits m)) = IntV (i_keyspace_hits info)"
    "g (plain (r_keyspace_misses m)) = IntV (i_keyspace_misses info)"
    "g (plain (r_evicted_keys m)) = IntV (i_evicted_keys info)"
    "g (plain (r_total_commands_processed m)) = IntV (i_total_commands_processed info)"
    "g (plain (r_replication_offset m)) = IntV (i_replication_offset info)"
    "g (plain (r_connected_slaves m)) = IntV (i_connected_slaves info)"
    "g (r_db_keys m, [db_label d]) =
       (case map_of (rev (i_keyspace info)) d of
          None \<Rightarrow> f (r_db_keys m, [db_label d]) | Some (k, x) \<Rightarrow> IntV k)"
    "g (r_db_expires m, [db_label d]) =
       (case map_of (rev (i_keyspace info)) d of
          None \<Rightarrow> f (r_db_expires m, [db_label d]) | Some (k, x) \<Rightarrow> IntV x)"
    "g (r_command_duration_seconds m, ls) = f (r_command_duration_seconds m, ls)"
    using d d' by (simp_all add: simps cong: option.case_cong)
qed

subsection \<open>Properties\<close>

text \<open>
  C25: for every namespace that is empty or a valid metric name, \<open>RedisMetrics::new\<close>
  succeeds and allocates fifteen distinct fresh metrics, of the expected kinds, labels and
  buckets, named \<open><ns>_redis_<name>\<close>; no metric that existed before is changed.
\<close>

theorem redis_new_total:
  assumes "prom_ok P V" and "valid_namespace (namespace config)"
  shows "\<exists>m t. redis_new P pool config s = (Ok m, t) \<and> r_pool m = pool \<and>
     allocated V s t (redis_handles m) (redis_descs (namespace config)) \<and>
     names_of (meta V t) (redis_handles m) =
       map (\<lambda>n. ns_prefix (namespace config) @ ''redis_'' @ n) redis_names"
proof -
  obtain m t where mt: "redis_new P pool config s = (Ok m, t)"
    using redis_new_valid [OF assms] by blast
  note al = redis_new_Ok [OF assms(1) mt]
  have "names_of (meta V t) (redis_handles m) =
      map (\<lambda>n. ns_prefix (namespace config) @ ''redis_'' @ n) redis_names"
    using names_of_owned [OF allocated_owned [OF al(1)]] by (simp add: redis_desc_names)
  with mt al show ?thesis by blast
qed

theorem redis_new_total_witness:
  "\<exists>m t. redis_new ref_prom 7 (default_config\<lparr>namespace := ''myapp''\<rparr>) empty_world = (Ok m, t) \<and>
     r_pool m = 7 \<and> length (names_of (meta ref_view t) (redis_handles m)) = 15"
proof -
  have "valid_namespace (namespace (default_config\<lparr>namespace := ''myapp''\<rparr>))"
    by (simp add: valid_namespace_def valid_eval)
  from redis_new_total [OF ref_prom_ok this, of 7 empty_world] show ?thesis
    by (auto simp: redis_names_def)
qed

text \<open>
  C7: a poll that gets the server's text succeeds; afterwards every gauge shows the parsed
  number, every database of the keyspace shows its last entry, a database that the text does
  not list keeps the values of an earlier poll, the command histogram and every metric
  of others are untouched.
\<close>

theorem redis_poll_success:
  assumes P: "prom_ok P V" and D: "fred_quiet D V"
    and own: "owned (meta V s) (redis_handles m) (redis_descs ns)"
    and raw: "\<forall>u. fst (pool_info D (r_pool m) u) = Inr raw"
    and info: "info = parse_info raw"
  shows "\<exists>t. redis_collect P D m s = (Ok (), t) \<and>
    val V t (plain (r_pool_connections m)) = IntV (ucast (pool_size D (r_pool m) s)) \<and>
    val V t (plain (r_connected_clients m)) = IntV (i_connected_clients info) \<and>
    val V t (plain (r_blocked_clients m)) = IntV (i_blocked_clients info) \<and>
    val V t (plain (r_used_memory_bytes m)) = IntV (i_used_memory info) \<and>
    val V t (plain (r_used_memory_rss m)) = IntV (i_used_memory_rss info) \<and>
    val V t (plain (r_mem_fragmentation_ratio m)) = FloatV (i_mem_fragmentation_ratio info) \<and>
    val V t (plain (r_keyspace_hits m)) = IntV (i_keyspace_hits info) \<and>
    val V t (plain (r_keyspace_misses m)) = IntV (i_keyspace_misses info) \<and>
    val V t (plain (r_evicted_keys m)) = IntV (i_evicted_keys info) \<and>
    val V t (plain (r_total_commands_processed m)) = IntV (i_total_commands_processed info) \<and>
    val V t (plain (r_replication_offset m)) = IntV (i_replication_offset info) \<and>
    val V t (plain (r_connected_slaves m)) = IntV (i_connected_slaves info) \<and>
    (\<forall>db. val V t (r_db_keys m, [db_label db]) =
       (case map_of (rev (i_keyspace info)) db of
          None \<Rightarrow> val V s (r_db_keys m, [db_label db]) | Some (keys, _) \<Rightarrow> IntV keys)) \<and>
    (\<forall>db. val V t (r_db_expires m, [db_label db]) =
       (case map_of (rev (i_keyspace info)) db of
          None \<Rightarrow> val V s (r_db_expires m, [db_label db]) | Some (_, expires) \<Rightarrow> IntV expires)) \<and>
    (\<forall>ls. val V t (r_command_duration_seconds m, ls) = val V s (r_command_duration_seconds m, ls)) \<and>
    (\<forall>sr. fst sr \<notin> set (redis_handles m) \<longrightarrow> val V t sr = val V s sr) \<and>
    meta V t = meta V s \<and> regs V t = regs V s"
proof -
  obtain res t where t: "redis_collect P D m s = (res, t)" by (cases "redis_collect P D m s")
  have d: "distinct (redis_handles m)" using own by (simp add: owned_def)
  from P D own t show ?thesis
  proof (cases rule: redis_collect_cases)
    case (ok raw' u)
    with raw info have i: "parse_info raw' = info" by (metis sum.inject(2))
    have v: "val V t = apply_writes (pool_assign D m s # poll_assigns m info) (val V s)"
      using ok(5) i by simp
    have frame: "\<forall>sr. fst sr \<notin> set (redis_handles m) \<longrightarrow> val V t sr = val V s sr"
      by (simp add: v poll_assigns_frame)
    from ok(2,3,4) t frame poll_assigns_values [OF d v] show ?thesis
      by (simp del: fun_upd_apply)
  next
    case (failed msg u)
    with raw show ?thesis by (metis sum.distinct(1))
  qed
qed

definition demo_redis :: redis_metrics where
  "demo_redis = redis_of 0 [1..<16]"

definition demo_redis_world :: ref_world where
  "demo_redis_world = world_of (zip [1..<16] (redis_descs ''myapp''))"

definition demo_fred :: "(string + string) \<Rightarrow> 's fred" where
  "demo_fred answer = \<lparr>pool_size = (\<lambda>_ _. 5), pool_info = (\<lambda>_ s. (answer, s))\<rparr>"

lemma demo_fred_quiet: "fred_quiet (demo_fred answer) V"
  by (simp add: fred_quiet_def demo_fred_def same_def)

lemma demo_redis_handles: "redis_handles demo_redis = [1..<16]"
  by (simp add: demo_redis_def redis_handles_of)

lemma demo_redis_owned:
  "owned (meta ref_view demo_redis_world) (redis_handles demo_redis) (redis_descs ''myapp'')"
  unfolding demo_redis_handles ref_view_sel demo_redis_world_def world_of_def ref_world.simps
  by (rule owned_map_of_zip) (simp_all add: redis_descs_def del: upt_Suc)

theorem redis_poll_success_witness:
  "\<exists>t. redis_collect ref_prom (demo_fred (Inr (render_info ''1.5'' sample_info))) demo_redis demo_redis_world = (Ok (), t) \<and>
     val ref_view t (plain (r_used_memory_bytes demo_redis)) = IntV 5242880 \<and>
     val ref_view t (r_db_keys demo_redis, [db_label 3]) = IntV 7"
proof -
  have "\<forall>u. fst (pool_info (demo_fred (Inr (render_info ''1.5'' sample_info))) (r_pool demo_redis) u) =
      Inr (render_info ''1.5'' sample_info)"
    by (simp add: demo_fred_def)
  from redis_poll_success [OF ref_prom_ok demo_fred_quiet demo_redis_owned this refl]
  show ?thesis
    unfolding sample_info_parses by (auto simp: sample_info_def)
qed

text \<open>
  C30: a poll whose driver call fails returns the driver's message as a database error; the
  only metric it has changed is the pool size, all the gauges keep their last values.
\<close>

theorem redis_poll_failure:
  assumes P: "prom_ok P V" and D: "fred_quiet D V"
    and own: "owned (meta V s) (redis_handles m) (redis_descs ns)"
    and down: "\<forall>u. fst (pool_info D (r_pool m) u) = Inl msg"
  shows "\<exists>t. redis_collect P D m s = (Err (Database msg), t) \<and>
    val V t = (val V s)(plain (r_pool_connections m) := IntV (ucast (pool_size D (r_pool m) s))) \<and>
    meta V t = meta V s \<and> regs V t = regs V s"
proof -
  obtain res t where t: "redis_collect P D m s = (res, t)" by (cases "redis_collect P D m s")
  from P D own t show ?thesis
  proof (cases rule: redis_collect_cases)
    case (ok raw u)
    with down show ?thesis by (metis sum.distinct(1))
  next
    case (failed msg' u)
    with down have "msg' = msg" by (metis sum.inject(1))
    with failed t show ?thesis by (simp add: pool_assign_def)
  qed
qed

theorem redis_poll_failure_witness:
  "\<exists>t. redis_collect ref_prom (demo_fred (Inl ''Connection refused'')) demo_redis demo_redis_world =
       (Err (Database ''Connection refused''), t) \<and>
     val ref_view t (plain (r_used_memory_bytes demo_redis)) =
       val ref_view demo_redis_world (plain (r_used_memory_bytes demo_redis))"
proof -
  have "\<forall>u. fst (pool_info (demo_fred (Inl ''Connection refused'')) (r_pool demo_redis) u) =
      Inl ''Connection refused''"
    by (simp add: demo_fred_def)
  from redis_poll_failure [OF ref_prom_ok demo_fred_quiet demo_redis_owned this]
  show ?thesis by (auto simp: plain_def demo_redis_def redis_of_def simp del: upt_Suc)
qed

text \<open>
  C19: the polling loop of a Redis collector is alive after any number of ticks, whatever the
  server answers or fails to answer; it has logged at most one warning per tick and has
  written the collector's own metrics only.
\<close>

theorem redis_loop_alive:
  assumes "prom_ok P V" and "fred_quiet D V"
    and "owned (meta V s) (redis_handles m) (redis_descs ns)"
  shows "\<exists>ws t. collect_loop redis_name (redis_collect P D m) n s = (Running, ws, t) \<and> length ws \<le> n \<and>
     meta V t = meta V s \<and> regs V t = regs V s \<and>
     (\<forall>sr. fst sr \<notin> set (redis_handles m) \<longrightarrow> val V t sr = val V s sr)"
  using assms by (rule redis.loop_alive)

theorem redis_loop_alive_witness:
  "\<exists>ws t. collect_loop redis_name
       (redis_collect ref_prom (demo_fred (Inl ''down'')) demo_redis) 1000 demo_redis_world =
     (Running, ws, t) \<and> length ws \<le> 1000"
  using redis_loop_alive [OF ref_prom_ok demo_fred_quiet demo_redis_owned, of "Inl ''down''" 1000] by blast

text \<open>
  \<open>observe_command\<close> succeeds and appends the duration to the histogram of that command,
  and to no other series.
\<close>

theorem observe_command_appends:
  assumes P: "prom_ok P V" and own: "owned (meta V s) (redis_handles m) (redis_descs ns)"
    and v: "val V s (r_command_duration_seconds m, [cmd]) = HistV xs"
  shows "\<exists>t. observe_command P m cmd x s = (Ok (), t) \<and>
     val V t = (val V s)((r_command_duration_seconds m, [cmd]) := HistV (xs @ [x]))"
  using observe_labelled_Ok [OF P, of s "r_command_duration_seconds m" "[cmd]" xs x]
    redis_cores(15) [OF own] v
  by (auto simp: observe_command_def assigns_def)

theorem observe_command_appends_witness:
  "\<exists>t. observe_command ref_prom demo_redis ''GET'' (F64_Fin False 1 0) demo_redis_world =
      (Ok () :: (metrics_error, unit) outcome, t) \<and>
    val ref_view t (r_command_duration_seconds demo_redis, [''GET'']) = HistV [F64_Fin False 1 0]"
proof -
  have "val ref_view demo_redis_world (r_command_duration_seconds demo_redis, [''GET'']) = HistV []"
    using demo_redis_owned redis_cores(15) [OF demo_redis_owned]
    by (auto simp: demo_redis_world_def world_of_def core_is_def)
  from observe_command_appends [OF ref_prom_ok demo_redis_owned this, of "F64_Fin False 1 0"]
  show ?thesis by auto
qed

end
