(* ===== verification/Mongo.thy ===== *)
theory Mongo
  imports Core RefProm
begin

text \<open>
  \<open>dr-metrix-mongo/src/metrics.rs\<close>: the struct \<open>MongoMetrics\<close>, its constructor and
  \<open>observe_op\<close>, and its implementation of the trait \<open>MetricsCollector\<close>.  The driver is
  a parameter: \<open>run_command\<close> answers with a BSON document or the text of the driver's
  error; a document is read with \<open>get_document\<close> and \<open>get_i64\<close>, whose error value the
  code never looks at, so that both return an option.

  Each section of the \<open>serverStatus\<close> document is one definition.  The lemmas compute the
  assignments of one poll (\<open>mongo_publish_writes\<close>); the product that converts megabytes
  to bytes is modelled with and without overflow checks, the debug and the release profile.
\<close>

subsection \<open>The struct and its constructor\<close>

record mongo_metrics =
  g_client :: handle
  g_admin_db :: string
  g_connections_current :: handle
  g_connections_available :: handle
  g_connections_total :: handle
  g_opcounters :: handle
  g_bytes_in :: handle
  g_bytes_out :: handle
  g_requests_in :: handle
  g_resident_memory_bytes :: handle
  g_virtual_memory_bytes :: handle
  g_wt_cache_bytes_in_use :: handle
  g_wt_cache_bytes_max :: handle
  g_wt_cache_dirty_bytes :: handle
  g_op_duration_seconds :: handle

definition mongo_gauge :: "string \<Rightarrow> string \<Rightarrow> string \<Rightarrow> metric_spec" where
  "mongo_gauge ns name help = (IntGauge, scoped_opts ns ''mongo'' name help, [], [])"

definition mongo_gauge_vec :: "string \<Rightarrow> string \<Rightarrow> string \<Rightarrow> string list \<Rightarrow> metric_spec" where
  "mongo_gauge_vec ns name help labels =
     (IntGaugeVec, scoped_opts ns ''mongo'' name help, labels, [])"

definition mongo_histogram_vec ::
  "string \<Rightarrow> string \<Rightarrow> string \<Rightarrow> string list \<Rightarrow> f64 list \<Rightarrow> metric_spec" where
  "mongo_histogram_vec ns name help labels buckets =
     (HistogramVec, scoped_opts ns ''mongo'' name help, labels, buckets)"


definition mongo_new ::
  "'s prometheus \<Rightarrow> handle \<Rightarrow> string \<Rightarrow> collector_config \<Rightarrow> ('s, metrics_error, mongo_metrics) action" where
  "mongo_new P client admin_db config =
     (let ns = namespace config in
     bind_act (new_metric P (mongo_gauge ns ''connections_current'' ''Current MongoDB connections'')) (\<lambda>connections_current.
     bind_act (new_metric P (mongo_gauge ns ''connections_available'' ''Available MongoDB connections'')) (\<lambda>connections_available.
     bind_act (new_metric P (mongo_gauge ns ''connections_total'' ''Total MongoDB connections created'')) (\<lambda>connections_total.
     bind_act (new_metric P (mongo_gauge_vec ns ''opcounters_total'' ''MongoDB operation counters (snapshot)'' [''op''])) (\<lambda>opcounters.
     bind_act (new_metric P (mongo_gauge ns ''network_bytes_in_total'' ''Network bytes received'')) (\<lambda>bytes_in.
     bind_act (new_metric P (mongo_gauge ns ''network_bytes_out_total'' ''Network bytes sent'')) (\<lambda>bytes_out.
     bind_act (new_metric P (mongo_gauge ns ''network_requests_total'' ''Network requests received'')) (\<lambda>requests_in.
     bind_act (new_metric P (mongo_gauge ns ''resident_memory_bytes'' ''Resident memory usage in bytes'')) (\<lambda>resident_memory_bytes.
     bind_act (new_metric P (mongo_gauge ns ''virtual_memory_bytes'' ''Virtual memory usage in bytes'')) (\<lambda>virtual_memory_bytes.
     bind_act (new_metric P (mongo_gauge ns ''wt_cache_bytes_in_use'' ''WiredTiger cache bytes currently in use'')) (\<lambda>wt_cache_bytes_in_use.
     bind_act (new_metric P (mongo_gauge ns ''wt_cache_bytes_max'' ''WiredTiger cache maximum bytes'')) (\<lambda>wt_cache_bytes_max.
     bind_act (new_metric P (mongo_gauge ns ''wt_cache_dirty_bytes'' ''WiredTiger cache dirty bytes'')) (\<lambda>wt_cache_dirty_bytes.
     bind_act (new_metric P (mongo_histogram_vec ns ''op_duration_seconds'' ''Application-level MongoDB operation duration'' [''op''] DEFAULT_QUERY_BUCKETS)) (\<lambda>op_duration_seconds.
     ret \<lparr>g_client = client,
        g_admin_db = admin_db,
        g_connections_current = connections_current,
        g_connections_available = connections_available,
        g_connections_total = connections_total,
        g_opcounters = opcounters,
        g_bytes_in = bytes_in,
        g_bytes_out = bytes_out,
        g_requests_in = requests_in,
        g_resident_memory_bytes = resident_memory_bytes,
        g_virtual_memory_bytes = virtual_memory_bytes,
        g_wt_cache_bytes_in_use = wt_cache_bytes_in_use,
        g_wt_cache_bytes_max = wt_cache_bytes_max,
        g_wt_cache_dirty_bytes = wt_cache_dirty_bytes,
        g_op_duration_seconds = op_duration_seconds\<rparr>))))))))))))))"

definition mongo_name :: string where
  "mongo_name = ''mongo''"

definition mongo_register ::
  "'s prometheus \<Rightarrow> mongo_metrics \<Rightarrow> handle \<Rightarrow> ('s, metrics_error, unit) action" where
  "mongo_register P m registry =
     register_metrics P registry
       [g_connections_current m,
        g_connections_available m,
        g_connections_total m,
        g_opcounters m,
        g_bytes_in m,
        g_bytes_out m,
        g_requests_in m,
        g_resident_memory_bytes m,
        g_virtual_memory_bytes m,
        g_wt_cache_bytes_in_use m,
        g_wt_cache_bytes_max m,
        g_wt_cache_dirty_bytes m,
        g_op_duration_seconds m]"

definition observe_op ::
  "'s prometheus \<Rightarrow> mongo_metrics \<Rightarrow> string \<Rightarrow> f64 \<Rightarrow> ('s, 'e, unit) action" where
  "observe_op P m op duration_secs =
     observe_labelled P (g_op_duration_seconds m) [op] duration_secs"

subsection \<open>One poll\<close>

record ('s, 'd) mongo_driver =
  doc_lit :: "(string \<times> int) list \<Rightarrow> 'd"
  run_command :: "handle \<Rightarrow> string \<Rightarrow> 'd \<Rightarrow> 's \<Rightarrow> (string + 'd) \<times> 's"
  get_document :: "'d \<Rightarrow> string \<Rightarrow> 'd option"
  get_i64 :: "'d \<Rightarrow> string \<Rightarrow> i64 option"

text \<open>\<open>doc.get_i64(key).unwrap_or(0)\<close>\<close>

definition get_i64_or_0 :: "('s, 'd) mongo_driver \<Rightarrow> 'd \<Rightarrow> string \<Rightarrow> i64" where
  "get_i64_or_0 D d key = (case get_i64 D d key of None \<Rightarrow> 0 | Some v \<Rightarrow> v)"

text \<open>
  \<open>a * b\<close> on \<open>i64\<close>: it wraps, unless the crate is compiled with overflow checks (the
  debug profile), where a product out of range panics.
\<close>

definition fits_i64 :: "int \<Rightarrow> bool" where
  "fits_i64 n \<longleftrightarrow> - (2 ^ 63) \<le> n \<and> n < 2 ^ 63"

definition mul_i64 :: "bool \<Rightarrow> i64 \<Rightarrow> i64 \<Rightarrow> ('s, 'e, i64) action" where
  "mul_i64 checks a b s =
     (if checks \<and> \<not> fits_i64 (sint a * sint b) then (Panic, s) else (Ok (a * b), s))"

definition mongo_query :: "('s, 'd) mongo_driver \<Rightarrow> mongo_metrics \<Rightarrow> ('s, metrics_error, 'd) action" where
  "mongo_query D m s =
     (case run_command D (g_client m) (g_admin_db m) (doc_lit D [(''serverStatus'', 1)]) s of
        (Inl msg, t) \<Rightarrow> (Err (database_error msg), t)
      | (Inr d, t) \<Rightarrow> (Ok d, t))"

definition publish_connections ::
  "'s prometheus \<Rightarrow> ('s, 'd) mongo_driver \<Rightarrow> mongo_metrics \<Rightarrow> 'd \<Rightarrow> ('s, metrics_error, unit) action" where
  "publish_connections P D m doc =
     (case get_document D doc ''connections'' of
        None \<Rightarrow> ret ()
      | Some conns \<Rightarrow>
          run_all
            [set_int P (g_connections_current m) (get_i64_or_0 D conns ''current''),
             set_int P (g_connections_available m) (get_i64_or_0 D conns ''available''),
             set_int P (g_connections_total m) (get_i64_or_0 D conns ''totalCreated'')])"

definition mongo_ops :: "string list" where
  "mongo_ops = [''insert'', ''query'', ''update'', ''delete'', ''getmore'', ''command'']"

definition publish_opcounters ::
  "'s prometheus \<Rightarrow> ('s, 'd) mongo_driver \<Rightarrow> mongo_metrics \<Rightarrow> 'd \<Rightarrow> ('s, metrics_error, unit) action" where
  "publish_opcounters P D m doc =
     (case get_document D doc ''opcounters'' of
        None \<Rightarrow> ret ()
      | Some ops \<Rightarrow>
          run_all (map (\<lambda>op. set_labelled P (g_opcounters m) [op] (get_i64_or_0 D ops op)) mongo_ops))"

definition publish_network ::
  "'s prometheus \<Rightarrow> ('s, 'd) mongo_driver \<Rightarrow> mongo_metrics \<Rightarrow> 'd \<Rightarrow> ('s, metrics_error, unit) action" where
  "publish_network P D m doc =
     (case get_document D doc ''network'' of
        None \<Rightarrow> ret ()
      | Some net \<Rightarrow>
          run_all
            [set_int P (g_bytes_in m) (get_i64_or_0 D net ''bytesIn''),
             set_int P (g_bytes_out m) (get_i64_or_0 D net ''bytesOut''),
             set_int P (g_requests_in m) (get_i64_or_0 D net ''numRequests'')])"

text \<open>\<open>x * 1024 * 1024\<close>\<close>

definition mb_to_bytes :: "bool \<Rightarrow> i64 \<Rightarrow> ('s, 'e, i64) action" where
  "mb_to_bytes checks x = bind_act (mul_i64 checks x 1024) (\<lambda>y. mul_i64 checks y 1024)"

definition publish_memory ::
  "'s prometheus \<Rightarrow> ('s, 'd) mongo_driver \<Rightarrow> bool \<Rightarrow> mongo_metrics \<Rightarrow> 'd \<Rightarrow> ('s, metrics_error, unit) action" where
  "publish_memory P D checks m doc =
     (case get_document D doc ''mem'' of
        None \<Rightarrow> ret ()
      | Some mem \<Rightarrow>
          run_all
            [bind_act (mb_to_bytes checks (get_i64_or_0 D mem ''resident''))
               (set_int P (g_resident_memory_bytes m)),
             bind_act (mb_to_bytes checks (get_i64_or_0 D mem ''virtual''))
               (set_int P (g_virtual_memory_bytes m))])"

definition publish_wired_tiger ::
  "'s prometheus \<Rightarrow> ('s, 'd) mongo_driver \<Rightarrow> mongo_metrics \<Rightarrow> 'd \<Rightarrow> ('s, metrics_error, unit) action" where
  "publish_wired_tiger P D m doc =
     (case get_document D doc ''wiredTiger'' of
        None \<Rightarrow> ret ()
      | Some wt \<Rightarrow>
          (case get_document D wt ''cache'' of
             None \<Rightarrow> ret ()
           | Some cache \<Rightarrow>
               run_all
                 [set_int P (g_wt_cache_bytes_in_use m) (get_i64_or_0 D cache ''bytes currently in the cache''),
                  set_int P (g_wt_cache_bytes_max m) (get_i64_or_0 D cache ''maximum bytes configured''),
                  set_int P (g_wt_cache_dirty_bytes m) (get_i64_or_0 D cache ''tracked dirty bytes in the cache'')]))"

definition mongo_publish ::
  "'s prometheus \<Rightarrow> ('s, 'd) mongo_driver \<Rightarrow> bool \<Rightarrow> mongo_metrics \<Rightarrow> 'd \<Rightarrow> ('s, metrics_error, unit) action" where
  "mongo_publish P D checks m doc =
     run_all
       [publish_connections P D m doc,
        publish_opcounters P D m doc,
        publish_network P D m doc,
        publish_memory P D checks m doc,
        publish_wired_tiger P D m doc]"

definition mongo_collect ::
  "'s prometheus \<Rightarrow> ('s, 'd) mongo_driver \<Rightarrow> bool \<Rightarrow> mongo_metrics \<Rightarrow> ('s, metrics_error, unit) action" where
  "mongo_collect P D checks m = bind_act (mongo_query D m) (mongo_publish P D checks m)"

subsection \<open>The metrics as a list\<close>

definition mongo_handles :: "mongo_metrics \<Rightarrow> handle list" where
  "mongo_handles m =
     [g_connections_current m,
      g_connections_available m,
      g_connections_total m,
      g_opcounters m,
      g_bytes_in m,
      g_bytes_out m,
      g_requests_in m,
      g_resident_memory_bytes m,
      g_virtual_memory_bytes m,
      g_wt_cache_bytes_in_use m,
      g_wt_cache_bytes_max m,
      g_wt_cache_dirty_bytes m,
      g_op_duration_seconds m]"

definition mongo_specs :: "string \<Rightarrow> metric_spec list" where
  "mongo_specs ns =
     [mongo_gauge ns ''connections_current'' ''Current MongoDB connections'',
      mongo_gauge ns ''connections_available'' ''Available MongoDB connections'',
      mongo_gauge ns ''connections_total'' ''Total MongoDB connections created'',
      mongo_gauge_vec ns ''opcounters_total'' ''MongoDB operation counters (snapshot)'' [''op''],
      mongo_gauge ns ''network_bytes_in_total'' ''Network bytes received'',
      mongo_gauge ns ''network_bytes_out_total'' ''Network bytes sent'',
      mongo_gauge ns ''network_requests_total'' ''Network requests received'',
      mongo_gauge ns ''resident_memory_bytes'' ''Resident memory usage in bytes'',
      mongo_gauge ns ''virtual_memory_bytes'' ''Virtual memory usage in bytes'',
      mongo_gauge ns ''wt_cache_bytes_in_use'' ''WiredTiger cache bytes currently in use'',
      mongo_gauge ns ''wt_cache_bytes_max'' ''WiredTiger cache maximum bytes'',
      mongo_gauge ns ''wt_cache_dirty_bytes'' ''WiredTiger cache dirty bytes'',
      mongo_histogram_vec ns ''op_duration_seconds'' ''Application-level MongoDB operation duration'' [''op''] DEFAULT_QUERY_BUCKETS]"

definition mongo_of :: "handle \<Rightarrow> string \<Rightarrow> handle list \<Rightarrow> mongo_metrics" where
  "mongo_of client admin_db hs =
     \<lparr>g_client = client,
      g_admin_db = admin_db,
      g_connections_current = hs ! 0,
      g_connections_available = hs ! 1,
      g_connections_total = hs ! 2,
      g_opcounters = hs ! 3,
      g_bytes_in = hs ! 4,
      g_bytes_out = hs ! 5,
      g_requests_in = hs ! 6,
      g_resident_memory_bytes = hs ! 7,
      g_virtual_memory_bytes = hs ! 8,
      g_wt_cache_bytes_in_use = hs ! 9,
      g_wt_cache_bytes_max = hs ! 10,
      g_wt_cache_dirty_bytes = hs ! 11,
      g_op_duration_seconds = hs ! 12\<rparr>"

definition mongo_names :: "string list" where
  "mongo_names =
     [''connections_current'', ''connections_available'', ''connections_total'',
      ''opcounters_total'', ''network_bytes_in_total'', ''network_bytes_out_total'',
      ''network_requests_total'', ''resident_memory_bytes'', ''virtual_memory_bytes'',
      ''wt_cache_bytes_in_use'', ''wt_cache_bytes_max'', ''wt_cache_dirty_bytes'',
      ''op_duration_seconds'']"

definition mongo_descs :: "string \<Rightarrow> metric_desc list" where
  "mongo_descs ns = map spec_desc (mongo_specs ns)"

lemmas mongo_macro_defs = mongo_gauge_def mongo_gauge_vec_def mongo_histogram_vec_def

lemma mongo_new_new_all:
  "mongo_new P client admin_db config =
     bind_act (new_all P (mongo_specs (namespace config))) (\<lambda>hs. ret (mongo_of client admin_db hs))"
  by (simp add: mongo_new_def mongo_specs_def mongo_of_def bind_act_assoc Let_def)

lemma mongo_handles_of: "length hs = 13 \<Longrightarrow> mongo_handles (mongo_of client admin_db hs) = hs"
  by (auto simp: mongo_handles_def mongo_of_def length_Suc_conv numeral_eq_Suc)

lemma length_mongo_specs [simp]: "length (mongo_specs ns) = 13"
  by (simp add: mongo_specs_def)

lemma mongo_specs_valid: "valid_namespace ns \<Longrightarrow> \<forall>sp\<in>set (mongo_specs ns). spec_valid sp"
  by (simp add: mongo_specs_def mongo_macro_defs spec_valid_scoped valid_eval query_buckets_sorted)

lemma mongo_new_Ok:
  assumes "prom_ok P V" and "mongo_new P client admin_db config s = (Ok m, t)"
  shows "allocated V s t (mongo_handles m) (mongo_descs (namespace config))"
    and "g_client m = client \<and> g_admin_db m = admin_db"
proof -
  have "allocated V s t (mongo_handles m) (map spec_desc (mongo_specs (namespace config))) \<and>
      (\<exists>hs. m = mongo_of client admin_db hs)"
    using assms(2) unfolding mongo_new_new_all
    by (rule new_struct_Ok [OF assms(1)]) (simp add: mongo_handles_of)
  then show "allocated V s t (mongo_handles m) (mongo_descs (namespace config))"
    and "g_client m = client \<and> g_admin_db m = admin_db"
    by (auto simp: mongo_descs_def mongo_of_def)
qed

lemma mongo_new_valid:
  assumes "prom_ok P V" and "valid_namespace (namespace config)"
  shows "\<exists>m t. mongo_new P client admin_db config s = (Ok m, t)"
  unfolding mongo_new_new_all by (rule new_struct_valid [OF assms(1) mongo_specs_valid [OF assms(2)]])

lemma mongo_desc_names:
  "concat (map d_names (mongo_descs ns)) = map (\<lambda>n. ns_prefix ns @ ''mongo_'' @ n) mongo_names"
  by (simp add: mongo_descs_def mongo_specs_def mongo_macro_defs spec_desc_scoped mongo_names_def)

subsection \<open>Megabytes to bytes\<close>

lemma mul_i64_fits: "fits_i64 (sint a * sint b) \<Longrightarrow> mul_i64 checks a b = ret (a * b)"
  by (rule ext) (simp add: mul_i64_def ret_def)

lemma mul_i64_unchecked: "mul_i64 False a b = ret (a * b)"
  by (rule ext) (simp add: mul_i64_def ret_def)

lemma sint_mul_fits:
  fixes a b :: i64
  assumes "fits_i64 (sint a * sint b)"
  shows "sint (a * b) = sint a * sint b"
  using assms by (simp add: fits_i64_def sint_word_ariths signed_take_bit_int_eq_self)

text \<open>The value a conversion ends with when nothing panics.\<close>

definition mb_bytes :: "i64 \<Rightarrow> i64" where
  "mb_bytes x = x * 1024 * 1024"

text \<open>A size in megabytes is convertible exactly when its bytes are an \<open>i64\<close>.\<close>

definition mb_fits :: "i64 \<Rightarrow> bool" where
  "mb_fits x \<longleftrightarrow> - (2 ^ 43) \<le> sint x \<and> sint x < 2 ^ 43"

lemma mb_fits_bytes: "mb_fits x \<longleftrightarrow> fits_i64 (sint x * 2 ^ 20)"
  by (auto simp: mb_fits_def fits_i64_def)

lemma mb_to_bytes_unchecked: "mb_to_bytes False x = ret (mb_bytes x)"
  by (simp add: mb_to_bytes_def mul_i64_unchecked mb_bytes_def)

lemma sint_1024: "sint (1024 :: i64) = 1024"
  by simp

lemma mb_to_bytes_fits:
  assumes "mb_fits x"
  shows "mb_to_bytes checks x = ret (mb_bytes x)" and "sint (mb_bytes x) = sint x * 2 ^ 20"
proof -
  have a: "fits_i64 (sint x * sint (1024 :: i64))"
    using assms by (simp add: mb_fits_def fits_i64_def)
  have b: "fits_i64 (sint (x * 1024) * sint (1024 :: i64))"
    using assms by (simp add: sint_mul_fits [OF a, unfolded sint_1024] mb_fits_def fits_i64_def)
  show "mb_to_bytes checks x = ret (mb_bytes x)"
    using a b by (simp add: mb_to_bytes_def mul_i64_fits mb_bytes_def)
  show "sint (mb_bytes x) = sint x * 2 ^ 20"
    unfolding mb_bytes_def sint_mul_fits [OF b] sint_mul_fits [OF a] by simp
qed

lemma mb_to_bytes_overflow:
  assumes "\<not> mb_fits x"
  shows "mb_to_bytes True x s = (Panic, s)"
proof (cases "fits_i64 (sint x * sint (1024 :: i64))")
  case True
  then have "\<not> fits_i64 (sint (x * 1024) * sint (1024 :: i64))"
    using assms sint_mul_fits [OF True] by (auto simp: mb_fits_def fits_i64_def)
  with True show ?thesis by (simp add: mb_to_bytes_def mul_i64_def bind_act_def)
next
  case False
  then show ?thesis by (simp add: mb_to_bytes_def mul_i64_def bind_act_def)
qed

subsection \<open>What one poll writes\<close>

lemma mongo_cores:
  assumes "owned M (mongo_handles m) (mongo_descs ns)"
  shows "core_is M (g_connections_current m) IntGauge 0" "core_is M (g_connections_available m) IntGauge 0"
    "core_is M (g_connections_total m) IntGauge 0" "core_is M (g_opcounters m) IntGaugeVec 1"
    "core_is M (g_bytes_in m) IntGauge 0" "core_is M (g_bytes_out m) IntGauge 0"
    "core_is M (g_requests_in m) IntGauge 0" "core_is M (g_resident_memory_bytes m) IntGauge 0"
    "core_is M (g_virtual_memory_bytes m) IntGauge 0" "core_is M (g_wt_cache_bytes_in_use m) IntGauge 0"
    "core_is M (g_wt_cache_bytes_max m) IntGauge 0" "core_is M (g_wt_cache_dirty_bytes m) IntGauge 0"
    "core_is M (g_op_duration_seconds m) HistogramVec 1"
  using assms
  by (simp_all add: mongo_handles_def mongo_descs_def mongo_specs_def mongo_macro_defs spec_desc_def
      owned_Cons core_is_def)

definition conn_assigns :: "('s, 'd) mongo_driver \<Rightarrow> mongo_metrics \<Rightarrow> 'd \<Rightarrow> assignment list" where
  "conn_assigns D m doc =
     (case get_document D doc ''connections'' of
        None \<Rightarrow> []
      | Some d \<Rightarrow>
          [(plain (g_connections_current m), IntV (get_i64_or_0 D d ''current'')),
           (plain (g_connections_available m), IntV (get_i64_or_0 D d ''available'')),
           (plain (g_connections_total m), IntV (get_i64_or_0 D d ''totalCreated''))])"

definition ops_assigns :: "('s, 'd) mongo_driver \<Rightarrow> mongo_metrics \<Rightarrow> 'd \<Rightarrow> assignment list" where
  "ops_assigns D m doc =
     (case get_document D doc ''opcounters'' of
        None \<Rightarrow> []
      | Some d \<Rightarrow> map (\<lambda>op. ((g_opcounters m, [op]), IntV (get_i64_or_0 D d op))) mongo_ops)"

definition net_assigns :: "('s, 'd) mongo_driver \<Rightarrow> mongo_metrics \<Rightarrow> 'd \<Rightarrow> assignment list" where
  "net_assigns D m doc =
     (case get_document D doc ''network'' of
        None \<Rightarrow> []
      | Some d \<Rightarrow>
          [(plain (g_bytes_in m), IntV (get_i64_or_0 D d ''bytesIn'')),
           (plain (g_bytes_out m), IntV (get_i64_or_0 D d ''bytesOut'')),
           (plain (g_requests_in m), IntV (get_i64_or_0 D d ''numRequests''))])"

definition mem_assigns :: "('s, 'd) mongo_driver \<Rightarrow> mongo_metrics \<Rightarrow> 'd \<Rightarrow> assignment list" where
  "mem_assigns D m doc =
     (case get_document D doc ''mem'' of
        None \<Rightarrow> []
      | Some d \<Rightarrow>
          [(plain (g_resident_memory_bytes m), IntV (mb_bytes (get_i64_or_0 D d ''resident''))),
           (plain (g_virtual_memory_bytes m), IntV (mb_bytes (get_i64_or_0 D d ''virtual'')))])"

text \<open>The document of the WiredTiger cache, one level deeper than the others.\<close>

definition wt_document :: "('s, 'd) mongo_driver \<Rightarrow> 'd \<Rightarrow> 'd option" where
  "wt_document D doc =
     Option.bind (get_document D doc ''wiredTiger'') (\<lambda>wt. get_document D wt ''cache'')"

definition wt_assigns :: "('s, 'd) mongo_driver \<Rightarrow> mongo_metrics \<Rightarrow> 'd \<Rightarrow> assignment list" where
  "wt_assigns D m doc =
     (case wt_document D doc of
        None \<Rightarrow> []
      | Some d \<Rightarrow>
          [(plain (g_wt_cache_bytes_in_use m), IntV (get_i64_or_0 D d ''bytes currently in the cache'')),
           (plain (g_wt_cache_bytes_max m), IntV (get_i64_or_0 D d ''maximum bytes configured'')),
           (plain (g_wt_cache_dirty_bytes m), IntV (get_i64_or_0 D d ''tracked dirty bytes in the cache''))])"

definition mongo_assigns :: "('s, 'd) mongo_driver \<Rightarrow> mongo_metrics \<Rightarrow> 'd \<Rightarrow> assignment list" where
  "mongo_assigns D m doc =
     concat [conn_assigns D m doc, ops_assigns D m doc, net_assigns D m doc, mem_assigns D m doc,
       wt_assigns D m doc]"

text \<open>The memory section of a document does not overflow.\<close>

definition mem_fits :: "('s, 'd) mongo_driver \<Rightarrow> 'd \<Rightarrow> bool" where
  "mem_fits D doc \<longleftrightarrow>
     (case get_document D doc ''mem'' of
        None \<Rightarrow> True
      | Some d \<Rightarrow> mb_fits (get_i64_or_0 D d ''resident'') \<and> mb_fits (get_i64_or_0 D d ''virtual''))"

lemma publish_wired_tiger_document:
  "publish_wired_tiger P D m doc =
     (case wt_document D doc of
        None \<Rightarrow> ret ()
      | Some cache \<Rightarrow>
          run_all
            [set_int P (g_wt_cache_bytes_in_use m) (get_i64_or_0 D cache ''bytes currently in the cache''),
             set_int P (g_wt_cache_bytes_max m) (get_i64_or_0 D cache ''maximum bytes configured''),
             set_int P (g_wt_cache_dirty_bytes m) (get_i64_or_0 D cache ''tracked dirty bytes in the cache'')])"
  by (simp add: publish_wired_tiger_def wt_document_def split: option.splits)

lemma mb_to_bytes_nocheck:
  "\<not> checks \<or> mb_fits x \<Longrightarrow> mb_to_bytes checks x = ret (mb_bytes x)"
  using mb_to_bytes_fits(1) mb_to_bytes_unchecked by (cases checks) auto

lemma publish_head_writes:
  assumes P: "prom_ok P V" and own: "owned M (mongo_handles m) (mongo_descs ns)"
  shows "writes V M (publish_connections P D m doc) (conn_assigns D m doc)"
    and "writes V M (publish_opcounters P D m doc) (ops_assigns D m doc)"
    and "writes V M (publish_network P D m doc) (net_assigns D m doc)"
    and "writes V M (publish_wired_tiger P D m doc) (wt_assigns D m doc)"
proof -
  note cores = mongo_cores [OF own] and int = writes_set_int [OF P]
  show "writes V M (publish_connections P D m doc) (conn_assigns D m doc)"
    unfolding publish_connections_def conn_assigns_def
    by (intro writes_option writes_run_all_singles) (simp add: int [OF cores(1)] int [OF cores(2)] int [OF cores(3)])
  show "writes V M (publish_opcounters P D m doc) (ops_assigns D m doc)"
    unfolding publish_opcounters_def ops_assigns_def
    by (intro writes_option writes_run_all_singles)
      (simp add: list_all2_conv_all_nth writes_set_labelled [OF P cores(4)])
  show "writes V M (publish_network P D m doc) (net_assigns D m doc)"
    unfolding publish_network_def net_assigns_def
    by (intro writes_option writes_run_all_singles) (simp add: int [OF cores(5)] int [OF cores(6)] int [OF cores(7)])
  show "writes V M (publish_wired_tiger P D m doc) (wt_assigns D m doc)"
    unfolding publish_wired_tiger_document wt_assigns_def
    by (intro writes_option writes_run_all_singles) (simp add: int [OF cores(10)] int [OF cores(11)] int [OF cores(12)])
qed

lemma publish_memory_writes:
  assumes P: "prom_ok P V" and own: "owned M (mongo_handles m) (mongo_descs ns)"
    and fits: "\<not> checks \<or> mem_fits D doc"
  shows "writes V M (publish_memory P D checks m doc) (mem_assigns D m doc)"
proof -
  note int = writes_set_int [OF P]
  note cores = mongo_cores(8,9) [OF own]
  show ?thesis
    using fits unfolding publish_memory_def mem_assigns_def
    by (intro writes_option writes_run_all_singles)
      (simp add: mem_fits_def mb_to_bytes_nocheck int [OF cores(1)] int [OF cores(2)])
qed

lemma mongo_publish_writes:
  assumes P: "prom_ok P V" and own: "owned M (mongo_handles m) (mongo_descs ns)"
    and fits: "\<not> checks \<or> mem_fits D doc"
  shows "writes V M (mongo_publish P D checks m doc) (mongo_assigns D m doc)"
  unfolding mongo_publish_def mongo_assigns_def
  by (rule writes_run_all) (simp add: publish_head_writes [OF P own] publish_memory_writes [OF P own fits])

text \<open>What a gauge shows after a poll: its field of the section, its old value without one.\<close>

definition shown :: "('s, 'd) mongo_driver \<Rightarrow> 'd option \<Rightarrow> string \<Rightarrow> metric_value \<Rightarrow> metric_value" where
  "shown D sec key old = (case sec of None \<Rightarrow> old | Some d \<Rightarrow> IntV (get_i64_or_0 D d key))"

definition shown_mb :: "('s, 'd) mongo_driver \<Rightarrow> 'd option \<Rightarrow> string \<Rightarrow> metric_value \<Rightarrow> metric_value" where
  "shown_mb D sec key old = (case sec of None \<Rightarrow> old | Some d \<Rightarrow> IntV (mb_bytes (get_i64_or_0 D d key)))"

lemma apply_conn:
  assumes "distinct [g_connections_current m, g_connections_available m, g_connections_total m]" and "g = apply_writes (conn_assigns D m doc) f"
  shows "g (plain (g_connections_current m)) = shown D (get_document D doc ''connections'') ''current'' (f (plain (g_connections_current m)))"
    "g (plain (g_connections_available m)) = shown D (get_document D doc ''connections'') ''available'' (f (plain (g_connections_available m)))"
    "g (plain (g_connections_total m)) = shown D (get_document D doc ''connections'') ''totalCreated'' (f (plain (g_connections_total m)))"
    "fst sr \<notin> {g_connections_current m, g_connections_available m, g_connections_total m} \<Longrightarrow> g sr = f sr"
  using assms by (auto simp: conn_assigns_def shown_def plain_def split: option.splits)

lemma apply_writes_labels:
  "apply_writes (map (\<lambda>l. ((h, [l]), v l)) ls) f (h, [l]) = (if l \<in> set ls then v l else f (h, [l]))"
  "fst sr \<noteq> h \<Longrightarrow> apply_writes (map (\<lambda>l. ((h, [l]), v l)) ls) f sr = f sr"
  by (induction ls rule: rev_induct) auto

lemma apply_ops:
  assumes "g = apply_writes (ops_assigns D m doc) f"
  shows "op \<in> set mongo_ops \<Longrightarrow> g (g_opcounters m, [op]) = shown D (get_document D doc ''opcounters'') op (f (g_opcounters m, [op]))"
    "fst sr \<noteq> g_opcounters m \<Longrightarrow> g sr = f sr"
    "op \<notin> set mongo_ops \<Longrightarrow> g (g_opcounters m, [op]) = f (g_opcounters m, [op])"
  using assms
  by (auto simp: ops_assigns_def shown_def apply_writes_labels split: option.splits)

lemma apply_net:
  assumes "distinct [g_bytes_in m, g_bytes_out m, g_requests_in m]" and "g = apply_writes (net_assigns D m doc) f"
  shows "g (plain (g_bytes_in m)) = shown D (get_document D doc ''network'') ''bytesIn'' (f (plain (g_bytes_in m)))"
    "g (plain (g_bytes_out m)) = shown D (get_document D doc ''network'') ''bytesOut'' (f (plain (g_bytes_out m)))"
    "g (plain (g_requests_in m)) = shown D (get_document D doc ''network'') ''numRequests'' (f (plain (g_requests_in m)))"
    "fst sr \<notin> {g_bytes_in m, g_bytes_out m, g_requests_in m} \<Longrightarrow> g sr = f sr"
  using assms by (auto simp: net_assigns_def shown_def plain_def split: option.splits)

lemma apply_mem:
  assumes "distinct [g_resident_memory_bytes m, g_virtual_memory_bytes m]" and "g = apply_writes (mem_assigns D m doc) f"
  shows "g (plain (g_resident_memory_bytes m)) = shown_mb D (get_document D doc ''mem'') ''resident'' (f (plain (g_resident_memory_bytes m)))"
    "g (plain (g_virtual_memory_bytes m)) = shown_mb D (get_document D doc ''mem'') ''virtual'' (f (plain (g_virtual_memory_bytes m)))"
    "fst sr \<notin> {g_resident_memory_bytes m, g_virtual_memory_bytes m} \<Longrightarrow> g sr = f sr"
  using assms by (auto simp: mem_assigns_def shown_mb_def plain_def split: option.splits)

lemma apply_wt:
  assumes "distinct [g_wt_cache_bytes_in_use m, g_wt_cache_bytes_max m, g_wt_cache_dirty_bytes m]" and "g = apply_writes (wt_assigns D m doc) f"
  shows "g (plain (g_wt_cache_bytes_in_use m)) = shown D (wt_document D doc) ''bytes currently in the cache'' (f (plain (g_wt_cache_bytes_in_use m)))"
    "g (plain (g_wt_cache_bytes_max m)) = shown D (wt_document D doc) ''maximum bytes configured'' (f (plain (g_wt_cache_bytes_max m)))"
    "g (plain (g_wt_cache_dirty_bytes m)) = shown D (wt_document D doc) ''tracked dirty bytes in the cache'' (f (plain (g_wt_cache_dirty_bytes m)))"
    "fst sr \<notin> {g_wt_cache_bytes_in_use m, g_wt_cache_bytes_max m, g_wt_cache_dirty_bytes m} \<Longrightarrow> g sr = f sr"
  using assms by (auto simp: wt_assigns_def shown_def plain_def split: option.splits)

lemma mongo_assigns_values:
  assumes d: "distinct (mongo_handles m)" and g: "g = apply_writes (mongo_assigns D m doc) f"
  shows "g (plain (g_connections_current m)) = shown D (get_document D doc ''connections'') ''current'' (f (plain (g_connections_current m)))"
    "g (plain (g_connections_available m)) = shown D (get_document D doc ''connections'') ''available'' (f (plain (g_connections_available m)))"
    "g (plain (g_connections_total m)) = shown D (get_document D doc ''connections'') ''totalCreated'' (f (plain (g_connections_total m)))"
    "op \<in> set mongo_ops \<Longrightarrow> g (g_opcounters m, [op]) = shown D (get_document D doc ''opcounters'') op (f (g_opcounters m, [op]))"
    "g (plain (g_bytes_in m)) = shown D (get_document D doc ''network'') ''bytesIn'' (f (plain (g_bytes_in m)))"
    "g (plain (g_bytes_out m)) = shown D (get_document D doc ''network'') ''bytesOut'' (f (plain (g_bytes_out m)))"
    "g (plain (g_requests_in m)) = shown D (get_document D doc ''network'') ''numRequests'' (f (plain (g_requests_in m)))"
    "g (plain (g_resident_memory_bytes m)) = shown_mb D (get_document D doc ''mem'') ''resident'' (f (plain (g_resident_memory_bytes m)))"
    "g (plain (g_virtual_memory_bytes m)) = shown_mb D (get_document D doc ''mem'') ''virtual'' (f (plain (g_virtual_memory_bytes m)))"
    "g (plain (g_wt_cache_bytes_in_use m)) = shown D (wt_document D doc) ''bytes currently in the cache'' (f (plain (g_wt_cache_bytes_in_use m)))"
    "g (plain (g_wt_cache_bytes_max m)) = shown D (wt_document D doc) ''maximum bytes configured'' (f (plain (g_wt_cache_bytes_max m)))"
    "g (plain (g_wt_cache_dirty_bytes m)) = shown D (wt_document D doc) ''tracked dirty bytes in the cache'' (f (plain (g_wt_cache_dirty_bytes m)))"
    "g (g_op_duration_seconds m, ls) = f (g_op_duration_seconds m, ls)"
    "fst sr \<notin> set (mongo_handles m) \<Longrightarrow> g sr = f sr"
proof -
  have d': "distinct (rev (mongo_handles m))" using d by simp
  have c: "distinct [g_connections_current m, g_connections_available m, g_connections_total m]"
    and n: "distinct [g_bytes_in m, g_bytes_out m, g_requests_in m]"
    and k: "distinct [g_resident_memory_bytes m, g_virtual_memory_bytes m]"
    and w: "distinct [g_wt_cache_bytes_in_use m, g_wt_cache_bytes_max m, g_wt_cache_dirty_bytes m]"
    using d by (simp_all add: mongo_handles_def)
  note frames = apply_conn(4) [OF c refl] apply_ops(2) [OF refl] apply_net(4) [OF n refl] apply_mem(3) [OF k refl]
    apply_wt(4) [OF w refl]
  note vals = apply_conn(1-3) [OF c refl] apply_ops(1) [OF refl] apply_net(1-3) [OF n refl] apply_mem(1,2) [OF k refl]
    apply_wt(1-3) [OF w refl]
  note simps = g mongo_assigns_def frames vals
  show "g (plain (g_connections_current m)) = shown D (get_document D doc ''connections'') ''current'' (f (plain (g_connections_current m)))"
    "g (plain (g_connections_available m)) = shown D (get_document D doc ''connections'') ''available'' (f (plain (g_connections_available m)))"
    "g (plain (g_connections_total m)) = shown D (get_document D doc ''connections'') ''totalCreated'' (f (plain (g_connections_total m)))"
    "op \<in> set mongo_ops \<Longrightarrow> g (g_opcounters m, [op]) = shown D (get_document D doc ''opcounters'') op (f (g_opcounters m, [op]))"
    "g (plain (g_bytes_in m)) = shown D (get_document D doc ''network'') ''bytesIn'' (f (plain (g_bytes_in m)))"
    "g (plain (g_bytes_out m)) = shown D (get_document D doc ''network'') ''bytesOut'' (f (plain (g_bytes_out m)))"
    "g (plain (g_requests_in m)) = shown D (get_document D doc ''network'') ''numRequests'' (f (plain (g_requests_in m)))"
    "g (plain (g_resident_memory_bytes m)) = shown_mb D (get_document D doc ''mem'') ''resident'' (f (plain (g_resident_memory_bytes m)))"
    "g (plain (g_virtual_memory_bytes m)) = shown_mb D (get_document D doc ''mem'') ''virtual'' (f (plain (g_virtual_memory_bytes m)))"
    "g (plain (g_wt_cache_bytes_in_use m)) = shown D (wt_document D doc) ''bytes currently in the cache'' (f (plain (g_wt_cache_bytes_in_use m)))"
    "g (plain (g_wt_cache_bytes_max m)) = shown D (wt_document D doc) ''maximum bytes configured'' (f (plain (g_wt_cache_bytes_max m)))"
    "g (plain (g_wt_cache_dirty_bytes m)) = shown D (wt_document D doc) ''tracked dirty bytes in the cache'' (f (plain (g_wt_cache_dirty_bytes m)))"
    "g (g_op_duration_seconds m, ls) = f (g_op_duration_seconds m, ls)"
    using d d' by (simp_all add: mongo_handles_def simps fst_plain)
  show "fst sr \<notin> set (mongo_handles m) \<Longrightarrow> g sr = f sr"
    by (simp add: mongo_handles_def simps)
qed

subsection \<open>The contract of the trait\<close>

definition server_status :: "('s, 'd) mongo_driver \<Rightarrow> mongo_metrics \<Rightarrow> 's \<Rightarrow> string + 'd" where
  "server_status D m s =
     fst (run_command D (g_client m) (g_admin_db m) (doc_lit D [(''serverStatus'', 1)]) s)"

text \<open>The driver does not touch the metrics.\<close>

definition mongo_quiet :: "('s, 'd) mongo_driver \<Rightarrow> 's prom_view \<Rightarrow> bool" where
  "mongo_quiet D V \<longleftrightarrow> (\<forall>c db cmd s. same V s (snd (run_command D c db cmd s)))"

definition mongo_env :: "('s, 'd) mongo_driver \<Rightarrow> bool \<Rightarrow> mongo_metrics \<Rightarrow> 's prom_view \<Rightarrow> bool" where
  "mongo_env D checks m V \<longleftrightarrow>
     mongo_quiet D V \<and> (checks \<longrightarrow> (\<forall>s doc. server_status D m s = Inr doc \<longrightarrow> mem_fits D doc))"

lemma mongo_query_cases:
  assumes "mongo_quiet D V"
  obtains (ok) doc u where "server_status D m s = Inr doc" "mongo_query D m s = (Ok doc, u)" "same V s u"
  | (failed) msg u where "server_status D m s = Inl msg" "mongo_query D m s = (Err (Database msg), u)" "same V s u"
proof -
  obtain x u where x: "run_command D (g_client m) (g_admin_db m) (doc_lit D [(''serverStatus'', 1)]) s = (x, u)"
    by (cases "run_command D (g_client m) (g_admin_db m) (doc_lit D [(''serverStatus'', 1)]) s")
  then have "same V s u" using assms by (metis mongo_quiet_def snd_conv)
  with x that show ?thesis
    by (cases x) (auto simp: server_status_def mongo_query_def database_error_def)
qed

lemma mongo_collect_cases:
  assumes P: "prom_ok P V" and E: "mongo_quiet D V"
    and own: "owned (meta V s) (mongo_handles m) (mongo_descs ns)"
    and fits: "\<And>doc. server_status D m s = Inr doc \<Longrightarrow> \<not> checks \<or> mem_fits D doc"
    and run: "mongo_collect P D checks m s = (res, t)"
  obtains (ok) doc where "server_status D m s = Inr doc" "res = Ok ()"
      "meta V t = meta V s" "regs V t = regs V s"
      "val V t = apply_writes (mongo_assigns D m doc) (val V s)"
  | (failed) msg where "server_status D m s = Inl msg" "res = Err (Database msg)" "same V s t"
  using E
proof (cases rule: mongo_query_cases [where m = m and s = s])
  case (ok doc u)
  have "writes V (meta V u) (mongo_publish P D checks m doc) (mongo_assigns D m doc)"
    using mongo_publish_writes [OF P own fits [OF ok(1)]] ok(3) by (simp add: same_def)
  moreover have "mongo_publish P D checks m doc u = (res, t)"
    using run ok(2) by (simp add: mongo_collect_def bind_act_of_Ok)
  ultimately show ?thesis
    using writesD [of V u "mongo_publish P D checks m doc"] ok that(1) [of doc] by (simp add: same_def)
next
  case (failed msg u)
  with run have "res = Err (Database msg)" "t = u"
    by (simp_all add: mongo_collect_def bind_act_of_Err)
  with failed that(2) show ?thesis by simp
qed

lemma mongo_assigns_frame:
  "fst sr \<notin> set (mongo_handles m) \<Longrightarrow> apply_writes (mongo_assigns D m doc) f sr = f sr"
  by (rule apply_writes_other)
    (auto simp: mongo_assigns_def conn_assigns_def ops_assigns_def net_assigns_def mem_assigns_def
      wt_assigns_def plain_def mongo_handles_def split: option.splits)

interpretation mongo: metrics_collector mongo_name "\<lambda>P. mongo_register P m"
    "\<lambda>P. mongo_collect P D checks m" "mongo_handles m" "mongo_descs ns" "mongo_env D checks m"
  for m :: mongo_metrics and D :: "('s, 'd) mongo_driver" and checks :: bool and ns :: string
proof (unfold_locales, goal_cases)
  case (1 P V s r rs res t)
  then show ?case
    using register_metrics_registered [OF 1(1,3) owned_dom [OF 1(2)]]
    by (simp add: mongo_register_def mongo_handles_def)
next
  case (2 P V s res t)
  then have "mongo_quiet D V" "\<And>doc. server_status D m s = Inr doc \<Longrightarrow> \<not> checks \<or> mem_fits D doc"
    by (auto simp: mongo_env_def)
  from 2(1) this(1) 2(3) this(2) 2(4) show ?case
    by (cases rule: mongo_collect_cases) (auto simp: mongo_assigns_frame same_def)
qed

subsection \<open>Overflow\<close>

lemma publish_memory_panics:
  assumes P: "prom_ok P V" and own: "owned (meta V s) (mongo_handles m) (mongo_descs ns)"
    and big: "\<not> mem_fits D doc"
  shows "\<exists>t. publish_memory P D True m doc s = (Panic, t)"
proof -
  obtain d where d: "get_document D doc ''mem'' = Some d"
    and b: "\<not> mb_fits (get_i64_or_0 D d ''resident'') \<or> \<not> mb_fits (get_i64_or_0 D d ''virtual'')"
    using big by (auto simp: mem_fits_def split: option.splits)
  show ?thesis
  proof (cases "mb_fits (get_i64_or_0 D d ''resident'')")
    case True
    obtain u where "set_int P (g_resident_memory_bytes m) (mb_bytes (get_i64_or_0 D d ''resident'')) s =
        (Ok () :: (metrics_error, unit) outcome, u)"
      using writes_set_int [OF P mongo_cores(8) [OF own]] by (auto simp: writes_def)
    with True b d show ?thesis
      by (simp add: publish_memory_def mb_to_bytes_fits(1) bind_act_of_Ok bind_act_of_Panic
          mb_to_bytes_overflow)
  next
    case False
    then show ?thesis
      by (simp add: publish_memory_def d bind_act_of_Panic mb_to_bytes_overflow)
  qed
qed

lemma mongo_collect_panics:
  assumes P: "prom_ok P V" and E: "mongo_quiet D V"
    and own: "owned (meta V s) (mongo_handles m) (mongo_descs ns)"
    and doc: "server_status D m s = Inr doc" and big: "\<not> mem_fits D doc"
  shows "\<exists>t. mongo_collect P D True m s = (Panic, t)"
proof -
  obtain u where u: "mongo_query D m s = (Ok doc, u)" "same V s u"
    using E doc by (cases rule: mongo_query_cases [where m = m and s = s]) auto
  note w = publish_head_writes [OF P own, of D doc]
  obtain u1 where 1: "publish_connections P D m doc u = (Ok (), u1)" "meta V u1 = meta V s"
    using w(1) u by (auto simp: writes_def same_def)
  obtain u2 where 2: "publish_opcounters P D m doc u1 = (Ok (), u2)" "meta V u2 = meta V s"
    using w(2) 1 by (auto simp: writes_def)
  obtain u3 where 3: "publish_network P D m doc u2 = (Ok (), u3)" "meta V u3 = meta V s"
    using w(3) 2 by (auto simp: writes_def)
  obtain u4 where "publish_memory P D True m doc u3 = (Panic, u4)"
    using publish_memory_panics [OF P _ big, of u3 m ns] own 3 by auto
  with 1 2 3 u show ?thesis
    by (simp add: mongo_collect_def mongo_publish_def bind_act_of_Ok bind_act_of_Panic)
qed

subsection \<open>A server for the examples\<close>

datatype bson = BInt32 int | BInt64 i64 | BDoc "(string \<times> bson) list"

fun bson_document :: "bson \<Rightarrow> string \<Rightarrow> bson option" where
  "bson_document (BDoc kvs) key = (case map_of kvs key of Some (BDoc d) \<Rightarrow> Some (BDoc d) | _ \<Rightarrow> None)"
| "bson_document _ key = None"

fun bson_i64 :: "bson \<Rightarrow> string \<Rightarrow> i64 option" where
  "bson_i64 (BDoc kvs) key = (case map_of kvs key of Some (BInt64 v) \<Rightarrow> Some v | _ \<Rightarrow> None)"
| "bson_i64 _ key = None"

definition demo_mongo_driver :: "(string + bson) \<Rightarrow> ('s, bson) mongo_driver" where
  "demo_mongo_driver answer =
     \<lparr>doc_lit = (\<lambda>kvs. BDoc (map (\<lambda>(k, n). (k, BInt32 n)) kvs)),
      run_command = (\<lambda>_ _ _ s. (answer, s)),
      get_document = bson_document, get_i64 = bson_i64\<rparr>"

definition demo_status :: "i64 \<Rightarrow> bson" where
  "demo_status resident =
     BDoc
       [(''connections'', BDoc [(''current'', BInt32 42), (''totalCreated'', BInt64 7)]),
        (''opcounters'', BDoc [(''insert'', BInt64 3)]),
        (''mem'', BDoc [(''resident'', BInt64 resident)]),
        (''wiredTiger'', BDoc [(''cache'', BDoc [(''maximum bytes configured'', BInt64 99)])])]"

definition demo_mongo :: mongo_metrics where
  "demo_mongo = mongo_of 0 ''admin'' [1..<14]"

definition demo_mongo_world :: ref_world where
  "demo_mongo_world = world_of (zip [1..<14] (mongo_descs ''myapp''))"

lemma demo_mongo_quiet: "mongo_quiet (demo_mongo_driver answer) V"
  by (simp add: mongo_quiet_def demo_mongo_driver_def same_def)

lemma demo_mongo_status: "server_status (demo_mongo_driver answer) m s = answer"
  by (simp add: server_status_def demo_mongo_driver_def)

lemma demo_mongo_handles: "mongo_handles demo_mongo = [1..<14]"
  by (simp add: demo_mongo_def mongo_handles_of)

lemma demo_mongo_owned:
  "owned (meta ref_view demo_mongo_world) (mongo_handles demo_mongo) (mongo_descs ''myapp'')"
  unfolding demo_mongo_handles ref_view_sel demo_mongo_world_def world_of_def ref_world.simps
  by (rule owned_map_of_zip) (simp_all add: mongo_descs_def del: upt_Suc)

subsection \<open>Properties\<close>

text \<open>
  C26: for every namespace that is empty or a valid metric name, \<open>MongoMetrics::new\<close>
  succeeds and allocates thirteen distinct fresh metrics with the expected descriptors, named
  \<open><ns>_mongo_<name>\<close>; no metric that existed before is changed.
\<close>

theorem mongo_new_total:
  assumes "prom_ok P V" and "valid_namespace (namespace config)"
  shows "\<exists>m t. mongo_new P client admin_db config s = (Ok m, t) \<and>
     g_client m = client \<and> g_admin_db m = admin_db \<and>
     allocated V s t (mongo_handles m) (mongo_descs (namespace config)) \<and>
     names_of (meta V t) (mongo_handles m) =
       map (\<lambda>n. ns_prefix (namespace config) @ ''mongo_'' @ n) mongo_names"
proof -
  obtain m t where mt: "mongo_new P client admin_db config s = (Ok m, t)"
    using mongo_new_valid [OF assms] by blast
  note al = mongo_new_Ok [OF assms(1) mt]
  have "names_of (meta V t) (mongo_handles m) =
      map (\<lambda>n. ns_prefix (namespace config) @ ''mongo_'' @ n) mongo_names"
    using names_of_owned [OF allocated_owned [OF al(1)]] by (simp add: mongo_desc_names)
  with mt al show ?thesis by blast
qed

theorem mongo_new_total_witness:
  "\<exists>m t. mongo_new ref_prom 7 ''admin'' (default_config\<lparr>namespace := ''myapp''\<rparr>) empty_world = (Ok m, t) \<and>
     g_admin_db m = ''admin'' \<and> length (names_of (meta ref_view t) (mongo_handles m)) = 13"
proof -
  have "valid_namespace (namespace (default_config\<lparr>namespace := ''myapp''\<rparr>))"
    by (simp add: valid_namespace_def valid_eval)
  from mongo_new_total [OF ref_prom_ok this, of 7 "''admin''" empty_world] show ?thesis
    by (auto simp: mongo_names_def)
qed

text \<open>
  C6: a poll that gets a document whose memory sizes fit in an \<open>i64\<close> (or, without overflow
  checks, any document) succeeds.  A section that is missing leaves its gauges as they were; in
  a section that is there, a field that is missing or is not a 64-bit integer is published as 0.
\<close>

theorem mongo_poll_success:
  assumes P: "prom_ok P V" and D: "mongo_quiet D V"
    and own: "owned (meta V s) (mongo_handles m) (mongo_descs ns)"
    and doc: "server_status D m s = Inr doc"
    and fits: "checks \<Longrightarrow> mem_fits D doc"
  shows "\<exists>t. mongo_collect P D checks m s = (Ok (), t) \<and>
    (let conns = get_document D doc ''connections''; ops = get_document D doc ''opcounters'';
         net = get_document D doc ''network''; mem = get_document D doc ''mem'';
         cache = wt_document D doc;
         old = (\<lambda>h. val V s (plain h)); now = (\<lambda>h. val V t (plain h)) in
       now (g_connections_current m) = shown D conns ''current'' (old (g_connections_current m)) \<and>
       now (g_connections_available m) = shown D conns ''available'' (old (g_connections_available m)) \<and>
       now (g_connections_total m) = shown D conns ''totalCreated'' (old (g_connections_total m)) \<and>
       (\<forall>op\<in>set mongo_ops.
          val V t (g_opcounters m, [op]) = shown D ops op (val V s (g_opcounters m, [op]))) \<and>
       now (g_bytes_in m) = shown D net ''bytesIn'' (old (g_bytes_in m)) \<and>
       now (g_bytes_out m) = shown D net ''bytesOut'' (old (g_bytes_out m)) \<and>
       now (g_requests_in m) = shown D net ''numRequests'' (old (g_requests_in m)) \<and>
       now (g_resident_memory_bytes m) = shown_mb D mem ''resident'' (old (g_resident_memory_bytes m)) \<and>
       now (g_virtual_memory_bytes m) = shown_mb D mem ''virtual'' (old (g_virtual_memory_bytes m)) \<and>
       now (g_wt_cache_bytes_in_use m) =
         shown D cache ''bytes currently in the cache'' (old (g_wt_cache_bytes_in_use m)) \<and>
       now (g_wt_cache_bytes_max m) =
         shown D cache ''maximum bytes configured'' (old (g_wt_cache_bytes_max m)) \<and>
       now (g_wt_cache_dirty_bytes m) =
         shown D cache ''tracked dirty bytes in the cache'' (old (g_wt_cache_dirty_bytes m))) \<and>
    (\<forall>ls. val V t (g_op_duration_seconds m, ls) = val V s (g_op_duration_seconds m, ls)) \<and>
    (\<forall>sr. fst sr \<notin> set (mongo_handles m) \<longrightarrow> val V t sr = val V s sr) \<and>
    meta V t = meta V s \<and> regs V t = regs V s"
proof -
  obtain res t where t: "mongo_collect P D checks m s = (res, t)" by (cases "mongo_collect P D checks m s")
  have d: "distinct (mongo_handles m)" using own by (simp add: owned_def)
  have f: "\<And>doc'. server_status D m s = Inr doc' \<Longrightarrow> \<not> checks \<or> mem_fits D doc'"
    using doc fits by auto
  show ?thesis
  proof (rule mongo_collect_cases [OF P D own f t])
    fix doc'
    assume ok: "server_status D m s = Inr doc'" "res = Ok ()" "meta V t = meta V s" "regs V t = regs V s"
      "val V t = apply_writes (mongo_assigns D m doc') (val V s)"
    have "doc' = doc" using ok(1) doc by simp
    with ok(5) have v: "val V t = apply_writes (mongo_assigns D m doc) (val V s)" by (simp only:)
    from ok(2-4) t mongo_assigns_values [OF d v] show ?thesis
      by (simp add: Let_def)
  next
    fix msg
    assume "server_status D m s = Inl msg"
    with doc have False by simp
    then show ?thesis ..
  qed
qed

theorem mongo_poll_success_witness:
  "\<exists>t. mongo_collect ref_prom (demo_mongo_driver (Inr (demo_status 512))) True demo_mongo demo_mongo_world = (Ok (), t) \<and>
     val ref_view t (plain (g_connections_current demo_mongo)) = IntV 0 \<and>
     val ref_view t (plain (g_connections_total demo_mongo)) = IntV 7 \<and>
     val ref_view t (g_opcounters demo_mongo, [''insert'']) = IntV 3 \<and>
     val ref_view t (plain (g_resident_memory_bytes demo_mongo)) = IntV 536870912 \<and>
     val ref_view t (plain (g_wt_cache_bytes_max demo_mongo)) = IntV 99"
proof -
  have "mem_fits (demo_mongo_driver (Inr (demo_status 512))) (demo_status 512)"
    by (simp add: mem_fits_def demo_mongo_driver_def demo_status_def get_i64_or_0_def mb_fits_def)
  from mongo_poll_success [where checks = True, OF ref_prom_ok demo_mongo_quiet demo_mongo_owned demo_mongo_status this]
  show ?thesis
    by (rule ex_forward)
      (simp add: demo_mongo_driver_def demo_status_def shown_def shown_mb_def get_i64_or_0_def
        wt_document_def mongo_ops_def mb_bytes_def Let_def)
qed

text \<open>
  A poll whose command fails returns the driver's message as a database error and has
  changed no metric at all.
\<close>

theorem mongo_poll_failure:
  assumes "prom_ok P V" and "mongo_quiet D V" and "server_status D m s = Inl msg"
  shows "\<exists>t. mongo_collect P D checks m s = (Err (Database msg), t) \<and> same V s t"
proof -
  from assms(2) obtain u where "mongo_query D m s = (Err (Database msg), u)" "same V s u"
    by (cases rule: mongo_query_cases [where m = m and s = s]) (use assms(3) in auto)
  then show ?thesis by (simp add: mongo_collect_def bind_act_of_Err)
qed

theorem mongo_poll_failure_witness:
  "\<exists>t. mongo_collect ref_prom (demo_mongo_driver (Inl ''unauthorized'')) True demo_mongo demo_mongo_world =
     (Err (Database ''unauthorized''), t)"
  using mongo_poll_failure [OF ref_prom_ok demo_mongo_quiet demo_mongo_status] by blast

text \<open>
  C27: the conversion \<open>x * 1024 * 1024\<close> is exact whenever the number of bytes is an
  \<open>i64\<close>, in both profiles; for larger sizes it wraps without overflow checks and panics
  with them.
\<close>

theorem mb_to_bytes_bounds:
  "mb_to_bytes checks x s =
     (if checks \<and> \<not> fits_i64 (sint x * 2 ^ 20) then (Panic, s)
      else (Ok (word_of_int (sint x * 2 ^ 20)), s))"
proof -
  have w: "mb_bytes x = word_of_int (sint x * 2 ^ 20)"
    by (simp add: mb_bytes_def word_of_int_eq_iff flip: wi_hom_mult)
  have m: "fits_i64 (sint x * 1048576) = mb_fits x"
    by (simp add: mb_fits_bytes)
  show ?thesis
    by (cases checks; cases "mb_fits x")
      (simp_all add: mb_to_bytes_fits(1) mb_to_bytes_overflow mb_to_bytes_unchecked ret_def w m)
qed

text \<open>
  C22: in a build with overflow checks, one document with a memory size that does not fit
  ends the polling loop of the collector for good.
\<close>

theorem mongo_overflow_kills_loop:
  assumes "prom_ok P V" and "mongo_quiet D V"
    and "owned (meta V s) (mongo_handles m) (mongo_descs ns)"
    and "server_status D m s = Inr doc" and "\<not> mem_fits D doc"
  shows "\<exists>t. collect_loop mongo_name (mongo_collect P D True m) (Suc n) s = (Dead, [], t)"
  using mongo_collect_panics [OF assms] by (auto simp: loop_body_def after_poll_def)

theorem mongo_overflow_kills_loop_witness:
  "\<exists>t. collect_loop mongo_name
       (mongo_collect ref_prom (demo_mongo_driver (Inr (demo_status 8796093022208))) True demo_mongo)
       (Suc 3) demo_mongo_world = (Dead, [], t)"
proof -
  have "\<not> mem_fits (demo_mongo_driver (Inr (demo_status 8796093022208))) (demo_status 8796093022208)"
    by (simp add: mem_fits_def demo_mongo_driver_def demo_status_def get_i64_or_0_def mb_fits_def)
  from mongo_overflow_kills_loop [OF ref_prom_ok demo_mongo_quiet demo_mongo_owned demo_mongo_status this]
  show ?thesis by blast
qed

text \<open>
  C21: without overflow checks, or as long as the memory sizes fit, the polling loop of a
  MongoDB collector is alive after any number of ticks and has written its own metrics only.
\<close>

theorem mongo_loop_alive:
  assumes "prom_ok P V" and "mongo_env D checks m V"
    and "owned (meta V s) (mongo_handles m) (mongo_descs ns)"
  shows "\<exists>ws t. collect_loop mongo_name (mongo_collect P D checks m) n s = (Running, ws, t) \<and> length ws \<le> n \<and>
     meta V t = meta V s \<and> regs V t = regs V s \<and>
     (\<forall>sr. fst sr \<notin> set (mongo_handles m) \<longrightarrow> val V t sr = val V s sr)"
  using assms by (rule mongo.loop_alive)

theorem mongo_loop_alive_witness:
  "\<exists>ws t. collect_loop mongo_name
       (mongo_collect ref_prom (demo_mongo_driver (Inr (demo_status 512))) True demo_mongo) 1000 demo_mongo_world =
     (Running, ws, t) \<and> length ws \<le> 1000"
proof -
  have "mem_fits (demo_mongo_driver (Inr (demo_status 512))) (demo_status 512)"
    by (simp add: mem_fits_def demo_mongo_driver_def demo_status_def get_i64_or_0_def mb_fits_def)
  then have "mongo_env (demo_mongo_driver (Inr (demo_status 512))) True demo_mongo ref_view"
    by (auto simp: mongo_env_def demo_mongo_quiet demo_mongo_status)
  from mongo_loop_alive [OF ref_prom_ok this demo_mongo_owned, of 1000] show ?thesis by blast
qed

text \<open>
  \<open>observe_op\<close> succeeds and appends the duration to the histogram of that operation,
  and to no other series.
\<close>

theorem observe_op_appends:
  assumes P: "prom_ok P V" and own: "owned (meta V s) (mongo_handles m) (mongo_descs ns)"
    and v: "val V s (g_op_duration_seconds m, [op]) = HistV xs"
  shows "\<exists>t. observe_op P m op x s = (Ok (), t) \<and>
     val V t = (val V s)((g_op_duration_seconds m, [op]) := HistV (xs @ [x]))"
  using observe_labelled_Ok [OF P, of s "g_op_duration_seconds m" "[op]" xs x]
    mongo_cores(13) [OF own] v
  by (auto simp: observe_op_def assigns_def)

theorem observe_op_appends_witness:
  "\<exists>t. observe_op ref_prom demo_mongo ''find'' (F64_Fin False 1 0) demo_mongo_world =
      (Ok () :: (metrics_error, unit) outcome, t) \<and>
    val ref_view t (g_op_duration_seconds demo_mongo, [''find'']) = HistV [F64_Fin False 1 0]"
proof -
  have "val ref_view demo_mongo_world (g_op_duration_seconds demo_mongo, [''find'']) = HistV []"
    using demo_mongo_owned mongo_cores(13) [OF demo_mongo_owned]
    by (auto simp: demo_mongo_world_def world_of_def core_is_def)
  from observe_op_appends [OF ref_prom_ok demo_mongo_owned this, of "F64_Fin False 1 0"]
  show ?thesis by auto
qed

end
