(* ===== verification/Pool.thy ===== *)
theory Pool
  imports Core
begin

text \<open>
  \<open>dr-metrix-postgres/src/pool\<close>: the trait \<open>PoolAdapter\<close> with its status struct
  (\<open>mod.rs\<close>) and its three implementations, over \<open>deadpool-diesel\<close> (\<open>deadpool.rs\<close>),
  \<open>diesel::r2d2\<close> (\<open>r2d2.rs\<close>) and \<open>sea-orm\<close> (\<open>seaorm.rs\<close>).  The three drivers and
  \<open>serde_json\<close> are parameters; an error of a driver is the text that \<open>Display\<close> gives.

  A row of a result is a JSON object, a map from keys to JSON values.  The lemmas: each of the
  three decoding loops computes \<open>decode_spec\<close> (\<open>deadpool_rows_spec\<close> and the others); the
  trait's contract is the locale \<open>pool_adapter\<close>, interpreted on the three adapters.
\<close>

subsection \<open>The trait\<close>

text \<open>\<open>serde_json\<close>: parsing, the map of an object, and the accessors of a value.\<close>

record 'v serde =
  json_from_str :: "string \<Rightarrow> string + 'v"
  json_object :: "'v \<Rightarrow> (string \<rightharpoonup> 'v) option"
  json_as_i64 :: "'v \<Rightarrow> i64 option"
  json_as_f64 :: "'v \<Rightarrow> f64 option"
  json_as_str :: "'v \<Rightarrow> string option"

type_synonym 'v row = "string \<rightharpoonup> 'v"

record pool_status =
  ps_max_size :: u32
  ps_available :: u32
  ps_in_use :: u32

record ('s, 'v) pool_ops =
  query_json :: "handle \<Rightarrow> string \<Rightarrow> ('s, metrics_error, 'v row list) action"
  pool_status_of :: "handle \<Rightarrow> 's \<Rightarrow> pool_status"

definition saturating_sub :: "'a::len word \<Rightarrow> 'a word \<Rightarrow> 'a word" where
  "saturating_sub a b = (if b \<le> a then a - b else 0)"

text \<open>\<open>format!("SELECT row_to_json(t)::text AS row_json FROM ({sql}) t")\<close>\<close>

definition wrap_sql :: "string \<Rightarrow> string" where
  "wrap_sql sql = ''SELECT row_to_json(t)::text AS row_json FROM ('' @ sql @ '') t''"

record json_row =
  row_json :: string

text \<open>\<open>QueryableByName::build\<close>, over the driver's \<open>NamedRow::get\<close>.\<close>

definition build_row :: "('r \<Rightarrow> string \<Rightarrow> string + string) \<Rightarrow> 'r \<Rightarrow> string + json_row" where
  "build_row named_get row =
     (case named_get row ''row_json'' of
        Inl e \<Rightarrow> Inl e
      | Inr txt \<Rightarrow> Inr \<lparr>row_json = txt\<rparr>)"

subsection \<open>deadpool.rs\<close>

record deadpool_status =
  st_max_size :: usize
  st_size :: usize
  st_available :: usize

record ('s, 'r) deadpool =
  dp_get :: "handle \<Rightarrow> 's \<Rightarrow> (string + handle) \<times> 's"
  dp_interact :: "handle \<Rightarrow> ('s \<Rightarrow> (string + json_row list) \<times> 's) \<Rightarrow> 's \<Rightarrow>
     (string + (string + json_row list)) \<times> 's"
  dp_named_get :: "'r \<Rightarrow> string \<Rightarrow> string + string"
  dp_load :: "('r \<Rightarrow> string + json_row) \<Rightarrow> string \<Rightarrow> handle \<Rightarrow> 's \<Rightarrow> (string + json_row list) \<times> 's"
  dp_status :: "handle \<Rightarrow> 's \<Rightarrow> deadpool_status"

fun deadpool_rows :: "'v serde \<Rightarrow> json_row list \<Rightarrow> 'v row list \<Rightarrow> (metrics_error, 'v row list) outcome" where
  "deadpool_rows S [] result = Ok result"
| "deadpool_rows S (row # rows) result =
     (case json_from_str S (row_json row) of
        Inl e \<Rightarrow> Err (database_error e)
      | Inr v \<Rightarrow>
          (case json_object S v of
             Some m \<Rightarrow> deadpool_rows S rows (result @ [m])
           | None \<Rightarrow> deadpool_rows S rows result))"

definition deadpool_query_json ::
  "'v serde \<Rightarrow> ('s, 'r) deadpool \<Rightarrow> handle \<Rightarrow> string \<Rightarrow> ('s, metrics_error, 'v row list) action" where
  "deadpool_query_json S D pool sql s =
     (let wrapped = wrap_sql sql in
      case dp_get D pool s of
        (Inl e, t) \<Rightarrow> (Err (database_error e), t)
      | (Inr conn, t) \<Rightarrow>
          (case dp_interact D conn (dp_load D (build_row (dp_named_get D)) wrapped conn) t of
             (Inl e, u) \<Rightarrow> (Err (database_error e), u)
           | (Inr (Inl e), u) \<Rightarrow> (Err (database_error e), u)
           | (Inr (Inr rows), u) \<Rightarrow> (deadpool_rows S rows [], u)))"

definition deadpool_pool_status :: "('s, 'r) deadpool \<Rightarrow> handle \<Rightarrow> 's \<Rightarrow> pool_status" where
  "deadpool_pool_status D pool s =
     (let status = dp_status D pool s;
          in_use = ucast (saturating_sub (st_size status) (st_available status))
      in \<lparr>ps_max_size = ucast (st_max_size status),
          ps_available = ucast (st_available status),
          ps_in_use = in_use\<rparr>)"

definition deadpool_adapter :: "'v serde \<Rightarrow> ('s, 'r) deadpool \<Rightarrow> ('s, 'v) pool_ops" where
  "deadpool_adapter S D =
     \<lparr>query_json = deadpool_query_json S D, pool_status_of = deadpool_pool_status D\<rparr>"

subsection \<open>r2d2.rs\<close>

record r2d2_state =
  rs_connections :: u32
  rs_idle_connections :: u32

record ('s, 'r) r2d2 =
  rd_spawn_blocking :: "('s \<Rightarrow> (metrics_error + json_row list) \<times> 's) \<Rightarrow> 's \<Rightarrow>
     (string + (metrics_error + json_row list)) \<times> 's"
  rd_get :: "handle \<Rightarrow> 's \<Rightarrow> (string + handle) \<times> 's"
  rd_named_get :: "'r \<Rightarrow> string \<Rightarrow> string + string"
  rd_load :: "('r \<Rightarrow> string + json_row) \<Rightarrow> string \<Rightarrow> handle \<Rightarrow> 's \<Rightarrow> (string + json_row list) \<times> 's"
  rd_state :: "handle \<Rightarrow> 's \<Rightarrow> r2d2_state"
  rd_max_size :: "handle \<Rightarrow> 's \<Rightarrow> u32"

fun r2d2_rows :: "'v serde \<Rightarrow> json_row list \<Rightarrow> 'v row list \<Rightarrow> (metrics_error, 'v row list) outcome" where
  "r2d2_rows S [] result = Ok result"
| "r2d2_rows S (row # rows) result =
     (case json_from_str S (row_json row) of
        Inl e \<Rightarrow> Err (database_error e)
      | Inr v \<Rightarrow>
          (case json_object S v of
             Some m \<Rightarrow> r2d2_rows S rows (result @ [m])
           | None \<Rightarrow> r2d2_rows S rows result))"

text \<open>\<open>QueryableByName::build\<close> of this file.\<close>

definition r2d2_build_row :: "('r \<Rightarrow> string \<Rightarrow> string + string) \<Rightarrow> 'r \<Rightarrow> string + json_row" where
  "r2d2_build_row named_get row =
     (case named_get row ''row_json'' of
        Inl e \<Rightarrow> Inl e
      | Inr txt \<Rightarrow> Inr \<lparr>row_json = txt\<rparr>)"

lemma r2d2_build_row_eq: "r2d2_build_row = build_row"
  by (simp add: fun_eq_iff r2d2_build_row_def build_row_def)

text \<open>The closure that runs on a blocking thread.\<close>

definition r2d2_blocking ::
  "('s, 'r) r2d2 \<Rightarrow> handle \<Rightarrow> string \<Rightarrow> 's \<Rightarrow> (metrics_error + json_row list) \<times> 's" where
  "r2d2_blocking D pool wrapped s =
     (case rd_get D pool s of
        (Inl e, t) \<Rightarrow> (Inl (database_error e), t)
      | (Inr conn, t) \<Rightarrow>
          (case rd_load D (r2d2_build_row (rd_named_get D)) wrapped conn t of
             (Inl e, u) \<Rightarrow> (Inl (database_error e), u)
           | (Inr rows, u) \<Rightarrow> (Inr rows, u)))"

definition r2d2_query_json ::
  "'v serde \<Rightarrow> ('s, 'r) r2d2 \<Rightarrow> handle \<Rightarrow> string \<Rightarrow> ('s, metrics_error, 'v row list) action" where
  "r2d2_query_json S D pool sql s =
     (let wrapped = wrap_sql sql in
      case rd_spawn_blocking D (r2d2_blocking D pool wrapped) s of
        (Inl e, t) \<Rightarrow> (Err (database_error e), t)
      | (Inr (Inl e), t) \<Rightarrow> (Err e, t)
      | (Inr (Inr rows), t) \<Rightarrow> (r2d2_rows S rows [], t))"

definition r2d2_pool_status :: "('s, 'r) r2d2 \<Rightarrow> handle \<Rightarrow> 's \<Rightarrow> pool_status" where
  "r2d2_pool_status D pool s =
     (let state = rd_state D pool s
      in \<lparr>ps_max_size = rd_max_size D pool s,
          ps_available = rs_idle_connections state,
          ps_in_use = saturating_sub (rs_connections state) (rs_idle_connections state)\<rparr>)"

definition r2d2_adapter :: "'v serde \<Rightarrow> ('s, 'r) r2d2 \<Rightarrow> ('s, 'v) pool_ops" where
  "r2d2_adapter S D = \<lparr>query_json = r2d2_query_json S D, pool_status_of = r2d2_pool_status D\<rparr>"

subsection \<open>seaorm.rs\<close>

text \<open>
  \<open>so_postgres_statement\<close> is \<open>Statement::from_string(DatabaseBackend::Postgres, _)\<close>.
\<close>

record ('s, 'r, 'q) sea_orm =
  so_postgres_statement :: "string \<Rightarrow> 'q"
  so_query_all :: "handle \<Rightarrow> 'q \<Rightarrow> 's \<Rightarrow> (string + 'r list) \<times> 's"
  so_try_get :: "'r \<Rightarrow> string \<Rightarrow> string \<Rightarrow> string + string"

fun seaorm_rows ::
  "'v serde \<Rightarrow> ('s, 'r, 'q) sea_orm \<Rightarrow> 'r list \<Rightarrow> 'v row list \<Rightarrow> (metrics_error, 'v row list) outcome" where
  "seaorm_rows S D [] out = Ok out"
| "seaorm_rows S D (row # rows) out =
     (case so_try_get D row '''' ''row_json'' of
        Inl e \<Rightarrow> Err (database_error e)
      | Inr json_str \<Rightarrow>
          (case json_from_str S json_str of
             Inl e \<Rightarrow> Err (database_error e)
           | Inr v \<Rightarrow>
               (case json_object S v of
                  Some m \<Rightarrow> seaorm_rows S D rows (out @ [m])
                | None \<Rightarrow> seaorm_rows S D rows out)))"

definition seaorm_query_json ::
  "'v serde \<Rightarrow> ('s, 'r, 'q) sea_orm \<Rightarrow> handle \<Rightarrow> string \<Rightarrow> ('s, metrics_error, 'v row list) action" where
  "seaorm_query_json S D conn sql s =
     (let wrapped = wrap_sql sql; stmt = so_postgres_statement D wrapped in
      case so_query_all D conn stmt s of
        (Inl e, t) \<Rightarrow> (Err (database_error e), t)
      | (Inr rows, t) \<Rightarrow> (seaorm_rows S D rows [], t))"

definition seaorm_pool_status :: "('s, 'r, 'q) sea_orm \<Rightarrow> handle \<Rightarrow> 's \<Rightarrow> pool_status" where
  "seaorm_pool_status D conn s = \<lparr>ps_max_size = 0, ps_available = 0, ps_in_use = 0\<rparr>"

definition seaorm_adapter :: "'v serde \<Rightarrow> ('s, 'r, 'q) sea_orm \<Rightarrow> ('s, 'v) pool_ops" where
  "seaorm_adapter S D = \<lparr>query_json = seaorm_query_json S D, pool_status_of = seaorm_pool_status D\<rparr>"

subsection \<open>What the decoding loops compute\<close>

text \<open>
  The reference: the texts up to the first one that is not JSON decide whether there is an
  error; without one, the objects remain, in order.
\<close>

definition json_error :: "'v serde \<Rightarrow> string \<Rightarrow> bool" where
  "json_error S txt \<longleftrightarrow> (case json_from_str S txt of Inl _ \<Rightarrow> True | Inr _ \<Rightarrow> False)"

definition decoded :: "'v serde \<Rightarrow> string \<Rightarrow> 'v row option" where
  "decoded S txt = (case json_from_str S txt of Inl _ \<Rightarrow> None | Inr v \<Rightarrow> json_object S v)"

definition decode_spec :: "'v serde \<Rightarrow> string list \<Rightarrow> (metrics_error, 'v row list) outcome" where
  "decode_spec S txts =
     (case find (json_error S) txts of
        Some txt \<Rightarrow> Err (Database (projl (json_from_str S txt)))
      | None \<Rightarrow> Ok (List.map_filter (decoded S) txts))"

lemmas decode_defs = decode_spec_def json_error_def decoded_def database_error_def

lemma deadpool_rows_acc:
  "deadpool_rows S rows acc =
     (case decode_spec S (map row_json rows) of Ok ms \<Rightarrow> Ok (acc @ ms) | r \<Rightarrow> r)"
proof (induction rows arbitrary: acc)
  case Nil
  then show ?case by (simp add: decode_defs)
next
  case (Cons row rows)
  then show ?case
    by (auto simp: decode_defs split: sum.splits option.splits)
qed

lemma r2d2_rows_deadpool: "r2d2_rows S rows acc = deadpool_rows S rows acc"
  by (induction S rows acc rule: r2d2_rows.induct) (simp_all split: sum.splits option.splits)

lemma seaorm_rows_deadpool:
  "map (\<lambda>r. so_try_get D r '''' ''row_json'') rows = map Inr txts \<Longrightarrow>
     seaorm_rows S D rows acc = deadpool_rows S (map (\<lambda>t. \<lparr>row_json = t\<rparr>) txts) acc"
proof (induction rows arbitrary: txts acc)
  case (Cons row rows)
  then show ?case by (cases txts) (auto split: sum.splits option.splits)
qed simp

lemma deadpool_rows_spec: "deadpool_rows S rows [] = decode_spec S (map row_json rows)"
  by (simp add: deadpool_rows_acc split: outcome.splits)

lemma decode_spec_outcome:
  "decode_spec S txts \<noteq> Panic"
  "decode_spec S txts = Err e \<Longrightarrow> \<exists>msg. e = Database msg"
  by (auto simp: decode_spec_def split: option.splits)

lemma seaorm_rows_outcome:
  "seaorm_rows S D rows acc \<noteq> Panic"
  "seaorm_rows S D rows acc = Err e \<Longrightarrow> \<exists>msg. e = Database msg"
  by (induction S D rows acc rule: seaorm_rows.induct)
    (auto simp: database_error_def split: sum.splits option.splits)

text \<open>Documented behaviour of \<open>load\<close>: every row is built, the first failure is returned.\<close>

fun build_all :: "('r \<Rightarrow> string + json_row) \<Rightarrow> 'r list \<Rightarrow> string + json_row list" where
  "build_all b [] = Inr []"
| "build_all b (r # rs) =
     (case b r of
        Inl e \<Rightarrow> Inl e
      | Inr x \<Rightarrow> (case build_all b rs of Inl e \<Rightarrow> Inl e | Inr xs \<Rightarrow> Inr (x # xs)))"

lemma build_all_texts:
  "map (\<lambda>r. get r ''row_json'') raw = map Inr txts \<Longrightarrow>
     build_all (build_row get) raw = Inr (map (\<lambda>t. \<lparr>row_json = t\<rparr>) txts)"
proof (induction raw arbitrary: txts)
  case (Cons r raw)
  then show ?case by (cases txts) (auto simp: build_row_def)
qed simp

lemma map_row_json [simp]: "map (row_json \<circ> (\<lambda>t. \<lparr>row_json = t\<rparr>)) txts = txts"
  by (induction txts) simp_all

text \<open>
  The server answers the statement \<open>q\<close> in the state \<open>s\<close> with the rows \<open>raw\<close>: the pool
  hands out a connection, the closure runs, \<open>load\<close> builds the rows.
\<close>

definition deadpool_serves :: "('s, 'r) deadpool \<Rightarrow> handle \<Rightarrow> string \<Rightarrow> 's \<Rightarrow> 'r list \<Rightarrow> bool" where
  "deadpool_serves D pool q s raw \<longleftrightarrow>
     (\<exists>c t. dp_get D pool s = (Inr c, t) \<and>
        (\<forall>f. dp_interact D c f t = (case f t of (r, u) \<Rightarrow> (Inr r, u))) \<and>
        (\<forall>b. fst (dp_load D b q c t) = build_all b raw))"

definition r2d2_serves :: "('s, 'r) r2d2 \<Rightarrow> handle \<Rightarrow> string \<Rightarrow> 's \<Rightarrow> 'r list \<Rightarrow> bool" where
  "r2d2_serves D pool q s raw \<longleftrightarrow>
     (\<exists>c t. rd_get D pool s = (Inr c, t) \<and>
        (\<forall>f. rd_spawn_blocking D f s = (case f s of (r, u) \<Rightarrow> (Inr r, u))) \<and>
        (\<forall>b. fst (rd_load D b q c t) = build_all b raw))"

definition seaorm_serves :: "('s, 'r, 'q) sea_orm \<Rightarrow> handle \<Rightarrow> string \<Rightarrow> 's \<Rightarrow> 'r list \<Rightarrow> bool" where
  "seaorm_serves D conn q s raw \<longleftrightarrow> fst (so_query_all D conn (so_postgres_statement D q) s) = Inr raw"

lemma deadpool_query_serves:
  assumes "deadpool_serves D pool (wrap_sql sql) s raw"
    and "map (\<lambda>r. dp_named_get D r ''row_json'') raw = map Inr txts"
  shows "fst (deadpool_query_json S D pool sql s) = decode_spec S txts"
proof -
  obtain c t where g: "dp_get D pool s = (Inr c, t)"
    and i: "\<And>f. dp_interact D c f t = (case f t of (r, u) \<Rightarrow> (Inr r, u))"
    and l: "\<And>b. fst (dp_load D b (wrap_sql sql) c t) = build_all b raw"
    using assms(1) by (auto simp: deadpool_serves_def)
  show ?thesis
    using l [of "build_row (dp_named_get D)"]
    by (auto simp: deadpool_query_json_def Let_def g i deadpool_rows_spec
        build_all_texts [where get = "dp_named_get D", OF assms(2)]
        split: prod.splits)
qed

lemma r2d2_query_serves:
  assumes "r2d2_serves D pool (wrap_sql sql) s raw"
    and "map (\<lambda>r. rd_named_get D r ''row_json'') raw = map Inr txts"
  shows "fst (r2d2_query_json S D pool sql s) = decode_spec S txts"
proof -
  obtain c t where g: "rd_get D pool s = (Inr c, t)"
    and i: "\<And>f. rd_spawn_blocking D f s = (case f s of (r, u) \<Rightarrow> (Inr r, u))"
    and l: "\<And>b. fst (rd_load D b (wrap_sql sql) c t) = build_all b raw"
    using assms(1) by (auto simp: r2d2_serves_def)
  show ?thesis
    using l [of "r2d2_build_row (rd_named_get D)"]
    by (auto simp: r2d2_build_row_eq r2d2_query_json_def r2d2_blocking_def Let_def g i
        build_all_texts [where get = "rd_named_get D", OF assms(2)] r2d2_rows_deadpool deadpool_rows_spec split: prod.splits)
qed

lemma seaorm_query_serves:
  assumes "seaorm_serves D conn (wrap_sql sql) s raw"
    and "map (\<lambda>r. so_try_get D r '''' ''row_json'') raw = map Inr txts"
  shows "fst (seaorm_query_json S D conn sql s) = decode_spec S txts"
  using assms(1)
  by (auto simp: seaorm_query_json_def seaorm_serves_def Let_def seaorm_rows_deadpool [OF assms(2)]
      deadpool_rows_spec split: prod.splits)

subsection \<open>The contract of the trait\<close>

text \<open>
  A query never panics and leaves the metrics alone; its errors are database errors.
\<close>

locale pool_adapter =
  fixes A :: "('s, 'v) pool_ops"
    and env_ok :: "'s prom_view \<Rightarrow> bool"
  assumes query_frame:
    "env_ok V \<Longrightarrow> query_json A pool sql s = (res, t) \<Longrightarrow>
       res \<noteq> Panic \<and> same V s t \<and> (\<forall>e. res = Err e \<longrightarrow> (\<exists>msg. e = Database msg))"

lemma same_refl [simp]: "same V s s"
  by (simp add: same_def)

lemma same_trans: "same V s t \<Longrightarrow> same V t u \<Longrightarrow> same V s u"
  by (simp add: same_def)

text \<open>The drivers do not touch the metrics.\<close>

definition deadpool_quiet :: "('s, 'r) deadpool \<Rightarrow> 's prom_view \<Rightarrow> bool" where
  "deadpool_quiet D V \<longleftrightarrow>
     (\<forall>p s. same V s (snd (dp_get D p s))) \<and>
     (\<forall>b q c s. same V s (snd (dp_load D b q c s))) \<and>
     (\<forall>c f s. (\<forall>u. same V u (snd (f u))) \<longrightarrow> same V s (snd (dp_interact D c f s)))"

definition r2d2_quiet :: "('s, 'r) r2d2 \<Rightarrow> 's prom_view \<Rightarrow> bool" where
  "r2d2_quiet D V \<longleftrightarrow>
     (\<forall>p s. same V s (snd (rd_get D p s))) \<and>
     (\<forall>b q c s. same V s (snd (rd_load D b q c s))) \<and>
     (\<forall>f s. (\<forall>u. same V u (snd (f u))) \<longrightarrow> same V s (snd (rd_spawn_blocking D f s))) \<and>
     (\<forall>f s e. (\<forall>u e. fst (f u) = Inl e \<longrightarrow> (\<exists>msg. e = Database msg)) \<longrightarrow>
        fst (rd_spawn_blocking D f s) = Inr (Inl e) \<longrightarrow> (\<exists>msg. e = Database msg))"

definition seaorm_quiet :: "('s, 'r, 'q) sea_orm \<Rightarrow> 's prom_view \<Rightarrow> bool" where
  "seaorm_quiet D V \<longleftrightarrow> (\<forall>c q s. same V s (snd (so_query_all D c q s)))"

interpretation deadpool: pool_adapter "deadpool_adapter S D" "deadpool_quiet D"
  for S :: "'v serde" and D :: "('s, 'r) deadpool"
proof (unfold_locales, goal_cases)
  case (1 V pool sql s res t)
  define q where "q = wrap_sql sql"
  obtain x u where x: "dp_get D pool s = (x, u)" by (cases "dp_get D pool s")
  with 1(1) have su: "same V s u" by (metis deadpool_quiet_def snd_conv)
  show ?case
  proof (cases x)
    case (Inl e)
    with 1(2) x su show ?thesis
      by (auto simp: deadpool_adapter_def deadpool_query_json_def Let_def database_error_def)
  next
    case (Inr c)
    obtain y v where y: "dp_interact D c (dp_load D (build_row (dp_named_get D)) q c) u = (y, v)"
      by (cases "dp_interact D c (dp_load D (build_row (dp_named_get D)) q c) u")
    then have "same V u v" using 1(1) by (metis deadpool_quiet_def snd_conv)
    with su have "same V s v" by (rule same_trans)
    with 1(2) x y Inr decode_spec_outcome show ?thesis
      by (auto simp: deadpool_adapter_def deadpool_query_json_def Let_def q_def database_error_def
          deadpool_rows_spec split: sum.splits)
  qed
qed

interpretation r2d2: pool_adapter "r2d2_adapter S D" "r2d2_quiet D"
  for S :: "'v serde" and D :: "('s, 'r) r2d2"
proof (unfold_locales, goal_cases)
  case (1 V pool sql s res t)
  define q where "q = wrap_sql sql"
  have b: "same V u (snd (r2d2_blocking D pool q u)) \<and>
      (\<forall>e. fst (r2d2_blocking D pool q u) = Inl e \<longrightarrow> (\<exists>msg. e = Database msg))" for u
  proof -
    obtain x v where x: "rd_get D pool u = (x, v)" by (cases "rd_get D pool u")
    then have "same V u v" using 1(1) by (metis r2d2_quiet_def snd_conv)
    moreover have "same V v w" if "rd_load D (r2d2_build_row (rd_named_get D)) q c v = (y, w)" for c y w
      using 1(1) that by (metis r2d2_quiet_def snd_conv)
    ultimately show ?thesis
      using x by (auto simp: r2d2_blocking_def database_error_def split: sum.splits prod.splits
          intro: same_trans)
  qed
  obtain y v where y: "rd_spawn_blocking D (r2d2_blocking D pool q) s = (y, v)"
    by (cases "rd_spawn_blocking D (r2d2_blocking D pool q) s")
  have "same V s v" using 1(1) b y by (metis r2d2_quiet_def snd_conv)
  moreover have "\<exists>msg. e = Database msg" if "y = Inr (Inl e)" for e
    using 1(1) b y that unfolding r2d2_quiet_def by (metis fst_conv)
  ultimately show ?case
    using 1(2) y decode_spec_outcome
    by (auto simp: r2d2_adapter_def r2d2_query_json_def Let_def q_def database_error_def
        r2d2_rows_deadpool deadpool_rows_spec split: sum.splits)
qed

interpretation seaorm: pool_adapter "seaorm_adapter S D" "seaorm_quiet D"
  for S :: "'v serde" and D :: "('s, 'r, 'q) sea_orm"
proof (unfold_locales, goal_cases)
  case (1 V pool sql s res t)
  obtain x u where x: "so_query_all D pool (so_postgres_statement D (wrap_sql sql)) s = (x, u)"
    by (cases "so_query_all D pool (so_postgres_statement D (wrap_sql sql)) s")
  with 1(1) have "same V s u" by (metis seaorm_quiet_def snd_conv)
  with 1(2) x seaorm_rows_outcome show ?case
    by (auto simp: seaorm_adapter_def seaorm_query_json_def Let_def database_error_def split: sum.splits)
qed

subsection \<open>A driver for the examples\<close>

datatype djson = JNull | JInt i64 | JFloat f64 | JStr string | JObj "(string \<times> djson) list"

fun djson_object :: "djson \<Rightarrow> (string \<rightharpoonup> djson) option" where
  "djson_object (JObj kvs) = Some (map_of kvs)"
| "djson_object _ = None"

fun djson_i64 :: "djson \<Rightarrow> i64 option" where
  "djson_i64 (JInt n) = Some n"
| "djson_i64 _ = None"

fun djson_f64 :: "djson \<Rightarrow> f64 option" where
  "djson_f64 (JFloat x) = Some x"
| "djson_f64 _ = None"

fun djson_str :: "djson \<Rightarrow> string option" where
  "djson_str (JStr x) = Some x"
| "djson_str _ = None"

text \<open>A parser that knows the given texts.\<close>

definition demo_serde :: "(string \<times> djson) list \<Rightarrow> djson serde" where
  "demo_serde known =
     \<lparr>json_from_str = (\<lambda>t. case map_of known t of None \<Rightarrow> Inl ''expected value'' | Some v \<Rightarrow> Inr v),
      json_object = djson_object, json_as_i64 = djson_i64, json_as_f64 = djson_f64,
      json_as_str = djson_str\<rparr>"

text \<open>A server whose answer to a statement is a list of texts, or an error.\<close>

definition demo_answer :: "(string \<Rightarrow> string + string list) \<Rightarrow> (string \<Rightarrow> string + json_row) \<Rightarrow> string \<Rightarrow> string + json_row list" where
  "demo_answer db b q = (case db q of Inl e \<Rightarrow> Inl e | Inr txts \<Rightarrow> build_all b txts)"

definition demo_named_get :: "string \<Rightarrow> string \<Rightarrow> string + string" where
  "demo_named_get r c = (if c = ''row_json'' then Inr r else Inl ''no such column'')"

definition demo_deadpool :: "deadpool_status \<Rightarrow> (string \<Rightarrow> string + string list) \<Rightarrow> ('s, string) deadpool" where
  "demo_deadpool st db =
     \<lparr>dp_get = (\<lambda>p s. (Inr p, s)), dp_interact = (\<lambda>c f s. case f s of (r, u) \<Rightarrow> (Inr r, u)),
      dp_named_get = demo_named_get, dp_load = (\<lambda>b q c s. (demo_answer db b q, s)),
      dp_status = (\<lambda>_ _. st)\<rparr>"

definition demo_r2d2 :: "r2d2_state \<Rightarrow> (string \<Rightarrow> string + string list) \<Rightarrow> ('s, string) r2d2" where
  "demo_r2d2 st db =
     \<lparr>rd_spawn_blocking = (\<lambda>f s. case f s of (r, u) \<Rightarrow> (Inr r, u)), rd_get = (\<lambda>p s. (Inr p, s)),
      rd_named_get = demo_named_get, rd_load = (\<lambda>b q c s. (demo_answer db b q, s)),
      rd_state = (\<lambda>_ _. st), rd_max_size = (\<lambda>_ _. 10)\<rparr>"

definition demo_seaorm :: "(string \<Rightarrow> string + string list) \<Rightarrow> ('s, string, string) sea_orm" where
  "demo_seaorm db =
     \<lparr>so_postgres_statement = (\<lambda>q. q), so_query_all = (\<lambda>c q s. (db q, s)),
      so_try_get = (\<lambda>r p c. demo_named_get r c)\<rparr>"

lemma demo_serves:
  assumes "db q = Inr raw"
  shows "deadpool_serves (demo_deadpool st db) pool q s raw" "r2d2_serves (demo_r2d2 st' db) pool q s raw"
    "seaorm_serves (demo_seaorm db) pool q s raw"
  using assms
  by (simp_all add: deadpool_serves_def r2d2_serves_def seaorm_serves_def demo_deadpool_def demo_r2d2_def
      demo_seaorm_def demo_answer_def)

lemma demo_drivers_quiet:
  "deadpool_quiet (demo_deadpool st db) V" "r2d2_quiet (demo_r2d2 st' db) V" "seaorm_quiet (demo_seaorm db) V"
  by (simp_all add: deadpool_quiet_def r2d2_quiet_def seaorm_quiet_def demo_deadpool_def demo_r2d2_def
      demo_seaorm_def split_def)

lemma demo_texts:
  "map (\<lambda>r. dp_named_get (demo_deadpool st db) r ''row_json'') raw = map Inr raw"
  "map (\<lambda>r. rd_named_get (demo_r2d2 st' db) r ''row_json'') raw = map Inr raw"
  "map (\<lambda>r. so_try_get (demo_seaorm db) r '''' ''row_json'') raw = map Inr raw"
  by (simp_all add: demo_deadpool_def demo_r2d2_def demo_seaorm_def demo_named_get_def)

subsection \<open>Properties\<close>

text \<open>
  C8: whenever the server answers the wrapped statement with the same texts, the three
  adapters return the same result: the first text that is not JSON makes the whole query fail
  with its message; otherwise the JSON objects are returned in the order of the rows, and
  values that are not objects are dropped.
\<close>

theorem adapters_agree:
  assumes "deadpool_serves D pool (wrap_sql sql) s raw"
    and "map (\<lambda>r. dp_named_get D r ''row_json'') raw = map Inr txts"
    and "r2d2_serves D' pool' (wrap_sql sql) s' raw'"
    and "map (\<lambda>r. rd_named_get D' r ''row_json'') raw' = map Inr txts"
    and "seaorm_serves D'' conn (wrap_sql sql) s'' raw''"
    and "map (\<lambda>r. so_try_get D'' r '''' ''row_json'') raw'' = map Inr txts"
  shows "fst (query_json (deadpool_adapter S D) pool sql s) = decode_spec S txts \<and>
    fst (query_json (r2d2_adapter S D') pool' sql s') = decode_spec S txts \<and>
    fst (query_json (seaorm_adapter S D'') conn sql s'') = decode_spec S txts"
  using deadpool_query_serves [where S = S, OF assms(1,2)] r2d2_query_serves [where S = S, OF assms(3,4)]
    seaorm_query_serves [where S = S, OF assms(5,6)]
  by (simp add: deadpool_adapter_def r2d2_adapter_def seaorm_adapter_def)

definition demo_db :: "string \<Rightarrow> string + string list" where
  "demo_db q = (if q = wrap_sql ''T'' then Inr [''{n:1}'', ''7'', ''{n:2}''] else Inl ''syntax error'')"

definition demo_known :: "(string \<times> djson) list" where
  "demo_known =
     [(''{n:1}'', JObj [(''n'', JInt 1)]), (''7'', JInt 7), (''{n:2}'', JObj [(''n'', JInt 2)])]"

theorem adapters_agree_witness:
  "map (\<lambda>m. m ''n'')
     (case fst (query_json (seaorm_adapter (demo_serde demo_known) (demo_seaorm demo_db)) 0 ''T'' ()) of
        Ok ms \<Rightarrow> ms | _ \<Rightarrow> []) = [Some (JInt 1), Some (JInt 2)]"
proof -
  have a: "demo_db (wrap_sql ''T'') = Inr [''{n:1}'', ''7'', ''{n:2}'']"
    by (simp add: demo_db_def)
  let ?D = "demo_deadpool \<lparr>st_max_size = 4, st_size = 3, st_available = 1\<rparr> demo_db"
  let ?D' = "demo_r2d2 \<lparr>rs_connections = 3, rs_idle_connections = 1\<rparr> demo_db"
  note serves = demo_serves [where db = demo_db and q = "wrap_sql ''T''" and raw = "[''{n:1}'', ''7'', ''{n:2}'']", OF a]
  have "fst (query_json (seaorm_adapter (demo_serde demo_known) (demo_seaorm demo_db)) 0 ''T'' ()) =
      decode_spec (demo_serde demo_known) [''{n:1}'', ''7'', ''{n:2}'']"
    using adapters_agree [where D = ?D and D' = ?D' and D'' = "demo_seaorm demo_db" and pool = 0
        and pool' = 0 and conn = 0 and s = "()" and s' = "()" and s'' = "()" and sql = "''T''"
        and S = "demo_serde demo_known", OF serves(1) demo_texts(1) serves(2) demo_texts(2) serves(3) demo_texts(3)]
    by (elim conjE)
  also have "\<dots> = Ok [map_of [(''n'', JInt 1)], map_of [(''n'', JInt 2)]]"
    by (simp add: decode_defs demo_serde_def demo_known_def List.map_filter_def)
  finally show ?thesis by simp
qed

lemma unat_saturating_sub: "unat (saturating_sub a b) = unat a - unat b"
  by (auto simp: saturating_sub_def unat_sub word_le_nat_alt)

lemma unat_u32_of_usize: "unat (x :: usize) < 2 ^ 32 \<Longrightarrow> unat (ucast x :: u32) = unat x"
  by (simp add: unsigned_ucast_eq take_bit_nat_eq_self)

text \<open>
  C28: while the pool's counters fit in 32 bits, the status that the deadpool adapter reports
  is exact: \<open>in_use\<close> is the number of open connections that are not available, zero when
  the pool momentarily counts more available connections than open ones.
\<close>

theorem deadpool_status_exact:
  assumes "dp_status D pool s = st"
    and "unat (st_size st) < 2 ^ 32" and "unat (st_available st) < 2 ^ 32" and "unat (st_max_size st) < 2 ^ 32"
  shows "unat (ps_in_use (deadpool_pool_status D pool s)) = unat (st_size st) - unat (st_available st) \<and>
    unat (ps_available (deadpool_pool_status D pool s)) = unat (st_available st) \<and>
    unat (ps_max_size (deadpool_pool_status D pool s)) = unat (st_max_size st)"
proof -
  have "unat (saturating_sub (st_size st) (st_available st)) < 2 ^ 32"
    using assms(2) by (simp add: unat_saturating_sub)
  with assms show ?thesis
    by (simp add: deadpool_pool_status_def Let_def unat_u32_of_usize unat_saturating_sub)
qed

theorem deadpool_status_exact_witness:
  "unat (ps_in_use (deadpool_pool_status
       (demo_deadpool \<lparr>st_max_size = 4, st_size = 1, st_available = 3\<rparr> demo_db :: (unit, string) deadpool) 0 ())) = 0"
  using deadpool_status_exact [of "demo_deadpool \<lparr>st_max_size = 4, st_size = 1, st_available = 3\<rparr> demo_db" 0 "()"]
  by (simp add: demo_deadpool_def)

end
