(* ===== verification/Postgres.thy ===== *)
theory Postgres
  imports Pool RefProm
begin

text \<open>
  \<open>dr-metrix-postgres/src/metrics.rs\<close>: the struct \<open>PostgresMetrics\<close>, its constructor,
  \<open>clone\<close> and \<open>observe_query\<close>, and its implementation of the trait \<open>MetricsCollector\<close>
  over any \<open>PoolAdapter\<close>.

  A poll has four phases: the pool status, then three queries, each published row by row
  before the next one is sent.  \<open>rows_writes\<close> computes what one result set writes for any
  list of columns; in the locale \<open>pool_adapter\<close> the collector satisfies the trait's
  contract, so that each interpretation of the adapter contract is one of the collector's.
\<close>

subsection \<open>The struct and its constructor\<close>

record postgres_metrics =
  p_pool :: handle
  p_pool_active :: handle
  p_pool_idle :: handle
  p_pool_max :: handle
  p_db_numbackends :: handle
  p_db_xact_commit :: handle
  p_db_xact_rollback :: handle
  p_db_blks_hit :: handle
  p_db_blks_read :: handle
  p_db_size_bytes :: handle
  p_table_seq_scan :: handle
  p_table_idx_scan :: handle
  p_table_live_tup :: handle
  p_table_dead_tup :: handle
  p_lock_count :: handle
  p_query_duration_seconds :: handle
  p_rows_returned :: handle

text \<open>The \<open>Clone\<close> implementation: an \<open>Arc\<close> and metrics share what they point to.\<close>

definition clone_postgres :: "postgres_metrics \<Rightarrow> postgres_metrics" where
  "clone_postgres m =
     \<lparr>p_pool = p_pool m,
      p_pool_active = p_pool_active m,
      p_pool_idle = p_pool_idle m,
      p_pool_max = p_pool_max m,
      p_db_numbackends = p_db_numbackends m,
      p_db_xact_commit = p_db_xact_commit m,
      p_db_xact_rollback = p_db_xact_rollback m,
      p_db_blks_hit = p_db_blks_hit m,
      p_db_blks_read = p_db_blks_read m,
      p_db_size_bytes = p_db_size_bytes m,
      p_table_seq_scan = p_table_seq_scan m,
      p_table_idx_scan = p_table_idx_scan m,
      p_table_live_tup = p_table_live_tup m,
      p_table_dead_tup = p_table_dead_tup m,
      p_lock_count = p_lock_count m,
      p_query_duration_seconds = p_query_duration_seconds m,
      p_rows_returned = p_rows_returned m\<rparr>"

definition postgres_gauge :: "string \<Rightarrow> string \<Rightarrow> string \<Rightarrow> metric_spec" where
  "postgres_gauge ns name help = (IntGauge, scoped_opts ns ''postgres'' name help, [], [])"

definition postgres_gauge_vec :: "string \<Rightarrow> string \<Rightarrow> string \<Rightarrow> string list \<Rightarrow> metric_spec" where
  "postgres_gauge_vec ns name help labels =
     (IntGaugeVec, scoped_opts ns ''postgres'' name help, labels, [])"

definition postgres_histogram_vec ::
  "string \<Rightarrow> string \<Rightarrow> string \<Rightarrow> string list \<Rightarrow> f64 list \<Rightarrow> metric_spec" where
  "postgres_histogram_vec ns name help labels buckets =
     (HistogramVec, scoped_opts ns ''postgres'' name help, labels, buckets)"

text \<open>\<open>vec![1.0, 5.0, 10.0, 50.0, 100.0, 500.0, 1000.0, 5000.0]\<close>\<close>

definition row_buckets :: "f64 list" where
  "row_buckets =
     [f64_lit 1 1, f64_lit 5 1, f64_lit 10 1, f64_lit 50 1, f64_lit 100 1, f64_lit 500 1,
      f64_lit 1000 1, f64_lit 5000 1]"

lemma row_buckets_eval:
  "row_buckets =
     [F64_Fin False 4503599627370496 (-52), F64_Fin False 5629499534213120 (-50),
      F64_Fin False 5629499534213120 (-49), F64_Fin False 7036874417766400 (-47),
      F64_Fin False 7036874417766400 (-46), F64_Fin False 8796093022208000 (-44),
      F64_Fin False 8796093022208000 (-43), F64_Fin False 5497558138880000 (-40)]"
  by (simp add: row_buckets_def f64_eval)

lemma row_buckets_sorted: "sorted_wrt (<) row_buckets"
  by (simp add: row_buckets_eval less_f64_def scale_pow_def)

definition postgres_new ::
  "'s prometheus \<Rightarrow> handle \<Rightarrow> collector_config \<Rightarrow> ('s, metrics_error, postgres_metrics) action" where
  "postgres_new P pool config =
     (let ns = namespace config in
     bind_act (new_metric P (postgres_gauge ns ''pool_active'' ''Active pool connections'')) (\<lambda>pool_active.
     bind_act (new_metric P (postgres_gauge ns ''pool_idle'' ''Idle pool connections'')) (\<lambda>pool_idle.
     bind_act (new_metric P (postgres_gauge ns ''pool_max'' ''Maximum pool size'')) (\<lambda>pool_max.
     bind_act (new_metric P (postgres_gauge_vec ns ''db_numbackends'' ''Active backends per database'' [''database''])) (\<lambda>db_numbackends.
     bind_act (new_metric P (postgres_gauge_vec ns ''db_xact_commit_total'' ''Committed transactions (snapshot)'' [''database''])) (\<lambda>db_xact_commit.
     bind_act (new_metric P (postgres_gauge_vec ns ''db_xact_rollback_total'' ''Rolled-back transactions (snapshot)'' [''database''])) (\<lambda>db_xact_rollback.
     bind_act (new_metric P (postgres_gauge_vec ns ''db_blks_hit_total'' ''Buffer hits (snapshot)'' [''database''])) (\<lambda>db_blks_hit.
     bind_act (new_metric P (postgres_gauge_vec ns ''db_blks_read_total'' ''Disk blocks read (snapshot)'' [''database''])) (\<lambda>db_blks_read.
     bind_act (new_metric P (postgres_gauge_vec ns ''db_size_bytes'' ''Database size in bytes'' [''database''])) (\<lambda>db_size_bytes.
     bind_act (new_metric P (postgres_gauge_vec ns ''table_seq_scan_total'' ''Sequential scans (snapshot)'' [''schema'', ''table''])) (\<lambda>table_seq_scan.
     bind_act (new_metric P (postgres_gauge_vec ns ''table_idx_scan_total'' ''Index scans (snapshot)'' [''schema'', ''table''])) (\<lambda>table_idx_scan.
     bind_act (new_metric P (postgres_gauge_vec ns ''table_live_tup'' ''Estimated live rows'' [''schema'', ''table''])) (\<lambda>table_live_tup.
     bind_act (new_metric P (postgres_gauge_vec ns ''table_dead_tup'' ''Estimated dead rows'' [''schema'', ''table''])) (\<lambda>table_dead_tup.
     bind_act (new_metric P (postgres_gauge_vec ns ''lock_count'' ''Active locks by mode'' [''mode''])) (\<lambda>lock_count.
     bind_act (new_metric P (postgres_histogram_vec ns ''query_duration_seconds'' ''Application query duration'' [''query''] DEFAULT_QUERY_BUCKETS)) (\<lambda>query_duration_seconds.
     bind_act (new_metric P (postgres_histogram_vec ns ''rows_returned'' ''Rows returned per application query'' [''query''] row_buckets)) (\<lambda>rows_returned.
     ret \<lparr>p_pool = pool,
        p_pool_active = pool_active,
        p_pool_idle = pool_idle,
        p_pool_max = pool_max,
        p_db_numbackends = db_numbackends,
        p_db_xact_commit = db_xact_commit,
        p_db_xact_rollback = db_xact_rollback,
        p_db_blks_hit = db_blks_hit,
        p_db_blks_read = db_blks_read,
        p_db_size_bytes = db_size_bytes,
        p_table_seq_scan = table_seq_scan,
        p_table_idx_scan = table_idx_scan,
        p_table_live_tup = table_live_tup,
        p_table_dead_tup = table_dead_tup,
        p_lock_count = lock_count,
        p_query_duration_seconds = query_duration_seconds,
        p_rows_returned = rows_returned\<rparr>)))))))))))))))))"

definition postgres_name :: string where
  "postgres_name = ''postgres''"

definition postgres_register ::
  "'s prometheus \<Rightarrow> postgres_metrics \<Rightarrow> handle \<Rightarrow> ('s, metrics_error, unit) action" where
  "postgres_register P m registry =
     register_metrics P registry
       [p_pool_active m,
        p_pool_idle m,
        p_pool_max m,
        p_db_numbackends m,
        p_db_xact_commit m,
        p_db_xact_rollback m,
        p_db_blks_hit m,
        p_db_blks_read m,
        p_db_size_bytes m,
        p_table_seq_scan m,
        p_table_idx_scan m,
        p_table_live_tup m,
        p_table_dead_tup m,
        p_lock_count m,
        p_query_duration_seconds m,
        p_rows_returned m]"

definition observe_query ::
  "'s prometheus \<Rightarrow> postgres_metrics \<Rightarrow> string \<Rightarrow> f64 \<Rightarrow> f64 \<Rightarrow> ('s, 'e, unit) action" where
  "observe_query P m name duration_secs row_count =
     run_all
       [observe_labelled P (p_query_duration_seconds m) [name] duration_secs,
        observe_labelled P (p_rows_returned m) [name] row_count]"

subsection \<open>Reading a row\<close>

text \<open>\<open>get_i64\<close> and \<open>get_str\<close>\<close>

definition row_i64 :: "'v serde \<Rightarrow> 'v row \<Rightarrow> string \<Rightarrow> i64" where
  "row_i64 S row key =
     (case row key of
        None \<Rightarrow> 0
      | Some v \<Rightarrow>
          (case json_as_i64 S v of
             Some n \<Rightarrow> n
           | None \<Rightarrow> (case json_as_f64 S v of Some f \<Rightarrow> f64_as_i64 f | None \<Rightarrow> 0)))"

definition row_str :: "'v serde \<Rightarrow> 'v row \<Rightarrow> string \<Rightarrow> string" where
  "row_str S row key =
     (case row key of
        None \<Rightarrow> ''''
      | Some v \<Rightarrow> (case json_as_str S v of Some t \<Rightarrow> t | None \<Rightarrow> ''''))"

subsection \<open>One poll\<close>

definition SQL_DB_STATS :: string where
  "SQL_DB_STATS =
     [CHR 0x0A] @ ''SELECT datname, numbackends, xact_commit, xact_rollback,'' @
     [CHR 0x0A] @ ''       blks_hit, blks_read, pg_database_size(datname) AS size_bytes'' @
     [CHR 0x0A] @ ''FROM pg_stat_database WHERE datname IS NOT NULL''"

definition SQL_TABLE_STATS :: string where
  "SQL_TABLE_STATS =
     [CHR 0x0A] @ ''SELECT schemaname, relname, seq_scan, idx_scan, n_live_tup, n_dead_tup'' @
     [CHR 0x0A] @ ''FROM pg_stat_user_tables''"

definition SQL_LOCKS :: string where
  "SQL_LOCKS =
     [CHR 0x0A] @ ''SELECT mode, COUNT(*) AS cnt FROM pg_locks WHERE granted = true GROUP BY mode''"

definition publish_pool_status ::
  "'s prometheus \<Rightarrow> ('s, 'v) pool_ops \<Rightarrow> postgres_metrics \<Rightarrow> ('s, metrics_error, unit) action" where
  "publish_pool_status P A m s =
     (let status = pool_status_of A (p_pool m) s in
      run_all
        [set_int P (p_pool_active m) (ucast (ps_in_use status)),
         set_int P (p_pool_idle m) (ucast (ps_available status)),
         set_int P (p_pool_max m) (ucast (ps_max_size status))] s)"

definition publish_db_row ::
  "'s prometheus \<Rightarrow> 'v serde \<Rightarrow> postgres_metrics \<Rightarrow> 'v row \<Rightarrow> ('s, metrics_error, unit) action" where
  "publish_db_row P S m row =
     (let db = row_str S row ''datname'' in
      run_all
        [set_labelled P (p_db_numbackends m) [db] (row_i64 S row ''numbackends''),
         set_labelled P (p_db_xact_commit m) [db] (row_i64 S row ''xact_commit''),
         set_labelled P (p_db_xact_rollback m) [db] (row_i64 S row ''xact_rollback''),
         set_labelled P (p_db_blks_hit m) [db] (row_i64 S row ''blks_hit''),
         set_labelled P (p_db_blks_read m) [db] (row_i64 S row ''blks_read''),
         set_labelled P (p_db_size_bytes m) [db] (row_i64 S row ''size_bytes'')])"

definition publish_table_row ::
  "'s prometheus \<Rightarrow> 'v serde \<Rightarrow> postgres_metrics \<Rightarrow> 'v row \<Rightarrow> ('s, metrics_error, unit) action" where
  "publish_table_row P S m row =
     (let schema = row_str S row ''schemaname''; table = row_str S row ''relname'' in
      run_all
        [set_labelled P (p_table_seq_scan m) [schema, table] (row_i64 S row ''seq_scan''),
         set_labelled P (p_table_idx_scan m) [schema, table] (row_i64 S row ''idx_scan''),
         set_labelled P (p_table_live_tup m) [schema, table] (row_i64 S row ''n_live_tup''),
         set_labelled P (p_table_dead_tup m) [schema, table] (row_i64 S row ''n_dead_tup'')])"

definition publish_lock_row ::
  "'s prometheus \<Rightarrow> 'v serde \<Rightarrow> postgres_metrics \<Rightarrow> 'v row \<Rightarrow> ('s, metrics_error, unit) action" where
  "publish_lock_row P S m row =
     (let mode = row_str S row ''mode'' in
      set_labelled P (p_lock_count m) [mode] (row_i64 S row ''cnt''))"

definition postgres_collect ::
  "'s prometheus \<Rightarrow> 'v serde \<Rightarrow> ('s, 'v) pool_ops \<Rightarrow> postgres_metrics \<Rightarrow> ('s, metrics_error, unit) action" where
  "postgres_collect P S A m =
     bind_act (publish_pool_status P A m) (\<lambda>_.
     bind_act (query_json A (p_pool m) SQL_DB_STATS) (\<lambda>db_rows.
     bind_act (run_all (map (publish_db_row P S m) db_rows)) (\<lambda>_.
     bind_act (query_json A (p_pool m) SQL_TABLE_STATS) (\<lambda>table_rows.
     bind_act (run_all (map (publish_table_row P S m) table_rows)) (\<lambda>_.
     bind_act (query_json A (p_pool m) SQL_LOCKS) (\<lambda>lock_rows.
     run_all (map (publish_lock_row P S m) lock_rows)))))))"

subsection \<open>The metrics as a list\<close>

definition postgres_handles :: "postgres_metrics \<Rightarrow> handle list" where
  "postgres_handles m =
     [p_pool_active m,
      p_pool_idle m,
      p_pool_max m,
      p_db_numbackends m,
      p_db_xact_commit m,
      p_db_xact_rollback m,
      p_db_blks_hit m,
      p_db_blks_read m,
      p_db_size_bytes m,
      p_table_seq_scan m,
      p_table_idx_scan m,
      p_table_live_tup m,
      p_table_dead_tup m,
      p_lock_count m,
      p_query_duration_seconds m,
      p_rows_returned m]"

definition postgres_specs :: "string \<Rightarrow> metric_spec list" where
  "postgres_specs ns =
     [postgres_gauge ns ''pool_active'' ''Active pool connections'',
      postgres_gauge ns ''pool_idle'' ''Idle pool connections'',
      postgres_gauge ns ''pool_max'' ''Maximum pool size'',
      postgres_gauge_vec ns ''db_numbackends'' ''Active backends per database'' [''database''],
      postgres_gauge_vec ns ''db_xact_commit_total'' ''Committed transactions (snapshot)'' [''database''],
      postgres_gauge_vec ns ''db_xact_rollback_total'' ''Rolled-back transactions (snapshot)'' [''database''],
      postgres_gauge_vec ns ''db_blks_hit_total'' ''Buffer hits (snapshot)'' [''database''],
      postgres_gauge_vec ns ''db_blks_read_total'' ''Disk blocks read (snapshot)'' [''database''],
      postgres_gauge_vec ns ''db_size_bytes'' ''Database size in bytes'' [''database''],
      postgres_gauge_vec ns ''table_seq_scan_total'' ''Sequential scans (snapshot)'' [''schema'', ''table''],
      postgres_gauge_vec ns ''table_idx_scan_total'' ''Index scans (snapshot)'' [''schema'', ''table''],
      postgres_gauge_vec ns ''table_live_tup'' ''Estimated live rows'' [''schema'', ''table''],
      postgres_gauge_vec ns ''table_dead_tup'' ''Estimated dead rows'' [''schema'', ''table''],
      postgres_gauge_vec ns ''lock_count'' ''Active locks by mode'' [''mode''],
      postgres_histogram_vec ns ''query_duration_seconds'' ''Application query duration'' [''query''] DEFAULT_QUERY_BUCKETS,
      postgres_histogram_vec ns ''rows_returned'' ''Rows returned per application query'' [''query''] row_buckets]"

definition postgres_of :: "handle \<Rightarrow> handle list \<Rightarrow> postgres_metrics" where
  "postgres_of pool hs =
     \<lparr>p_pool = pool,
      p_pool_active = hs ! 0,
      p_pool_idle = hs ! 1,
      p_pool_max = hs ! 2,
      p_db_numbackends = hs ! 3,
      p_db_xact_commit = hs ! 4,
      p_db_xact_rollback = hs ! 5,
      p_db_blks_hit = hs ! 6,
      p_db_blks_read = hs ! 7,
      p_db_size_bytes = hs ! 8,
      p_table_seq_scan = hs ! 9,
      p_table_idx_scan = hs ! 10,
      p_table_live_tup = hs ! 11,
      p_table_dead_tup = hs ! 12,
      p_lock_count = hs ! 13,
      p_query_duration_seconds = hs ! 14,
      p_rows_returned = hs ! 15\<rparr>"

definition postgres_names :: "string list" where
  "postgres_names =
     [''pool_active'', ''pool_idle'', ''pool_max'', ''db_numbackends'', ''db_xact_commit_total'',
      ''db_xact_rollback_total'', ''db_blks_hit_total'', ''db_blks_read_total'', ''db_size_bytes'',
      ''table_seq_scan_total'', ''table_idx_scan_total'', ''table_live_tup'', ''table_dead_tup'',
      ''lock_count'', ''query_duration_seconds'', ''rows_returned'']"

definition postgres_descs :: "string \<Rightarrow> metric_desc list" where
  "postgres_descs ns = map spec_desc (postgres_specs ns)"

lemmas postgres_macro_defs = postgres_gauge_def postgres_gauge_vec_def postgres_histogram_vec_def

lemma clone_postgres_id: "clone_postgres m = m"
  by (simp add: clone_postgres_def)

lemma postgres_new_new_all:
  "postgres_new P pool config =
     bind_act (new_all P (postgres_specs (namespace config))) (\<lambda>hs. ret (postgres_of pool hs))"
  by (simp add: postgres_new_def postgres_specs_def postgres_of_def bind_act_assoc Let_def)

lemma postgres_handles_of: "length hs = 16 \<Longrightarrow> postgres_handles (postgres_of pool hs) = hs"
  by (auto simp: postgres_handles_def postgres_of_def length_Suc_conv numeral_eq_Suc)

lemma length_postgres_specs [simp]: "length (postgres_specs ns) = 16"
  by (simp add: postgres_specs_def)

lemma postgres_specs_valid: "valid_namespace ns \<Longrightarrow> \<forall>sp\<in>set (postgres_specs ns). spec_valid sp"
  by (simp add: postgres_specs_def postgres_macro_defs spec_valid_scoped valid_eval query_buckets_sorted
      row_buckets_sorted)

lemma postgres_new_Ok:
  assumes "prom_ok P V" and "postgres_new P pool config s = (Ok m, t)"
  shows "allocated V s t (postgres_handles m) (postgres_descs (namespace config))" and "p_pool m = pool"
proof -
  have "allocated V s t (postgres_handles m) (map spec_desc (postgres_specs (namespace config))) \<and>
      (\<exists>hs. m = postgres_of pool hs)"
    using assms(2) unfolding postgres_new_new_all
    by (rule new_struct_Ok [OF assms(1)]) (simp add: postgres_handles_of)
  then show "allocated V s t (postgres_handles m) (postgres_descs (namespace config))" and "p_pool m = pool"
    by (auto simp: postgres_descs_def postgres_of_def)
qed

lemma postgres_new_valid:
  assumes "prom_ok P V" and "valid_namespace (namespace config)"
  shows "\<exists>m t. postgres_new P pool config s = (Ok m, t)"
  unfolding postgres_new_new_all by (rule new_struct_valid [OF assms(1) postgres_specs_valid [OF assms(2)]])

lemma postgres_desc_names:
  "concat (map d_names (postgres_descs ns)) = map (\<lambda>n. ns_prefix ns @ ''postgres_'' @ n) postgres_names"
  by (simp add: postgres_descs_def postgres_specs_def postgres_macro_defs spec_desc_scoped postgres_names_def)

lemma postgres_cores:
  assumes "owned M (postgres_handles m) (postgres_descs ns)"
  shows "core_is M (p_pool_active m) IntGauge 0"
    "core_is M (p_pool_idle m) IntGauge 0"
    "core_is M (p_pool_max m) IntGauge 0"
    "core_is M (p_db_numbackends m) IntGaugeVec 1"
    "core_is M (p_db_xact_commit m) IntGaugeVec 1"
    "core_is M (p_db_xact_rollback m) IntGaugeVec 1"
    "core_is M (p_db_blks_hit m) IntGaugeVec 1"
    "core_is M (p_db_blks_read m) IntGaugeVec 1"
    "core_is M (p_db_size_bytes m) IntGaugeVec 1"
    "core_is M (p_table_seq_scan m) IntGaugeVec 2"
    "core_is M (p_table_idx_scan m) IntGaugeVec 2"
    "core_is M (p_table_live_tup m) IntGaugeVec 2"
    "core_is M (p_table_dead_tup m) IntGaugeVec 2"
    "core_is M (p_lock_count m) IntGaugeVec 1"
    "core_is M (p_query_duration_seconds m) HistogramVec 1"
    "core_is M (p_rows_returned m) HistogramVec 1"
  using assms
  by (simp_all add: postgres_handles_def postgres_descs_def postgres_specs_def postgres_macro_defs spec_desc_def
      owned_Cons core_is_def)

subsection \<open>What one result set writes\<close>

type_synonym columns = "(handle \<times> string) list"

definition row_assigns :: "'v serde \<Rightarrow> ('v row \<Rightarrow> string list) \<Rightarrow> columns \<Rightarrow> 'v row \<Rightarrow> assignment list" where
  "row_assigns S lab cols r = map (\<lambda>(h, key). ((h, lab r), IntV (row_i64 S r key))) cols"

definition rows_assigns :: "'v serde \<Rightarrow> ('v row \<Rightarrow> string list) \<Rightarrow> columns \<Rightarrow> 'v row list \<Rightarrow> assignment list" where
  "rows_assigns S lab cols rs = concat (map (row_assigns S lab cols) rs)"

text \<open>What a series shows: the number of the last row that carries its labels.\<close>

definition shown_row ::
  "'v serde \<Rightarrow> ('v row \<Rightarrow> string list) \<Rightarrow> string \<Rightarrow> 'v row list \<Rightarrow> string list \<Rightarrow> metric_value \<Rightarrow> metric_value" where
  "shown_row S lab key rs ls old =
     (case find (\<lambda>r. lab r = ls) (rev rs) of None \<Rightarrow> old | Some r \<Rightarrow> IntV (row_i64 S r key))"

lemma row_assigns_lookup:
  assumes "distinct (map fst cols)" "(h, key) \<in> set cols"
  shows "apply_writes (row_assigns S lab cols r) f (h, ls) =
     (if lab r = ls then IntV (row_i64 S r key) else f (h, ls))"
proof (cases "lab r = ls")
  case True
  have "distinct (map fst (row_assigns S lab cols r))"
    using assms(1) by (auto simp: row_assigns_def distinct_map inj_on_def split_def)
  moreover have "((h, ls), IntV (row_i64 S r key)) \<in> set (row_assigns S lab cols r)"
    using assms(2) True by (force simp: row_assigns_def)
  ultimately show ?thesis using True by (simp add: apply_writes_mem)
next
  case False
  then show ?thesis by (auto simp: row_assigns_def intro!: apply_writes_other)
qed

lemma rows_assigns_lookup:
  assumes "distinct (map fst cols)" "(h, key) \<in> set cols"
  shows "apply_writes (rows_assigns S lab cols rs) f (h, ls) = shown_row S lab key rs ls (f (h, ls))"
  by (induction rs rule: rev_induct)
    (simp_all add: rows_assigns_def shown_row_def row_assigns_lookup [OF assms])

lemma rows_assigns_other:
  "fst sr \<notin> fst ` set cols \<Longrightarrow> apply_writes (rows_assigns S lab cols rs) f sr = f sr"
  by (rule apply_writes_other) (force simp: rows_assigns_def row_assigns_def)

definition db_columns :: "postgres_metrics \<Rightarrow> columns" where
  "db_columns m =
     [(p_db_numbackends m, ''numbackends''), (p_db_xact_commit m, ''xact_commit''),
      (p_db_xact_rollback m, ''xact_rollback''), (p_db_blks_hit m, ''blks_hit''),
      (p_db_blks_read m, ''blks_read''), (p_db_size_bytes m, ''size_bytes'')]"

definition table_columns :: "postgres_metrics \<Rightarrow> columns" where
  "table_columns m =
     [(p_table_seq_scan m, ''seq_scan''), (p_table_idx_scan m, ''idx_scan''),
      (p_table_live_tup m, ''n_live_tup''), (p_table_dead_tup m, ''n_dead_tup'')]"

definition lock_columns :: "postgres_metrics \<Rightarrow> columns" where
  "lock_columns m = [(p_lock_count m, ''cnt'')]"

definition db_label_of :: "'v serde \<Rightarrow> 'v row \<Rightarrow> string list" where
  "db_label_of S r = [row_str S r ''datname'']"

definition table_label_of :: "'v serde \<Rightarrow> 'v row \<Rightarrow> string list" where
  "table_label_of S r = [row_str S r ''schemaname'', row_str S r ''relname'']"

definition lock_label_of :: "'v serde \<Rightarrow> 'v row \<Rightarrow> string list" where
  "lock_label_of S r = [row_str S r ''mode'']"

lemmas columns_defs = db_columns_def table_columns_def lock_columns_def
lemmas label_of_defs = db_label_of_def table_label_of_def lock_label_of_def

lemma writes_concat_rows:
  "(\<And>r. writes V M (act r) (row_assigns S lab cols r)) \<Longrightarrow>
     writes V M (run_all (map act rs)) (rows_assigns S lab cols rs)"
  unfolding rows_assigns_def by (rule writes_run_map)

lemma publish_rows_writes:
  assumes P: "prom_ok P V" and own: "owned M (postgres_handles m) (postgres_descs ns)"
  shows "writes V M (run_all (map (publish_db_row P S m) rs)) (rows_assigns S (db_label_of S) (db_columns m) rs)"
    and "writes V M (run_all (map (publish_table_row P S m) rs)) (rows_assigns S (table_label_of S) (table_columns m) rs)"
    and "writes V M (run_all (map (publish_lock_row P S m) rs)) (rows_assigns S (lock_label_of S) (lock_columns m) rs)"
proof -
  note cores = postgres_cores [OF own] and set = writes_set_labelled [OF P]
  show "writes V M (run_all (map (publish_db_row P S m) rs)) (rows_assigns S (db_label_of S) (db_columns m) rs)"
  proof (rule writes_concat_rows)
    fix r
    show "writes V M (publish_db_row P S m r) (row_assigns S (db_label_of S) (db_columns m) r)"
      unfolding publish_db_row_def row_assigns_def db_columns_def db_label_of_def Let_def
      by (intro writes_run_all_singles)
        (simp add: set [OF cores(4)] set [OF cores(5)] set [OF cores(6)] set [OF cores(7)] set [OF cores(8)]
          set [OF cores(9)])
  qed
  show "writes V M (run_all (map (publish_table_row P S m) rs)) (rows_assigns S (table_label_of S) (table_columns m) rs)"
  proof (rule writes_concat_rows)
    fix r
    show "writes V M (publish_table_row P S m r) (row_assigns S (table_label_of S) (table_columns m) r)"
      unfolding publish_table_row_def row_assigns_def table_columns_def table_label_of_def Let_def
      by (intro writes_run_all_singles)
        (simp add: set [OF cores(10)] set [OF cores(11)] set [OF cores(12)] set [OF cores(13)])
  qed
  show "writes V M (run_all (map (publish_lock_row P S m) rs)) (rows_assigns S (lock_label_of S) (lock_columns m) rs)"
    by (rule writes_concat_rows)
      (simp add: publish_lock_row_def row_assigns_def lock_columns_def lock_label_of_def set [OF cores(14)])
qed

definition status_assigns :: "('s, 'v) pool_ops \<Rightarrow> postgres_metrics \<Rightarrow> 's \<Rightarrow> assignment list" where
  "status_assigns A m s =
     (let st = pool_status_of A (p_pool m) s in
      [(plain (p_pool_active m), IntV (ucast (ps_in_use st))),
       (plain (p_pool_idle m), IntV (ucast (ps_available st))),
       (plain (p_pool_max m), IntV (ucast (ps_max_size st)))])"

lemma publish_status_Ok:
  assumes P: "prom_ok P V" and own: "owned (meta V s) (postgres_handles m) (postgres_descs ns)"
  shows "\<exists>t. publish_pool_status P A m s = (Ok (), t) \<and> meta V t = meta V s \<and> regs V t = regs V s \<and>
     val V t = apply_writes (status_assigns A m s) (val V s)"
proof -
  note cores = postgres_cores [OF own] and int = writes_set_int [OF P]
  have "writes V (meta V s)
      (run_all
        [set_int P (p_pool_active m) (ucast (ps_in_use (pool_status_of A (p_pool m) s))),
         set_int P (p_pool_idle m) (ucast (ps_available (pool_status_of A (p_pool m) s))),
         set_int P (p_pool_max m) (ucast (ps_max_size (pool_status_of A (p_pool m) s)))] :: ('a, metrics_error, unit) action)
      (status_assigns A m s)"
    unfolding status_assigns_def Let_def
    by (intro writes_run_all_singles) (simp add: int [OF cores(1)] int [OF cores(2)] int [OF cores(3)])
  then show ?thesis by (simp add: writes_def publish_pool_status_def Let_def)
qed

lemma writes_then:
  assumes "writes V (meta V s) act ws" and "bind_act act k s = (res, t)"
  obtains u where "meta V u = meta V s" "regs V u = regs V s" "val V u = apply_writes ws (val V s)"
    "k () u = (res, t)"
proof -
  obtain u where "act s = (Ok (), u)" "meta V u = meta V s" "regs V u = regs V s"
    "val V u = apply_writes ws (val V s)"
    using assms(1) by (auto simp: writes_def)
  with assms(2) that show ?thesis by (simp add: bind_act_of_Ok)
qed

subsection \<open>The contract of the trait, over any adapter\<close>

text \<open>The assignments of a poll that has published the given result sets.\<close>

definition published ::
  "'v serde \<Rightarrow> ('s, 'v) pool_ops \<Rightarrow> postgres_metrics \<Rightarrow> 's \<Rightarrow> 'v row list \<Rightarrow> 'v row list \<Rightarrow> 'v row list \<Rightarrow> assignment list" where
  "published S A m s dbs tables locks =
     status_assigns A m s @ rows_assigns S (db_label_of S) (db_columns m) dbs @
     rows_assigns S (table_label_of S) (table_columns m) tables @
     rows_assigns S (lock_label_of S) (lock_columns m) locks"

lemma rows_assigns_Nil [simp]: "rows_assigns S lab cols [] = []"
  by (simp add: rows_assigns_def)

lemma published_frame:
  assumes "fst sr \<notin> set (postgres_handles m)"
  shows "apply_writes (published S A m s dbs tables locks) f sr = f sr"
proof -
  have "fst sr \<notin> fst ` set (db_columns m)" "fst sr \<notin> fst ` set (table_columns m)"
    "fst sr \<notin> fst ` set (lock_columns m)"
    using assms by (auto simp: columns_defs postgres_handles_def)
  moreover have "apply_writes (status_assigns A m s) g sr = g sr" for g
    using assms by (intro apply_writes_other)
      (auto simp: status_assigns_def Let_def plain_def postgres_handles_def)
  ultimately show ?thesis by (simp add: published_def rows_assigns_other)
qed

context pool_adapter
begin

lemma query_cases:
  assumes "env_ok V" and "bind_act (query_json A pool sql) k s = (res, t)"
  obtains (failed) msg where "fst (query_json A pool sql s) = Err (Database msg)"
      "res = Err (Database msg)" "same V s t"
  | (rows) rows u where "fst (query_json A pool sql s) = Ok rows" "same V s u" "k rows u = (res, t)"
proof -
  obtain r u where ru: "query_json A pool sql s = (r, u)" by (cases "query_json A pool sql s")
  have f: "r \<noteq> Panic" "same V s u" "\<And>e. r = Err e \<Longrightarrow> \<exists>msg. e = Database msg"
    using query_frame [OF assms(1) ru] by auto
  show ?thesis
  proof (cases r)
    case (Ok rows)
    with ru f(2) assms(2) that(2) show ?thesis by (simp add: bind_act_of_Ok)
  next
    case (Err e)
    with f(3) obtain msg where "e = Database msg" by blast
    with ru f(2) Err assms(2) that(1) show ?thesis by (simp add: bind_act_of_Err)
  next
    case Panic
    with f(1) show ?thesis by simp
  qed
qed

lemma collect_cases:
  assumes P: "prom_ok P V" and E: "env_ok V" and own: "owned (meta V s) (postgres_handles m) (postgres_descs ns)"
    and run: "postgres_collect P S A m s = (res, t)"
  obtains (no_dbs) u msg where "fst (query_json A (p_pool m) SQL_DB_STATS u) = Err (Database msg)"
      "res = Err (Database msg)" "meta V t = meta V s" "regs V t = regs V s"
      "val V t = apply_writes (published S A m s [] [] []) (val V s)"
  | (no_tables) u1 u dbs msg where "fst (query_json A (p_pool m) SQL_DB_STATS u1) = Ok dbs"
      "fst (query_json A (p_pool m) SQL_TABLE_STATS u) = Err (Database msg)"
      "res = Err (Database msg)" "meta V t = meta V s" "regs V t = regs V s"
      "val V t = apply_writes (published S A m s dbs [] []) (val V s)"
  | (no_locks) u1 u2 u dbs tables msg where "fst (query_json A (p_pool m) SQL_DB_STATS u1) = Ok dbs"
      "fst (query_json A (p_pool m) SQL_TABLE_STATS u2) = Ok tables"
      "fst (query_json A (p_pool m) SQL_LOCKS u) = Err (Database msg)"
      "res = Err (Database msg)" "meta V t = meta V s" "regs V t = regs V s"
      "val V t = apply_writes (published S A m s dbs tables []) (val V s)"
  | (ok) u1 u2 u3 dbs tables locks where "fst (query_json A (p_pool m) SQL_DB_STATS u1) = Ok dbs"
      "fst (query_json A (p_pool m) SQL_TABLE_STATS u2) = Ok tables"
      "fst (query_json A (p_pool m) SQL_LOCKS u3) = Ok locks"
      "res = Ok ()" "meta V t = meta V s" "regs V t = regs V s"
      "val V t = apply_writes (published S A m s dbs tables locks) (val V s)"
proof -
  note W = publish_rows_writes [OF P own, of S]
  obtain u1 where u1: "publish_pool_status P A m s = (Ok (), u1)" "meta V u1 = meta V s" "regs V u1 = regs V s"
    "val V u1 = apply_writes (status_assigns A m s) (val V s)"
    using publish_status_Ok [OF P own] by blast
  have r1: "bind_act (query_json A (p_pool m) SQL_DB_STATS) (\<lambda>db_rows.
      bind_act (run_all (map (publish_db_row P S m) db_rows)) (\<lambda>_.
      bind_act (query_json A (p_pool m) SQL_TABLE_STATS) (\<lambda>table_rows.
      bind_act (run_all (map (publish_table_row P S m) table_rows)) (\<lambda>_.
      bind_act (query_json A (p_pool m) SQL_LOCKS) (\<lambda>lock_rows.
      run_all (map (publish_lock_row P S m) lock_rows)))))) u1 = (res, t)"
    using run u1(1) by (simp add: postgres_collect_def bind_act_of_Ok)
  from E r1 show ?thesis
  proof (cases rule: query_cases)
    case (failed msg)
    with u1 that(1) show ?thesis by (simp add: published_def same_def)
  next
    case (rows dbs v1)
    note q1 = rows(1)
    have v1: "meta V v1 = meta V s" "regs V v1 = regs V s" "val V v1 = val V u1"
      using rows(2) u1 by (simp_all add: same_def)
    from W(1) [of dbs, folded v1(1)] rows(3) obtain u2 where u2: "meta V u2 = meta V s" "regs V u2 = regs V s"
      "val V u2 = apply_writes (rows_assigns S (db_label_of S) (db_columns m) dbs) (val V u1)"
      and r2: "bind_act (query_json A (p_pool m) SQL_TABLE_STATS) (\<lambda>table_rows.
        bind_act (run_all (map (publish_table_row P S m) table_rows)) (\<lambda>_.
        bind_act (query_json A (p_pool m) SQL_LOCKS) (\<lambda>lock_rows.
        run_all (map (publish_lock_row P S m) lock_rows)))) u2 = (res, t)"
      by (rule writes_then) (simp add: v1)
    from E r2 show ?thesis
    proof (cases rule: query_cases)
      case (failed msg)
      with u1 u2 q1 that(2) show ?thesis by (simp add: published_def same_def)
    next
      case (rows tables v2)
      note q2 = rows(1)
      have v2: "meta V v2 = meta V s" "regs V v2 = regs V s" "val V v2 = val V u2"
        using rows(2) u2 by (simp_all add: same_def)
      from W(2) [of tables, folded v2(1)] rows(3) obtain u3 where u3: "meta V u3 = meta V s" "regs V u3 = regs V s"
        "val V u3 = apply_writes (rows_assigns S (table_label_of S) (table_columns m) tables) (val V u2)"
        and r3: "bind_act (query_json A (p_pool m) SQL_LOCKS) (\<lambda>lock_rows.
          run_all (map (publish_lock_row P S m) lock_rows)) u3 = (res, t)"
        by (rule writes_then) (simp add: v2)
      from E r3 show ?thesis
      proof (cases rule: query_cases)
        case (failed msg)
        with u1 u2 u3 q1 q2 that(3) show ?thesis by (simp add: published_def same_def)
      next
        case (rows locks v3)
        have v3: "meta V v3 = meta V s" "regs V v3 = regs V s" "val V v3 = val V u3"
          using rows(2) u3 by (simp_all add: same_def)
        from writesD [OF W(3) [of locks, folded v3(1)] rows(3)] v3 u1 u2 u3 q1 q2 rows(1) that(4)
        show ?thesis by (simp add: published_def)
      qed
    qed
  qed
qed

text \<open>A PostgreSQL collector over an adapter that meets its contract meets the trait's.\<close>

lemma collect_frame:
  assumes "prom_ok P V" "env_ok V" "owned (meta V s) (postgres_handles m) (postgres_descs ns)"
    and "postgres_collect P S A m s = (res, t)"
  shows "res \<noteq> Panic \<and> meta V t = meta V s \<and> regs V t = regs V s \<and>
     (\<forall>sr. fst sr \<notin> set (postgres_handles m) \<longrightarrow> val V t sr = val V s sr)"
  using assms by (cases rule: collect_cases) (simp_all add: published_frame)

end

sublocale pool_adapter \<subseteq> postgres: metrics_collector postgres_name "\<lambda>P. postgres_register P m"
    "\<lambda>P. postgres_collect P S A m" "postgres_handles m" "postgres_descs ns" env_ok
  for S m ns
proof (unfold_locales, goal_cases)
  case (1 P V s r rs res t)
  then show ?case
    using register_metrics_registered [OF 1(1,3) owned_dom [OF 1(2)]]
    by (simp add: postgres_register_def postgres_handles_def)
next
  case (2 P V s res t)
  then show ?case by (rule collect_frame)
qed

subsection \<open>What the metrics show after a poll\<close>

lemma postgres_handles_columns:
  "postgres_handles m =
     [p_pool_active m, p_pool_idle m, p_pool_max m] @ map fst (db_columns m) @ map fst (table_columns m) @
     map fst (lock_columns m) @ [p_query_duration_seconds m, p_rows_returned m]"
  by (simp add: postgres_handles_def columns_defs)

lemma distinct_blocks:
  assumes "distinct (xs @ as @ bs @ cs @ ys)"
  shows "distinct as" "distinct bs" "distinct cs"
    "set as \<inter> set bs = {}" "set as \<inter> set cs = {}" "set bs \<inter> set cs = {}"
    "h \<in> set (xs @ ys) \<Longrightarrow> h \<notin> set as \<and> h \<notin> set bs \<and> h \<notin> set cs"
    "distinct (xs @ ys)"
  using assms by auto

lemma postgres_columns_distinct:
  assumes "distinct (postgres_handles m)"
  shows "distinct (map fst (db_columns m))" "distinct (map fst (table_columns m))"
    "distinct (map fst (lock_columns m))"
    "fst ` set (db_columns m) \<inter> fst ` set (table_columns m) = {}"
    "fst ` set (db_columns m) \<inter> fst ` set (lock_columns m) = {}"
    "fst ` set (table_columns m) \<inter> fst ` set (lock_columns m) = {}"
    "h \<in> {p_pool_active m, p_pool_idle m, p_pool_max m, p_query_duration_seconds m, p_rows_returned m} \<Longrightarrow>
       h \<notin> fst ` set (db_columns m) \<and> h \<notin> fst ` set (table_columns m) \<and> h \<notin> fst ` set (lock_columns m)"
    "distinct [p_pool_active m, p_pool_idle m, p_pool_max m, p_query_duration_seconds m, p_rows_returned m]"
  using distinct_blocks(1-6,8) [OF assms [unfolded postgres_handles_columns]]
    distinct_blocks(7) [OF assms [unfolded postgres_handles_columns], of h]
  by simp_all

lemma status_assigns_other:
  "fst sr \<notin> {p_pool_active m, p_pool_idle m, p_pool_max m} \<Longrightarrow> apply_writes (status_assigns A m s) f sr = f sr"
  by (rule apply_writes_other) (auto simp: status_assigns_def Let_def plain_def)

lemma published_values:
  assumes d: "distinct (postgres_handles m)"
    and g: "g = apply_writes (published S A m s dbs tables locks) f"
    and st: "st = pool_status_of A (p_pool m) s"
  shows "g (plain (p_pool_active m)) = IntV (ucast (ps_in_use st))"
    "g (plain (p_pool_idle m)) = IntV (ucast (ps_available st))"
    "g (plain (p_pool_max m)) = IntV (ucast (ps_max_size st))"
    "(h, key) \<in> set (db_columns m) \<Longrightarrow> g (h, ls) = shown_row S (db_label_of S) key dbs ls (f (h, ls))"
    "(h, key) \<in> set (table_columns m) \<Longrightarrow> g (h, ls) = shown_row S (table_label_of S) key tables ls (f (h, ls))"
    "(h, key) \<in> set (lock_columns m) \<Longrightarrow> g (h, ls) = shown_row S (lock_label_of S) key locks ls (f (h, ls))"
    "g (p_query_duration_seconds m, ls) = f (p_query_duration_seconds m, ls)"
    "g (p_rows_returned m, ls) = f (p_rows_returned m, ls)"
proof -
  note D = postgres_columns_distinct [OF d]
  have rest: "g (h, ls) = apply_writes (status_assigns A m s) f (h, ls)"
    if "h \<in> {p_pool_active m, p_pool_idle m, p_pool_max m, p_query_duration_seconds m, p_rows_returned m}" for h ls
    using D(7) [OF that] by (simp add: g published_def rows_assigns_other)
  have stat: "apply_writes (status_assigns A m s) f (h, ls) = f (h, ls)"
    if "h \<in> fst ` set (db_columns m) \<union> fst ` set (table_columns m) \<union> fst ` set (lock_columns m)" for h ls
    using that D(7) by (intro status_assigns_other) auto
  show "g (plain (p_pool_active m)) = IntV (ucast (ps_in_use st))"
    "g (plain (p_pool_idle m)) = IntV (ucast (ps_available st))"
    "g (plain (p_pool_max m)) = IntV (ucast (ps_max_size st))"
    "g (p_query_duration_seconds m, ls) = f (p_query_duration_seconds m, ls)"
    "g (p_rows_returned m, ls) = f (p_rows_returned m, ls)"
    using D(8) by (auto simp: rest plain_def status_assigns_def st Let_def)
  show "g (h, ls) = shown_row S (db_label_of S) key dbs ls (f (h, ls))" if k: "(h, key) \<in> set (db_columns m)"
  proof -
    have "h \<in> fst ` set (db_columns m)" using k by force
    moreover from this have "h \<notin> fst ` set (table_columns m)" "h \<notin> fst ` set (lock_columns m)"
      using D(4,5) by (auto simp: disjoint_iff)
    ultimately show ?thesis
      by (simp add: g published_def rows_assigns_other rows_assigns_lookup [OF D(1) k] stat)
  qed
  show "g (h, ls) = shown_row S (table_label_of S) key tables ls (f (h, ls))" if k: "(h, key) \<in> set (table_columns m)"
  proof -
    have "h \<in> fst ` set (table_columns m)" using k by force
    moreover from this have "h \<notin> fst ` set (db_columns m)" "h \<notin> fst ` set (lock_columns m)"
      using D(4,6) by (auto simp: disjoint_iff)
    ultimately show ?thesis
      by (simp add: g published_def rows_assigns_other rows_assigns_lookup [OF D(2) k] stat)
  qed
  show "g (h, ls) = shown_row S (lock_label_of S) key locks ls (f (h, ls))" if k: "(h, key) \<in> set (lock_columns m)"
  proof -
    have "h \<in> fst ` set (lock_columns m)" using k by force
    moreover from this have "h \<notin> fst ` set (db_columns m)" "h \<notin> fst ` set (table_columns m)"
      using D(5,6) by (auto simp: disjoint_iff)
    ultimately show ?thesis
      by (simp add: g published_def rows_assigns_other rows_assigns_lookup [OF D(3) k] stat)
  qed
qed

subsection \<open>A database for the examples\<close>

definition demo_postgres :: postgres_metrics where
  "demo_postgres = postgres_of 0 [1..<17]"

definition demo_postgres_world :: ref_world where
  "demo_postgres_world = world_of (zip [1..<17] (postgres_descs ''myapp''))"

lemma demo_postgres_handles: "postgres_handles demo_postgres = [1..<17]"
  by (simp add: demo_postgres_def postgres_handles_of)

lemma demo_postgres_owned:
  "owned (meta ref_view demo_postgres_world) (postgres_handles demo_postgres) (postgres_descs ''myapp'')"
  unfolding demo_postgres_handles ref_view_sel demo_postgres_world_def world_of_def ref_world.simps
  by (rule owned_map_of_zip) (simp_all add: postgres_descs_def del: upt_Suc)

text \<open>An adapter that answers the three statements with fixed results.\<close>

definition fixed_adapter ::
  "(string \<Rightarrow> string + djson row list) \<Rightarrow> (ref_world, djson) pool_ops" where
  "fixed_adapter answer =
     \<lparr>query_json = (\<lambda>_ sql s. (case answer sql of Inl e \<Rightarrow> Err (Database e) | Inr rs \<Rightarrow> Ok rs, s)),
      pool_status_of = (\<lambda>_ _. \<lparr>ps_max_size = 10, ps_available = 6, ps_in_use = 2\<rparr>)\<rparr>"

lemma fixed_adapter_contract: "pool_adapter (fixed_adapter answer) (\<lambda>_. True)"
  by unfold_locales (auto simp: fixed_adapter_def split: sum.splits)

definition demo_rows :: "string \<Rightarrow> string + djson row list" where
  "demo_rows sql =
     (if sql = SQL_DB_STATS then
        Inr [[''datname'' \<mapsto> JStr ''app'', ''numbackends'' \<mapsto> JInt 4],
             [''datname'' \<mapsto> JStr ''app'', ''numbackends'' \<mapsto> JInt 9]]
      else if sql = SQL_TABLE_STATS then Inl ''canceling statement''
      else Inr [])"

definition demo_rows_ok :: "string \<Rightarrow> string + djson row list" where
  "demo_rows_ok sql = (if sql = SQL_TABLE_STATS then Inr [] else demo_rows sql)"

lemma sql_distinct:
  "SQL_DB_STATS \<noteq> SQL_TABLE_STATS" "SQL_DB_STATS \<noteq> SQL_LOCKS" "SQL_TABLE_STATS \<noteq> SQL_LOCKS"
  by (simp_all add: SQL_DB_STATS_def SQL_TABLE_STATS_def SQL_LOCKS_def)

subsection \<open>Properties\<close>

text \<open>
  C29: for every namespace that is empty or a valid metric name, \<open>PostgresMetrics::new\<close>
  succeeds and allocates sixteen distinct fresh metrics with the expected descriptors, named
  \<open><ns>_postgres_<name>\<close>; no metric that existed before is changed.
\<close>

theorem postgres_new_total:
  assumes "prom_ok P V" and "valid_namespace (namespace config)"
  shows "\<exists>m t. postgres_new P pool config s = (Ok m, t) \<and> p_pool m = pool \<and>
     allocated V s t (postgres_handles m) (postgres_descs (namespace config)) \<and>
     names_of (meta V t) (postgres_handles m) =
       map (\<lambda>n. ns_prefix (namespace config) @ ''postgres_'' @ n) postgres_names"
proof -
  obtain m t where mt: "postgres_new P pool config s = (Ok m, t)"
    using postgres_new_valid [OF assms] by blast
  note al = postgres_new_Ok [OF assms(1) mt]
  have "names_of (meta V t) (postgres_handles m) =
      map (\<lambda>n. ns_prefix (namespace config) @ ''postgres_'' @ n) postgres_names"
    using names_of_owned [OF allocated_owned [OF al(1)]] by (simp add: postgres_desc_names)
  with mt al show ?thesis by blast
qed

theorem postgres_new_total_witness:
  "\<exists>m t. postgres_new ref_prom 7 default_config empty_world = (Ok m, t) \<and>
     names_of (meta ref_view t) (postgres_handles m) = map (\<lambda>n. ''postgres_'' @ n) postgres_names"
proof -
  have "valid_namespace (namespace default_config)"
    by (simp add: valid_namespace_def default_config_def)
  from postgres_new_total [OF ref_prom_ok this, of 7 empty_world] show ?thesis
    by (auto simp: default_config_def ns_prefix_def)
qed

text \<open>
  C5: a poll whose three queries are answered succeeds, over any adapter that meets its
  contract.  The pool gauges show the status; every labelled gauge shows the number of the last
  row with its labels, and its old value when no row has them; everything else is untouched.
\<close>

theorem postgres_poll_success:
  assumes A: "pool_adapter A E" and P: "prom_ok P V" and E: "E V"
    and own: "owned (meta V s) (postgres_handles m) (postgres_descs ns)"
    and dbs: "\<forall>u. fst (query_json A (p_pool m) SQL_DB_STATS u) = Ok dbs"
    and tables: "\<forall>u. fst (query_json A (p_pool m) SQL_TABLE_STATS u) = Ok tables"
    and locks: "\<forall>u. fst (query_json A (p_pool m) SQL_LOCKS u) = Ok locks"
  shows "\<exists>t. postgres_collect P S A m s = (Ok (), t) \<and>
    (let st = pool_status_of A (p_pool m) s in
       val V t (plain (p_pool_active m)) = IntV (ucast (ps_in_use st)) \<and>
       val V t (plain (p_pool_idle m)) = IntV (ucast (ps_available st)) \<and>
       val V t (plain (p_pool_max m)) = IntV (ucast (ps_max_size st))) \<and>
    (\<forall>(h, key)\<in>set (db_columns m). \<forall>ls.
       val V t (h, ls) = shown_row S (db_label_of S) key dbs ls (val V s (h, ls))) \<and>
    (\<forall>(h, key)\<in>set (table_columns m). \<forall>ls.
       val V t (h, ls) = shown_row S (table_label_of S) key tables ls (val V s (h, ls))) \<and>
    (\<forall>(h, key)\<in>set (lock_columns m). \<forall>ls.
       val V t (h, ls) = shown_row S (lock_label_of S) key locks ls (val V s (h, ls))) \<and>
    (\<forall>ls. val V t (p_query_duration_seconds m, ls) = val V s (p_query_duration_seconds m, ls)) \<and>
    (\<forall>ls. val V t (p_rows_returned m, ls) = val V s (p_rows_returned m, ls)) \<and>
    (\<forall>sr. fst sr \<notin> set (postgres_handles m) \<longrightarrow> val V t sr = val V s sr) \<and>
    meta V t = meta V s \<and> regs V t = regs V s"
proof -
  obtain res t where t: "postgres_collect P S A m s = (res, t)" by (cases "postgres_collect P S A m s")
  have d: "distinct (postgres_handles m)" using own by (simp add: owned_def)
  show ?thesis
  proof (rule pool_adapter.collect_cases [OF A P E own t])
    fix dbs' tables' locks' u1 u2 u3
    assume q: "fst (query_json A (p_pool m) SQL_DB_STATS u1) = Ok dbs'"
      "fst (query_json A (p_pool m) SQL_TABLE_STATS u2) = Ok tables'"
      "fst (query_json A (p_pool m) SQL_LOCKS u3) = Ok locks'"
      and r: "res = Ok ()" "meta V t = meta V s" "regs V t = regs V s"
      and v: "val V t = apply_writes (published S A m s dbs' tables' locks') (val V s)"
    have g: "val V t = apply_writes (published S A m s dbs tables locks) (val V s)"
      using q dbs tables locks v by simp
    note vals = published_values [OF d g refl]
    have frame: "\<forall>sr. fst sr \<notin> set (postgres_handles m) \<longrightarrow> val V t sr = val V s sr"
      by (simp add: g published_frame)
    from t r vals frame show ?thesis
      by (intro exI [of _ t]) (auto simp: Let_def)
  qed (use dbs tables locks in simp_all)
qed

theorem postgres_poll_success_witness:
  "\<exists>t. postgres_collect ref_prom (demo_serde []) (fixed_adapter demo_rows_ok) demo_postgres demo_postgres_world = (Ok (), t) \<and>
     val ref_view t (plain (p_pool_active demo_postgres)) = IntV 2 \<and>
     val ref_view t (p_db_numbackends demo_postgres, [''app'']) = IntV 9"
proof -
  have q: "\<forall>u. fst (query_json (fixed_adapter demo_rows_ok) (p_pool demo_postgres) SQL_DB_STATS u) =
        Ok [[''datname'' \<mapsto> JStr ''app'', ''numbackends'' \<mapsto> JInt 4],
            [''datname'' \<mapsto> JStr ''app'', ''numbackends'' \<mapsto> JInt 9]]"
    "\<forall>u. fst (query_json (fixed_adapter demo_rows_ok) (p_pool demo_postgres) SQL_TABLE_STATS u) = Ok []"
    "\<forall>u. fst (query_json (fixed_adapter demo_rows_ok) (p_pool demo_postgres) SQL_LOCKS u) = Ok []"
    using sql_distinct sql_distinct [symmetric]
    by (simp_all add: fixed_adapter_def demo_rows_ok_def demo_rows_def)
  obtain t where t: "postgres_collect ref_prom (demo_serde []) (fixed_adapter demo_rows_ok) demo_postgres
        demo_postgres_world = (Ok (), t)"
    and a: "val ref_view t (plain (p_pool_active demo_postgres)) =
        IntV (ucast (ps_in_use (pool_status_of (fixed_adapter demo_rows_ok) (p_pool demo_postgres) demo_postgres_world)))"
    and c: "\<forall>(h, key)\<in>set (db_columns demo_postgres). \<forall>ls. val ref_view t (h, ls) =
        shown_row (demo_serde []) (db_label_of (demo_serde [])) key
          [[''datname'' \<mapsto> JStr ''app'', ''numbackends'' \<mapsto> JInt 4],
           [''datname'' \<mapsto> JStr ''app'', ''numbackends'' \<mapsto> JInt 9]] ls (val ref_view demo_postgres_world (h, ls))"
    using postgres_poll_success [OF fixed_adapter_contract ref_prom_ok TrueI demo_postgres_owned q,
        of "demo_serde []"]
    unfolding Let_def by (elim exE conjE)
  have "(p_db_numbackends demo_postgres, ''numbackends'') \<in> set (db_columns demo_postgres)"
    by (simp add: db_columns_def)
  with c have "val ref_view t (p_db_numbackends demo_postgres, [''app'']) = IntV 9"
    by (auto simp: shown_row_def db_label_of_def row_str_def row_i64_def demo_serde_def simp del: ref_view_sel)
  with t a show ?thesis by (simp add: fixed_adapter_def)
qed

text \<open>What the pool gauges show, as integers: connections in use, idle ones, and the limit.\<close>

definition pool_shows :: "'s prom_view \<Rightarrow> postgres_metrics \<Rightarrow> 's \<Rightarrow> nat \<Rightarrow> nat \<Rightarrow> nat \<Rightarrow> bool" where
  "pool_shows V m t in_use idle limit \<longleftrightarrow>
     (\<exists>a i l. val V t (plain (p_pool_active m)) = IntV a \<and> sint a = int in_use \<and>
        val V t (plain (p_pool_idle m)) = IntV i \<and> sint i = int idle \<and>
        val V t (plain (p_pool_max m)) = IntV l \<and> sint l = int limit)"

lemma sint_i64_of_u32: "sint (ucast (w :: u32) :: i64) = int (unat w)"
proof -
  have w: "0 \<le> uint w" "uint w < 2 ^ 32" using unsigned_less [of w] by simp_all
  have u: "uint (ucast w :: i64) = uint w"
    by (simp add: unsigned_ucast_eq take_bit_int_eq_self_iff less_le_trans [OF w(2)])
  have "sint (ucast w :: i64) = uint w"
    unfolding sint_uint u
    by (rule signed_take_bit_int_eq_self, rule order_trans [OF _ w(1)], simp, rule less_trans [OF w(2)], simp)
  then show ?thesis by simp
qed

context pool_adapter
begin

lemma pool_status_shown:
  assumes "prom_ok P V" "env_ok V" and own: "owned (meta V s) (postgres_handles m) (postgres_descs ns)"
    and "postgres_collect P S A m s = (res, t)" and st: "st = pool_status_of A (p_pool m) s"
  shows "pool_shows V m t (unat (ps_in_use st)) (unat (ps_available st)) (unat (ps_max_size st))"
proof -
  have "\<exists>dbs tables locks. val V t = apply_writes (published S A m s dbs tables locks) (val V s)"
    using assms(1-4) by (cases rule: collect_cases) blast+
  then obtain dbs tables locks where g: "val V t = apply_writes (published S A m s dbs tables locks) (val V s)" by blast
  have "distinct (postgres_handles m)" using own by (simp add: owned_def)
  from published_values(1-3) [OF this g st] show ?thesis
    by (simp add: pool_shows_def sint_i64_of_u32)
qed

end

text \<open>
  C24: after every poll, whether its queries were answered or not, the pool gauges show the state that
  the pool had when the poll began, as exact integers: the connections in use, zero when the pool
  momentarily counts more idle connections than open ones; the idle ones; and the limit.  Over
  deadpool this is so while its counters fit in 32 bits; over SeaORM all three are zero.
\<close>

theorem pool_gauges_exact:
  assumes P: "prom_ok P V" and own: "owned (meta V s) (postgres_handles m) (postgres_descs ns)"
  shows "(let st = dp_status D (p_pool m) s in
      deadpool_quiet D V \<and> unat (st_size st) < 2 ^ 32 \<and> unat (st_available st) < 2 ^ 32 \<and> unat (st_max_size st) < 2 ^ 32 \<longrightarrow>
      pool_shows V m (snd (postgres_collect P S (deadpool_adapter S D) m s))
        (unat (st_size st) - unat (st_available st)) (unat (st_available st)) (unat (st_max_size st))) \<and>
    (let st = rd_state D' (p_pool m) s in
      r2d2_quiet D' V \<longrightarrow>
      pool_shows V m (snd (postgres_collect P S (r2d2_adapter S D') m s))
        (unat (rs_connections st) - unat (rs_idle_connections st)) (unat (rs_idle_connections st))
        (unat (rd_max_size D' (p_pool m) s))) \<and>
    (seaorm_quiet D'' V \<longrightarrow> pool_shows V m (snd (postgres_collect P S (seaorm_adapter S D'') m s)) 0 0 0)"
proof (intro conjI)
  show "let st = dp_status D (p_pool m) s in
      deadpool_quiet D V \<and> unat (st_size st) < 2 ^ 32 \<and> unat (st_available st) < 2 ^ 32 \<and> unat (st_max_size st) < 2 ^ 32 \<longrightarrow>
      pool_shows V m (snd (postgres_collect P S (deadpool_adapter S D) m s))
        (unat (st_size st) - unat (st_available st)) (unat (st_available st)) (unat (st_max_size st))"
    unfolding Let_def
  proof (intro impI, elim conjE)
    assume q: "deadpool_quiet D V" and f: "unat (st_size (dp_status D (p_pool m) s)) < 2 ^ 32"
      "unat (st_available (dp_status D (p_pool m) s)) < 2 ^ 32" "unat (st_max_size (dp_status D (p_pool m) s)) < 2 ^ 32"
    have "unat (saturating_sub (st_size (dp_status D (p_pool m) s)) (st_available (dp_status D (p_pool m) s))) < 2 ^ 32"
      using f(1) by (simp add: unat_saturating_sub)
    with f deadpool.pool_status_shown [OF P q own surjective_pairing refl, of S]
    show "pool_shows V m (snd (postgres_collect P S (deadpool_adapter S D) m s))
        (unat (st_size (dp_status D (p_pool m) s)) - unat (st_available (dp_status D (p_pool m) s)))
        (unat (st_available (dp_status D (p_pool m) s))) (unat (st_max_size (dp_status D (p_pool m) s)))"
      by (simp add: deadpool_adapter_def deadpool_pool_status_def Let_def unat_u32_of_usize unat_saturating_sub)
  qed
  show "let st = rd_state D' (p_pool m) s in
      r2d2_quiet D' V \<longrightarrow>
      pool_shows V m (snd (postgres_collect P S (r2d2_adapter S D') m s))
        (unat (rs_connections st) - unat (rs_idle_connections st)) (unat (rs_idle_connections st))
        (unat (rd_max_size D' (p_pool m) s))"
    unfolding Let_def
    using r2d2.pool_status_shown [OF P _ own surjective_pairing refl, of D' S]
    by (simp add: r2d2_adapter_def r2d2_pool_status_def Let_def unat_saturating_sub)
  show "seaorm_quiet D'' V \<longrightarrow> pool_shows V m (snd (postgres_collect P S (seaorm_adapter S D'') m s)) 0 0 0"
    using seaorm.pool_status_shown [OF P _ own surjective_pairing refl, of D'' S]
    by (simp add: seaorm_adapter_def seaorm_pool_status_def)
qed

theorem pool_gauges_exact_witness:
  "pool_shows ref_view demo_postgres
     (snd (postgres_collect ref_prom (demo_serde [])
        (deadpool_adapter (demo_serde []) (demo_deadpool \<lparr>st_max_size = 4, st_size = 1, st_available = 3\<rparr> demo_db)) demo_postgres
        demo_postgres_world)) 0 3 4"
  using pool_gauges_exact [OF ref_prom_ok demo_postgres_owned, THEN conjunct1, of "demo_deadpool \<lparr>st_max_size = 4, st_size = 1, st_available = 3\<rparr> demo_db" "demo_serde []"]
    demo_drivers_quiet(1) [of "\<lparr>st_max_size = 4, st_size = 1, st_available = 3\<rparr>" demo_db ref_view]
  by (simp add: Let_def demo_deadpool_def)

text \<open>
  C32: when the second query of a poll fails, the poll returns the driver's message; the pool
  gauges and the database gauges have been published, the table and lock gauges keep their
  values.
\<close>

theorem postgres_poll_partial:
  assumes A: "pool_adapter A E" and P: "prom_ok P V" and E: "E V"
    and own: "owned (meta V s) (postgres_handles m) (postgres_descs ns)"
    and dbs: "\<forall>u. fst (query_json A (p_pool m) SQL_DB_STATS u) = Ok dbs"
    and tables: "\<forall>u. fst (query_json A (p_pool m) SQL_TABLE_STATS u) = Err e"
  shows "\<exists>t. postgres_collect P S A m s = (Err e, t) \<and> (\<exists>msg. e = Database msg) \<and>
    (\<forall>(h, key)\<in>set (db_columns m). \<forall>ls.
       val V t (h, ls) = shown_row S (db_label_of S) key dbs ls (val V s (h, ls))) \<and>
    (\<forall>(h, key)\<in>set (table_columns m) \<union> set (lock_columns m). \<forall>ls. val V t (h, ls) = val V s (h, ls)) \<and>
    meta V t = meta V s \<and> regs V t = regs V s"
proof -
  obtain res t where t: "postgres_collect P S A m s = (res, t)" by (cases "postgres_collect P S A m s")
  have d: "distinct (postgres_handles m)" using own by (simp add: owned_def)
  show ?thesis
  proof (rule pool_adapter.collect_cases [OF A P E own t])
    fix dbs' u1 u msg
    assume q: "fst (query_json A (p_pool m) SQL_DB_STATS u1) = Ok dbs'"
      "fst (query_json A (p_pool m) SQL_TABLE_STATS u) = Err (Database msg)"
      and r: "res = Err (Database msg)" "meta V t = meta V s" "regs V t = regs V s"
      and v: "val V t = apply_writes (published S A m s dbs' [] []) (val V s)"
    have g: "val V t = apply_writes (published S A m s dbs [] []) (val V s)" and e: "e = Database msg"
      using q dbs tables v by simp_all
    note vals = published_values(4-6) [OF d g refl]
    from t r e vals show ?thesis
      by (intro exI [of _ t]) (auto simp: shown_row_def)
  qed (use dbs tables in simp_all)
qed

theorem postgres_poll_partial_witness:
  "\<exists>t. postgres_collect ref_prom (demo_serde []) (fixed_adapter demo_rows) demo_postgres demo_postgres_world =
     (Err (Database ''canceling statement''), t)"
proof -
  have q: "\<forall>u. fst (query_json (fixed_adapter demo_rows) (p_pool demo_postgres) SQL_DB_STATS u) =
        Ok [[''datname'' \<mapsto> JStr ''app'', ''numbackends'' \<mapsto> JInt 4],
            [''datname'' \<mapsto> JStr ''app'', ''numbackends'' \<mapsto> JInt 9]]"
    "\<forall>u. fst (query_json (fixed_adapter demo_rows) (p_pool demo_postgres) SQL_TABLE_STATS u) =
        Err (Database ''canceling statement'')"
    using sql_distinct [symmetric] by (simp_all add: fixed_adapter_def demo_rows_def)
  from postgres_poll_partial [OF fixed_adapter_contract ref_prom_ok TrueI demo_postgres_owned q,
      of "demo_serde []"]
  show ?thesis by blast
qed

text \<open>
  C20: over each of the three adapters the polling loop is alive after any number of ticks,
  whatever the database answers, and has written the collector's own metrics only.
\<close>

theorem postgres_loop_alive:
  assumes "prom_ok P V" and "owned (meta V s) (postgres_handles m) (postgres_descs ns)"
    and "A = deadpool_adapter S D \<and> deadpool_quiet D V \<or> A = r2d2_adapter S D' \<and> r2d2_quiet D' V \<or>
      A = seaorm_adapter S D'' \<and> seaorm_quiet D'' V"
  shows "\<exists>ws t. collect_loop postgres_name (postgres_collect P S A m) n s = (Running, ws, t) \<and> length ws \<le> n \<and>
     meta V t = meta V s \<and> regs V t = regs V s \<and>
     (\<forall>sr. fst sr \<notin> set (postgres_handles m) \<longrightarrow> val V t sr = val V s sr)"
  using assms(3) deadpool.postgres.loop_alive [OF assms(1) _ assms(2)]
    r2d2.postgres.loop_alive [OF assms(1) _ assms(2)] seaorm.postgres.loop_alive [OF assms(1) _ assms(2)]
  by (elim disjE conjE) simp_all

theorem postgres_loop_alive_witness:
  "\<exists>ws t. collect_loop postgres_name
       (postgres_collect ref_prom (demo_serde demo_known) (seaorm_adapter (demo_serde demo_known) (demo_seaorm demo_db)) demo_postgres)
       1000 demo_postgres_world = (Running, ws, t) \<and> length ws \<le> 1000"
proof -
  have "seaorm_adapter (demo_serde demo_known) (demo_seaorm demo_db) = deadpool_adapter (demo_serde demo_known) D \<and>
      deadpool_quiet D ref_view \<or>
    seaorm_adapter (demo_serde demo_known) (demo_seaorm demo_db) = r2d2_adapter (demo_serde demo_known) D' \<and>
      r2d2_quiet D' ref_view \<or>
    seaorm_adapter (demo_serde demo_known) (demo_seaorm demo_db) =
      seaorm_adapter (demo_serde demo_known) (demo_seaorm demo_db) \<and> seaorm_quiet (demo_seaorm demo_db) ref_view"
    for D :: "(ref_world, string) deadpool" and D' :: "(ref_world, string) r2d2"
    using demo_drivers_quiet(3) by blast
  from postgres_loop_alive [OF ref_prom_ok demo_postgres_owned this, of 1000] show ?thesis by blast
qed

text \<open>
  \<open>observe_query\<close> succeeds and appends the duration and the row count to the two
  histograms of that query, and to no other series.
\<close>

theorem observe_query_appends:
  assumes P: "prom_ok P V" and own: "owned (meta V s) (postgres_handles m) (postgres_descs ns)"
    and v: "val V s (p_query_duration_seconds m, [q]) = HistV xs" "val V s (p_rows_returned m, [q]) = HistV ys"
  shows "\<exists>t. observe_query P m q x y s = (Ok () :: ('e, unit) outcome, t) \<and>
     val V t = (val V s)((p_query_duration_seconds m, [q]) := HistV (xs @ [x]),
                         (p_rows_returned m, [q]) := HistV (ys @ [y]))"
proof -
  note cores = postgres_cores(15,16) [OF own]
  have ne: "p_query_duration_seconds m \<noteq> p_rows_returned m"
    using own by (simp add: owned_def postgres_handles_def)
  obtain u where u: "observe_labelled P (p_query_duration_seconds m) [q] x s = (Ok () :: ('e, unit) outcome, u)"
    "assigns V s u (p_query_duration_seconds m, [q]) (HistV (xs @ [x]))"
    using observe_labelled_Ok [OF P _ v(1)] cores(1) by auto
  have "core_is (meta V u) (p_rows_returned m) HistogramVec (length [q])"
    "val V u (p_rows_returned m, [q]) = HistV ys"
    using u(2) cores(2) v(2) ne by (simp_all add: assigns_def)
  from observe_labelled_Ok [OF P this, of y]
  obtain t where "observe_labelled P (p_rows_returned m) [q] y u = (Ok () :: ('e, unit) outcome, t)"
    "assigns V u t (p_rows_returned m, [q]) (HistV (ys @ [y]))" by blast
  with u show ?thesis by (auto simp: observe_query_def bind_act_of_Ok assigns_def ret_def)
qed

theorem observe_query_appends_witness:
  "\<exists>t. observe_query ref_prom demo_postgres ''list_users'' (F64_Fin False 1 0) (F64_Fin False 2 0) demo_postgres_world =
      (Ok () :: (metrics_error, unit) outcome, t) \<and>
    val ref_view t (p_rows_returned demo_postgres, [''list_users'']) = HistV [F64_Fin False 2 0]"
proof -
  have "val ref_view demo_postgres_world (p_query_duration_seconds demo_postgres, [''list_users'']) = HistV []"
    "val ref_view demo_postgres_world (p_rows_returned demo_postgres, [''list_users'']) = HistV []"
    using demo_postgres_owned postgres_cores(15,16) [OF demo_postgres_owned]
    by (auto simp: demo_postgres_world_def world_of_def core_is_def)
  from observe_query_appends [OF ref_prom_ok demo_postgres_owned this, of "F64_Fin False 1 0" "F64_Fin False 2 0"]
  show ?thesis by auto
qed

text \<open>
  C33: the number that is published for a column: a JSON integer as it is; any other JSON
  number rounded towards zero and clamped to the range of an \<open>i64\<close>, 0 for a NaN; 0 for a
  column that is missing or not a number.
\<close>

theorem row_i64_bounds:
  "sint (row_i64 S row key) =
     (case Option.bind (row key) (json_as_i64 S) of
        Some n \<Rightarrow> sint n
      | None \<Rightarrow>
          (case Option.bind (row key) (json_as_f64 S) of
             None \<Rightarrow> 0
           | Some F64_NaN \<Rightarrow> 0
           | Some (F64_Inf neg) \<Rightarrow> (if neg then - (2 ^ 63) else 2 ^ 63 - 1)
           | Some (F64_Fin neg m e) \<Rightarrow>
               max (- (2 ^ 63)) (min (2 ^ 63 - 1) (the (f64_trunc (F64_Fin neg m e))))))"
proof -
  have clamp: "sint (word_of_int (max (- (2 ^ 63)) (min (2 ^ 63 - 1) v)) :: i64) = max (- (2 ^ 63)) (min (2 ^ 63 - 1) v)" for v
    by (simp add: sint_sbintrunc' signed_take_bit_int_eq_self)
  show ?thesis
    using clamp
    by (auto simp: row_i64_def f64_as_i64_def split: option.splits f64.splits)
qed

end
