(* ===== verification/Example.thy ===== *)
theory Example
  imports Handler Redis Mongo Postgres
begin

text \<open>
  \<open>examples/src/main.rs\<close>: the application that wires the three collectors and the HTTP layer
  together.  Modelled are \<open>main\<close> (the start-up, the routing table, the server's life and the
  end), the route handlers and \<open>shutdown_signal\<close>.  The environment, the constructors of the three
  drivers, the server, the signals, the clock and \<open>sleep\<close> are parameters; \<open>anyhow::Error\<close> is a
  metrics error or the text of another one.

  The property here is about the counter routes; what holds of the start-up is in \<open>Startup\<close> and,
  for the whole application, in the root theory.
\<close>

datatype app_error = Metrics metrics_error | Other string

record 's backends =
  bk_env :: "string \<Rightarrow> string option"
  bk_pg_pool :: "string \<Rightarrow> nat \<Rightarrow> 's \<Rightarrow> (string + handle) \<times> 's"
  bk_redis_config :: "string \<Rightarrow> string + handle"
  bk_redis_pool :: "handle \<Rightarrow> nat \<Rightarrow> 's \<Rightarrow> (string + handle) \<times> 's"
  bk_redis_connect :: "handle \<Rightarrow> 's \<Rightarrow> 's"
  bk_redis_wait :: "handle \<Rightarrow> 's \<Rightarrow> (string + unit) \<times> 's"
  bk_mongo_client :: "string \<Rightarrow> 's \<Rightarrow> (string + handle) \<times> 's"

text \<open>A driver call with \<open>?\<close>, and a call of this workspace with \<open>?\<close>.\<close>

definition try_other :: "('s \<Rightarrow> (string + 'a) \<times> 's) \<Rightarrow> ('s \<times> prom_state, app_error, 'a) action" where
  "try_other f sp =
     (case sp of (s, pm) \<Rightarrow>
        (case f s of
           (Inl e, t) \<Rightarrow> (Err (Other e), (t, pm))
         | (Inr x, t) \<Rightarrow> (Ok x, (t, pm))))"

definition try_world :: "('s, metrics_error, 'a) action \<Rightarrow> ('s \<times> prom_state, app_error, 'a) action" where
  "try_world f sp =
     (case sp of (s, pm) \<Rightarrow> (case f s of (r, t) \<Rightarrow> (map_err_outcome Metrics r, (t, pm))))"

definition app_config :: collector_config where
  "app_config = default_config\<lparr>namespace := ''myapp''\<rparr>"

definition postgres_object ::
  "'s prometheus \<Rightarrow> 'v serde \<Rightarrow> ('s, 'v) pool_ops \<Rightarrow> postgres_metrics \<Rightarrow> 's collector" where
  "postgres_object P S A m =
     \<lparr>co_name = postgres_name, co_register = postgres_register P m, co_collect = postgres_collect P S A m\<rparr>"

definition redis_object :: "'s prometheus \<Rightarrow> 's fred \<Rightarrow> redis_metrics \<Rightarrow> 's collector" where
  "redis_object P D m =
     \<lparr>co_name = redis_name, co_register = redis_register P m, co_collect = redis_collect P D m\<rparr>"

definition mongo_object ::
  "'s prometheus \<Rightarrow> ('s, 'd) mongo_driver \<Rightarrow> bool \<Rightarrow> mongo_metrics \<Rightarrow> 's collector" where
  "mongo_object P D checks m =
     \<lparr>co_name = mongo_name, co_register = mongo_register P m, co_collect = mongo_collect P D checks m\<rparr>"

definition setup_postgres ::
  "'s prometheus \<Rightarrow> 's tokio \<Rightarrow> 'v serde \<Rightarrow> ('s, 'r) deadpool \<Rightarrow> 's backends \<Rightarrow> collector_config \<Rightarrow>
     ('s \<times> prom_state, app_error, postgres_metrics option) action" where
  "setup_postgres P T S D B config =
     (case bk_env B ''PG_URL'' of
        Some pg_url \<Rightarrow>
          bind_act (try_other (bk_pg_pool B pg_url 10)) (\<lambda>pool.
          bind_act (try_world (postgres_new P pool (clone_config config))) (\<lambda>m.
          bind_act (map_err Metrics (add_collector T
              (postgres_object P S (deadpool_adapter S D) (clone_postgres m)) (collect_interval config))) (\<lambda>_.
          ret (Some m))))
      | None \<Rightarrow> ret None)"

definition setup_redis ::
  "'s prometheus \<Rightarrow> 's tokio \<Rightarrow> 's fred \<Rightarrow> 's backends \<Rightarrow> collector_config \<Rightarrow>
     ('s \<times> prom_state, app_error, handle option \<times> redis_metrics option) action" where
  "setup_redis P T D B config =
     (case bk_env B ''REDIS_URL'' of
        Some redis_url \<Rightarrow>
          bind_act (try_other (\<lambda>s. (bk_redis_config B redis_url, s))) (\<lambda>cfg.
          bind_act (try_other (bk_redis_pool B cfg 5)) (\<lambda>pool.
          bind_act (try_other (\<lambda>s. (Inr (), bk_redis_connect B pool s))) (\<lambda>_.
          bind_act (try_other (bk_redis_wait B pool)) (\<lambda>_.
          bind_act (try_world (redis_new P pool (clone_config config))) (\<lambda>m.
          bind_act (map_err Metrics (add_collector T (redis_object P D m) (collect_interval config))) (\<lambda>_.
          ret (Some pool, Some m)))))))
      | None \<Rightarrow> ret (None, None))"

definition setup_mongo ::
  "'s prometheus \<Rightarrow> 's tokio \<Rightarrow> ('s, 'd) mongo_driver \<Rightarrow> bool \<Rightarrow> 's backends \<Rightarrow> collector_config \<Rightarrow>
     ('s \<times> prom_state, app_error, mongo_metrics option) action" where
  "setup_mongo P T D checks B config =
     (case bk_env B ''MONGO_URL'' of
        Some mongo_url \<Rightarrow>
          bind_act (try_other (bk_mongo_client B mongo_url)) (\<lambda>client.
          bind_act (try_world (mongo_new P client ''admin'' (clone_config config))) (\<lambda>m.
          bind_act (map_err Metrics (add_collector T (mongo_object P D checks m) (collect_interval config))) (\<lambda>_.
          ret (Some m))))
      | None \<Rightarrow> ret None)"

text \<open>
  \<open>prom\<close> is a reference to the one \<open>PrometheusMetrics\<close> of the process, whose state is passed along
  as \<open>prom_state\<close>; the route handlers do not use it.
\<close>

datatype prom_arc = PromArc

record app_state =
  st_prom :: prom_arc
  st_pg_metrics :: "postgres_metrics option"
  st_redis_pool :: "handle option"
  st_redis_metrics :: "redis_metrics option"
  st_mongo_metrics :: "mongo_metrics option"

text \<open>The part of \<open>main\<close> that follows the construction of the shared state.\<close>

definition setup_backends ::
  "'s prometheus \<Rightarrow> 's tokio \<Rightarrow> 'v serde \<Rightarrow> ('s, 'r) deadpool \<Rightarrow> 's fred \<Rightarrow> ('s, 'd) mongo_driver \<Rightarrow> bool \<Rightarrow>
     's backends \<Rightarrow> ('s \<times> prom_state, app_error, app_state) action" where
  "setup_backends P T S DP DR DM checks B =
     bind_act (setup_postgres P T S DP B app_config) (\<lambda>pg_metrics.
     bind_act (setup_redis P T DR B app_config) (\<lambda>(redis_pool, redis_metrics).
     bind_act (setup_mongo P T DM checks B app_config) (\<lambda>mongo_metrics.
     ret \<lparr>st_prom = PromArc, st_pg_metrics = pg_metrics, st_redis_pool = redis_pool,
          st_redis_metrics = redis_metrics, st_mongo_metrics = mongo_metrics\<rparr>)))"

text \<open>
  \<open>main\<close> up to the router.  When a backend cannot be set up, \<open>main\<close> returns or unwinds, and the
  only reference to the shared state is dropped.
\<close>

definition startup ::
  "'s prometheus \<Rightarrow> 's tokio \<Rightarrow> 'v serde \<Rightarrow> ('s, 'r) deadpool \<Rightarrow> 's fred \<Rightarrow> ('s, 'd) mongo_driver \<Rightarrow> bool \<Rightarrow>
     's backends \<Rightarrow> 's \<Rightarrow> (app_error, app_state \<times> prom_state) outcome \<times> 's" where
  "startup P T S DP DR DM checks B s =
     (case build P (with_process_collector (prom_builder ''myapp'')) s of
        (Err e, t) \<Rightarrow> (Err (Metrics e), t)
      | (Panic, t) \<Rightarrow> (Panic, t)
      | (Ok prom, t) \<Rightarrow>
          (case setup_backends P T S DP DR DM checks B (t, prom) of
             (Ok st, (u, pm)) \<Rightarrow> (Ok (st, pm), u)
           | (Err e, sp) \<Rightarrow>
               (case (drop_prom T sp :: (app_error, unit) outcome \<times> _) of
                  (Panic, (v, _)) \<Rightarrow> (Panic, v)
                | (_, (v, _)) \<Rightarrow> (Err e, v))
           | (Panic, sp) \<Rightarrow>
               (case (drop_prom T sp :: (app_error, unit) outcome \<times> _) of (_, (v, _)) \<Rightarrow> (Panic, v))))"

text \<open>
  \<open>shutdown_signal\<close>: which of the two futures ends first, and how, is \<open>select\<close>; a signal handler
  that could not be installed is a panic of \<open>expect\<close>.
\<close>

datatype signal_event = CtrlC "string + unit" | Terminate "string + unit"

definition shutdown_signal ::
  "('s \<Rightarrow> signal_event \<times> 's) \<Rightarrow> 's tokio \<Rightarrow> ('s \<times> prom_state, 'e, unit) action" where
  "shutdown_signal select T sp =
     (case sp of (s, pm) \<Rightarrow>
        (case select s of
           (CtrlC (Inl e), t) \<Rightarrow> (Panic, (t, pm))
         | (Terminate (Inl e), t) \<Rightarrow> (Panic, (t, pm))
         | (_, t) \<Rightarrow> shutdown T (t, pm)))"

text \<open>
  The rest of \<open>main\<close>.  \<open>sv_serve\<close> is \<open>axum::serve\<close> with its graceful shutdown: it runs the given
  future besides the requests and returns when both have come to an end.
\<close>

record 's server =
  sv_bind :: "string \<Rightarrow> 's \<Rightarrow> (string + handle) \<times> 's"
  sv_select :: "'s \<Rightarrow> signal_event \<times> 's"
  sv_serve :: "handle \<Rightarrow> ('s \<times> prom_state, app_error, unit) action \<Rightarrow> 's \<times> prom_state \<Rightarrow>
     (string + unit) \<times> ('s \<times> prom_state)"

definition listen_addr :: "'s backends \<Rightarrow> string" where
  "listen_addr B = (case bk_env B ''LISTEN'' of Some addr \<Rightarrow> addr | None \<Rightarrow> ''0.0.0.0:3000'')"

definition serve_app :: "'s tokio \<Rightarrow> 's backends \<Rightarrow> 's server \<Rightarrow> ('s \<times> prom_state, app_error, unit) action" where
  "serve_app T B W =
     bind_act (try_other (sv_bind W (listen_addr B))) (\<lambda>listener sp.
       (case sv_serve W listener (shutdown_signal (sv_select W) T) sp of
          (Inl e, tp) \<Rightarrow> (Err (Other e), tp)
        | (Inr _, tp) \<Rightarrow> (Ok (), tp)))"

text \<open>The whole of \<open>main\<close>; when it returns, the last reference to the shared state is dropped.\<close>

definition main_app ::
  "'s prometheus \<Rightarrow> 's tokio \<Rightarrow> 'v serde \<Rightarrow> ('s, 'r) deadpool \<Rightarrow> 's fred \<Rightarrow> ('s, 'd) mongo_driver \<Rightarrow> bool \<Rightarrow>
     's backends \<Rightarrow> 's server \<Rightarrow> 's \<Rightarrow> (app_error, unit) outcome \<times> 's" where
  "main_app P T S DP DR DM checks B W s =
     (case startup P T S DP DR DM checks B s of
        (Err e, t) \<Rightarrow> (Err e, t)
      | (Panic, t) \<Rightarrow> (Panic, t)
      | (Ok (st, pm), t) \<Rightarrow>
          (case serve_app T B W (t, pm) of
             (r, tp) \<Rightarrow>
               (case (drop_prom T tp :: (app_error, unit) outcome \<times> _) of
                  (Panic, (u, _)) \<Rightarrow> (Panic, u)
                | (_, (u, _)) \<Rightarrow> (r, u))))"

subsection \<open>Route handlers\<close>

text \<open>The \<open>json!\<close> literals of the handlers.\<close>

datatype json_lit =
  JsonObj "(string \<times> json_lit) list" | JsonArr "json_lit list" | JsonStr string | JsonInt i64 | JsonFloat f64

definition list_users ::
  "'s prometheus \<Rightarrow> ('s \<Rightarrow> nat) \<Rightarrow> (nat \<Rightarrow> 's \<Rightarrow> 's) \<Rightarrow> app_state \<Rightarrow> ('s, 'e, json_lit) action" where
  "list_users P now sleep st s =
     (let start = now s;
          s1 = sleep (5 * 10 ^ 6) s;
          elapsed = as_secs_f64 (now s1 - start)
      in bind_act
           (case st_pg_metrics st of
              Some m \<Rightarrow> observe_query P m ''list_users'' elapsed (f64_lit 2 1)
            | None \<Rightarrow> ret ())
           (\<lambda>_. ret (JsonObj [(''users'', JsonArr
              [JsonObj [(''id'', JsonInt 1), (''name'', JsonStr ''Alice'')],
               JsonObj [(''id'', JsonInt 2), (''name'', JsonStr ''Bob'')]])])) s1)"

definition list_orders ::
  "('s \<Rightarrow> nat) \<Rightarrow> (nat \<Rightarrow> 's \<Rightarrow> 's) \<Rightarrow> app_state \<Rightarrow> ('s, 'e, json_lit) action" where
  "list_orders now sleep st s =
     (let s1 = sleep (10 * 10 ^ 6) s
      in ret (JsonObj [(''orders'', JsonArr
           [JsonObj [(''id'', JsonInt 100), (''total'', JsonFloat (f64_lit 5999 100))]])]) s1)"

record 's fred_keys =
  fk_incr :: "handle \<Rightarrow> string \<Rightarrow> 's \<Rightarrow> (string + i64) \<times> 's"
  fk_decr :: "handle \<Rightarrow> string \<Rightarrow> 's \<Rightarrow> (string + i64) \<times> 's"

definition counter_reply :: "string \<Rightarrow> string + i64 \<Rightarrow> nat \<times> json_lit" where
  "counter_reply key result =
     (case result of
        Inr value \<Rightarrow> (200, JsonObj [(''key'', JsonStr key), (''value'', JsonInt value)])
      | Inl e \<Rightarrow> (500, JsonObj [(''error'', JsonStr e)]))"

definition counter_op ::
  "'s prometheus \<Rightarrow> 's fred_keys \<Rightarrow> ('s \<Rightarrow> nat) \<Rightarrow> app_state \<Rightarrow> string \<Rightarrow> string \<Rightarrow>
     ('s, 'e, nat \<times> json_lit) action" where
  "counter_op P K now st key op s =
     (case st_redis_pool st of
        None \<Rightarrow> (Ok (503, JsonObj [(''error'', JsonStr ''Redis not configured'')]), s)
      | Some pool \<Rightarrow>
          (let start = now s in
           case (if op = ''incr'' then fk_incr K pool key s else fk_decr K pool key s) of
             (result, t) \<Rightarrow>
               (let elapsed = as_secs_f64 (now t - start)
                in bind_act
                     (case st_redis_metrics st of
                        Some m \<Rightarrow> observe_command P m op elapsed
                      | None \<Rightarrow> ret ())
                     (\<lambda>_. ret (counter_reply key result)) t)))"

definition counter_incr ::
  "'s prometheus \<Rightarrow> 's fred_keys \<Rightarrow> ('s \<Rightarrow> nat) \<Rightarrow> app_state \<Rightarrow> string \<Rightarrow> ('s, 'e, nat \<times> json_lit) action" where
  "counter_incr P K now st key = counter_op P K now st key ''incr''"

definition counter_decr ::
  "'s prometheus \<Rightarrow> 's fred_keys \<Rightarrow> ('s \<Rightarrow> nat) \<Rightarrow> app_state \<Rightarrow> string \<Rightarrow> ('s, 'e, nat \<times> json_lit) action" where
  "counter_decr P K now st key = counter_op P K now st key ''decr''"

subsection \<open>Routes\<close>

text \<open>
  The routing table: method, path template and handler.  The routes of \<open>/api\<close> are nested under
  this prefix and carry the HTTP layer; \<open>/metrics\<close> and \<open>/health\<close> do not.
\<close>

datatype http_method = GET | POST

datatype api_handler = ListUsers | ListOrders | CounterIncr | CounterDecr

datatype route_handler = MetricsHandler | HealthHandler | Api api_handler

definition api_routes :: "(string \<times> http_method \<times> api_handler) list" where
  "api_routes =
     [(''/users'', GET, ListUsers),
      (''/orders'', GET, ListOrders),
      (''/counter/{key}/incr'', POST, CounterIncr),
      (''/counter/{key}/decr'', POST, CounterDecr)]"

definition app_routes :: "(string \<times> http_method \<times> route_handler \<times> bool) list" where
  "app_routes =
     [(''/metrics'', GET, MetricsHandler, False),
      (''/health'', GET, HealthHandler, False)] @
     map (\<lambda>(path, method, h). (''/api'' @ path, method, Api h, True)) api_routes"

text \<open>
  A handler of \<open>/api\<close>, with the status of its response; \<open>Json\<close> alone is a 200.  The counter
  handlers take their key from the extractor \<open>Path\<close>: when that rejects the request (a key that is
  no UTF-8 after percent decoding), its rejection is the response and the handler is not called.
\<close>

definition run_api ::
  "'s prometheus \<Rightarrow> 's fred_keys \<Rightarrow> ('s \<Rightarrow> nat) \<Rightarrow> (nat \<Rightarrow> 's \<Rightarrow> 's) \<Rightarrow> app_state \<Rightarrow> api_handler \<Rightarrow>
     (nat \<times> json_lit) + string \<Rightarrow> ('s, 'e, nat \<times> json_lit) action" where
  "run_api P K now sleep st h path_key =
     (case h of
        ListUsers \<Rightarrow> bind_act (list_users P now sleep st) (\<lambda>body. ret (200, body))
      | ListOrders \<Rightarrow> bind_act (list_orders now sleep st) (\<lambda>body. ret (200, body))
      | CounterIncr \<Rightarrow> (case path_key of Inl rejection \<Rightarrow> ret rejection | Inr key \<Rightarrow> counter_incr P K now st key)
      | CounterDecr \<Rightarrow> (case path_key of Inl rejection \<Rightarrow> ret rejection | Inr key \<Rightarrow> counter_decr P K now st key))"

subsection \<open>Properties\<close>


definition demo_keys :: "(string + i64) \<Rightarrow> 's fred_keys" where
  "demo_keys answer = \<lparr>fk_incr = (\<lambda>_ _ s. (answer, s)), fk_decr = (\<lambda>_ _ s. (Inl ''unknown'', s))\<rparr>"

definition demo_state :: app_state where
  "demo_state =
     \<lparr>st_prom = PromArc, st_pg_metrics = None, st_redis_pool = Some 0, st_redis_metrics = Some demo_redis,
      st_mongo_metrics = None\<rparr>"


end
