(* ===== verification/Startup.thy ===== *)
theory Startup
  imports Example
begin

text \<open>
  What holds while the parts of the application are put together and run side by side; the
  definitions are those of the theories it imports.

  \<^item> \<open>ready\<close>: between two set-up steps the registry exports a known list of names.  Each backend
    extends it (\<open>setup_backends_ok\<close>), because the parts have different metric names.
  \<^item> \<open>keeps\<close>: actions that keep a predicate on the state whatever their result, composed by the
    rules in \<open>keeps_intro\<close>.  With \<open>task_inv\<close> it follows the tasks that were not told to stop through
    every early exit of the start-up, with \<open>tasks_from\<close> exactly those that a start-up has spawned.
  \<^item> \<open>app_tasks\<close>: the loops of the configured backends; \<open>added\<close>: the handles kept are theirs;
    \<open>app_tasks_alive\<close>: they outlive any number of polls.
  \<^item> \<open>add_collector_again\<close>: a collector whose first name is taken is refused.
  \<^item> \<open>grown\<close>, \<open>fresh_part\<close>: what is built later leaves the earlier parts as they are, so that
    after the start-up all metrics have their first values (\<open>startup_parts\<close>).
  \<^item> \<open>http_collector_disjoint\<close>: a collector and the HTTP layer share no metric.
\<close>

subsection \<open>Starting up\<close>

definition ready :: "'s prom_view \<Rightarrow> 's \<Rightarrow> prom_state \<Rightarrow> string list \<Rightarrow> bool" where
  "ready V s pm names \<longleftrightarrow>
     (\<exists>rs. regs V s (m_registry pm) = Some rs \<and> set rs \<subseteq> dom (meta V s) \<and> names_of (meta V s) rs = names) \<and>
     \<not> m_poisoned pm"

lemma ready_same: "same V s t \<Longrightarrow> ready V s pm names \<Longrightarrow> ready V t pm names"
  by (simp add: ready_def same_def)

text \<open>A step that keeps the metrics that exist; metrics with their first values.\<close>

definition grown :: "'s prom_view \<Rightarrow> 's \<Rightarrow> 's \<Rightarrow> bool" where
  "grown V s t \<longleftrightarrow> (\<forall>h\<in>dom (meta V s). meta V t h = meta V s h \<and> (\<forall>ls. val V t (h, ls) = val V s (h, ls)))"

definition fresh_part :: "'s prom_view \<Rightarrow> 's \<Rightarrow> handle list \<Rightarrow> metric_desc list \<Rightarrow> bool" where
  "fresh_part V t hs ds \<longleftrightarrow>
     owned (meta V t) hs ds \<and> (\<forall>(h, d)\<in>set (zip hs ds). \<forall>ls. val V t (h, ls) = initial_value (d_kind d))"

lemma grown_same: "same V s t \<Longrightarrow> grown V s t"
  by (simp add: grown_def same_def)

lemma grown_trans:
  assumes "grown V s t" "grown V t u"
  shows "grown V s u"
  unfolding grown_def
proof (intro ballI)
  fix h assume h: "h \<in> dom (meta V s)"
  with assms(1) have 1: "meta V t h = meta V s h \<and> (\<forall>ls. val V t (h, ls) = val V s (h, ls))" by (simp add: grown_def)
  with h have "h \<in> dom (meta V t)" by (simp add: domIff)
  with assms(2) 1 show "meta V u h = meta V s h \<and> (\<forall>ls. val V u (h, ls) = val V s (h, ls))" by (simp add: grown_def)
qed

lemma grown_allocated:
  assumes "allocated V s t hs ds" "meta V u = meta V t" "val V u = val V t"
  shows "grown V s u"
  using assms(2,3) allocated_old [OF assms(1)] by (simp add: grown_def)

lemma fresh_allocated:
  assumes "allocated V s t hs ds" "meta V u = meta V t" "val V u = val V t"
  shows "fresh_part V u hs ds"
  using assms allocated_owned [OF assms(1)] by (simp add: fresh_part_def allocated_def)

lemma fresh_grown:
  assumes f: "fresh_part V s hs ds" and g: "grown V s t"
  shows "fresh_part V t hs ds"
proof -
  have m: "meta V t h = meta V s h" "val V t (h, ls) = val V s (h, ls)" if "h \<in> set hs" for h ls
    using f g that owned_dom [of "meta V s" hs ds] by (auto simp: fresh_part_def grown_def)
  have "owned (meta V t) hs ds" using f m by (auto simp: fresh_part_def elim!: owned_cong)
  with f m show ?thesis by (force simp: fresh_part_def dest: set_zip_leftD)
qed

text \<open>The state after a collector with the given task was added.\<close>

definition with_task :: "prom_state \<Rightarrow> string \<Rightarrow> handle \<Rightarrow> prom_state" where
  "with_task pm name h = pm\<lparr>m_handles := m_handles pm @ [(name, h)], m_count := m_count pm + 1\<rparr>"

context metrics_collector
begin

text \<open>A collector just constructed, with new names, is added.\<close>

lemma add_allocated:
  assumes P: "prom_ok P V" and T: "tokio_quiet T V" and al: "allocated V s t own descs"
    and rd: "ready V s pm names"
    and fresh: "distinct (concat (map d_names descs))" "set (concat (map d_names descs)) \<inter> set names = {}"
  shows "\<exists>h u. add_collector T \<lparr>co_name = name, co_register = register P, co_collect = collect P\<rparr> interval (t, pm) =
       (Ok (), (u, with_task pm name h)) \<and>
     spawned T \<lparr>task_name = name, task_interval = interval, task_collect = collect P\<rparr> h \<and>
     ready V u (with_task pm name h) (names @ concat (map d_names descs)) \<and> fresh_part V u own descs \<and> grown V s u"
proof -
  obtain rs where rs: "regs V s (m_registry pm) = Some rs" "set rs \<subseteq> dom (meta V s)"
    "names_of (meta V s) rs = names" and np: "\<not> m_poisoned pm"
    using rd by (auto simp: ready_def)
  have own: "owned (meta V t) own descs" by (rule allocated_owned [OF al])
  have keep: "meta V t h = meta V s h" if "h \<in> set rs" for h
    using allocated_old(1) [OF al] rs(2) that by blast
  have r: "regs V t (m_registry pm) = Some rs" using al rs(1) by (simp add: allocated_def)
  have old: "names_of (meta V t) rs = names" using keep rs(3) by (metis names_of_cong)
  have new: "names_of (meta V t) own = concat (map d_names descs)" by (rule names_of_owned [OF own])
  obtain h u where u: "add_collector T \<lparr>co_name = name, co_register = register P, co_collect = collect P\<rparr> interval (t, pm) =
       (Ok (), (u, with_task pm name h))" "meta V u = meta V t" "val V u = val V t" "regs V u = (regs V t)(m_registry pm \<mapsto> rs @ own)"
    and sp: "spawned T \<lparr>task_name = name, task_interval = interval, task_collect = collect P\<rparr> h"
    using add_fresh [OF P T own r np, of interval] fresh unfolding old new with_task_def by blast
  moreover have "set (rs @ own) \<subseteq> dom (meta V t)"
    using keep rs(2) owned_dom [OF own] by (auto simp: domIff subset_iff)
  ultimately have "ready V u (with_task pm name h) (names @ concat (map d_names descs))"
    using np old new by (auto simp: ready_def with_task_def)
  with u(1) sp fresh_allocated [OF al u(2,3)] grown_allocated [OF al u(2,3)] show ?thesis by blast
qed

end

lemma http_start_grown:
  assumes h: "http_start V m ns (http_idle s)" and g: "grown V s t"
  shows "http_start V m ns (http_idle t)"
proof -
  have own: "owned (meta V s) (http_handles m) (http_descs ns)" using h by (simp add: http_start_def http_idle_def)
  have k: "meta V t h = meta V s h" "val V t (h, ls) = val V s (h, ls)" if "h \<in> set (http_handles m)" for h ls
    using owned_dom [OF own] g that by (auto simp: grown_def)
  have "owned (meta V t) (http_handles m) (http_descs ns)" using own k(1) by (rule owned_cong)
  with h k show ?thesis by (simp add: http_start_def http_idle_def plain_def http_handles_def)
qed

text \<open>The metric names of a part of the application.\<close>

definition part_names :: "string \<Rightarrow> string list \<Rightarrow> string list" where
  "part_names sub names = map (\<lambda>n. ''myapp_'' @ sub @ n) names"

lemma app_ns: "namespace (clone_config app_config) = ''myapp''" "ns_prefix ''myapp'' = ''myapp_''"
    "valid_namespace (namespace (clone_config app_config))"
  by (simp_all add: clone_config_id app_config_def default_config_def ns_prefix_def valid_namespace_def valid_eval)

definition pg_up :: "'s backends \<Rightarrow> 's prom_view \<Rightarrow> string \<Rightarrow> bool" where
  "pg_up B V url \<longleftrightarrow> (\<forall>s. \<exists>p t. bk_pg_pool B url 10 s = (Inr p, t) \<and> same V s t)"

definition redis_up :: "'s backends \<Rightarrow> 's prom_view \<Rightarrow> string \<Rightarrow> bool" where
  "redis_up B V url \<longleftrightarrow>
     (\<exists>cfg. bk_redis_config B url = Inr cfg \<and>
        (\<forall>s. \<exists>p t. bk_redis_pool B cfg 5 s = (Inr p, t) \<and> same V s t)) \<and>
     (\<forall>p s. same V s (bk_redis_connect B p s) \<and> (\<exists>t. bk_redis_wait B p s = (Inr (), t) \<and> same V s t))"

definition mongo_up :: "'s backends \<Rightarrow> 's prom_view \<Rightarrow> string \<Rightarrow> bool" where
  "mongo_up B V url \<longleftrightarrow> (\<forall>s. \<exists>c t. bk_mongo_client B url s = (Inr c, t) \<and> same V s t)"

definition backends_up :: "'s backends \<Rightarrow> 's prom_view \<Rightarrow> bool" where
  "backends_up B V \<longleftrightarrow>
     (\<forall>url. bk_env B ''PG_URL'' = Some url \<longrightarrow> pg_up B V url) \<and>
     (\<forall>url. bk_env B ''REDIS_URL'' = Some url \<longrightarrow> redis_up B V url) \<and>
     (\<forall>url. bk_env B ''MONGO_URL'' = Some url \<longrightarrow> mongo_up B V url)"

lemma try_other_of_Inr: "f s = (Inr x, t) \<Longrightarrow> try_other f (s, pm) = (Ok x, (t, pm))"
  by (simp add: try_other_def)

lemma try_world_of_Ok: "f s = (Ok x, t) \<Longrightarrow> try_world f (s, pm) = (Ok x, (t, pm))"
  by (simp add: try_world_def)

lemma map_err_of_Ok: "m s = (Ok x, t) \<Longrightarrow> map_err f m s = (Ok x, t)"
  by (simp add: map_err_iff)

lemmas run_setup = bind_act_of_Ok try_other_of_Inr try_world_of_Ok map_err_of_Ok

text \<open>The task of a collector of the application.\<close>

definition loop_task_of :: "'s collector \<Rightarrow> 's loop_task" where
  "loop_task_of c = \<lparr>task_name = co_name c, task_interval = collect_interval app_config, task_collect = co_collect c\<rparr>"

lemma setup_postgres_up:
  assumes P: "prom_ok P V" and T: "tokio_quiet T V" and url: "bk_env B ''PG_URL'' = Some url" and up: "pg_up B V url"
    and rd: "ready V s pm names" and fresh: "set (part_names ''postgres_'' postgres_names) \<inter> set names = {}"
  shows "\<exists>m h t. setup_postgres P T S D B app_config (s, pm) = (Ok (Some m), (t, with_task pm postgres_name h)) \<and>
     spawned T (loop_task_of (postgres_object P S (deadpool_adapter S D) m)) h \<and>
     ready V t (with_task pm postgres_name h) (names @ part_names ''postgres_'' postgres_names) \<and>
     fresh_part V t (postgres_handles m) (postgres_descs ''myapp'') \<and> grown V s t"
proof -
  obtain p s1 where p: "bk_pg_pool B url 10 s = (Inr p, s1)" "same V s s1" using up unfolding pg_up_def by blast
  obtain m s2 where m: "postgres_new P p (clone_config app_config) s1 = (Ok m, s2)"
    using postgres_new_valid [OF P app_ns(3)] by blast
  have al: "allocated V s1 s2 (postgres_handles m) (postgres_descs ''myapp'')"
    using postgres_new_Ok(1) [OF P m] by (simp add: app_ns)
  have nm: "concat (map d_names (postgres_descs ''myapp'')) = part_names ''postgres_'' postgres_names"
    by (simp add: postgres_desc_names app_ns part_names_def)
  have d: "distinct (part_names ''postgres_'' postgres_names)"
    unfolding part_names_def prefixed_distinct by (simp add: postgres_names_def)
  have "\<exists>h t. add_collector T (postgres_object P S (deadpool_adapter S D) (clone_postgres m)) (collect_interval app_config) (s2, pm) =
        (Ok (), (t, with_task pm postgres_name h)) \<and>
      spawned T (loop_task_of (postgres_object P S (deadpool_adapter S D) m)) h \<and>
      ready V t (with_task pm postgres_name h) (names @ part_names ''postgres_'' postgres_names) \<and>
      fresh_part V t (postgres_handles m) (postgres_descs ''myapp'') \<and> grown V s1 t"
    unfolding loop_task_of_def postgres_object_def clone_postgres_id collector.simps
    by (rule deadpool.postgres.add_allocated [OF P T al ready_same [OF p(2) rd], unfolded nm, OF d fresh])
  then obtain h t where h: "add_collector T (postgres_object P S (deadpool_adapter S D) (clone_postgres m)) (collect_interval app_config) (s2, pm) =
        (Ok (), (t, with_task pm postgres_name h))"
      and sp: "spawned T (loop_task_of (postgres_object P S (deadpool_adapter S D) m)) h" and h2: "ready V t (with_task pm postgres_name h) (names @ part_names ''postgres_'' postgres_names)"
      "fresh_part V t (postgres_handles m) (postgres_descs ''myapp'')" "grown V s1 t"
    by blast
  have "setup_postgres P T S D B app_config (s, pm) = (Ok (Some m), (t, with_task pm postgres_name h))"
    using url p(1) m h by (simp add: setup_postgres_def run_setup ret_def)
  with sp h2(1,2) grown_trans [OF grown_same [OF p(2)] h2(3)] show ?thesis by blast
qed

lemma setup_redis_up:
  assumes P: "prom_ok P V" and T: "tokio_quiet T V" and url: "bk_env B ''REDIS_URL'' = Some url" and up: "redis_up B V url"
    and rd: "ready V s pm names" and fresh: "set (part_names ''redis_'' redis_names) \<inter> set names = {}"
  shows "\<exists>pool m h t. setup_redis P T D B app_config (s, pm) = (Ok (Some pool, Some m), (t, with_task pm redis_name h)) \<and>
     r_pool m = pool \<and>
     spawned T (loop_task_of (redis_object P D m)) h \<and>
     ready V t (with_task pm redis_name h) (names @ part_names ''redis_'' redis_names) \<and>
     fresh_part V t (redis_handles m) (redis_descs ''myapp'') \<and> grown V s t"
proof -
  obtain cfg p s1 where p: "bk_redis_config B url = Inr cfg" "bk_redis_pool B cfg 5 s = (Inr p, s1)" "same V s s1"
    using up unfolding redis_up_def by blast
  have conn: "same V s1 (bk_redis_connect B p s1)" using up by (simp add: redis_up_def)
  obtain s2 where w: "bk_redis_wait B p (bk_redis_connect B p s1) = (Inr (), s2)"
    "same V (bk_redis_connect B p s1) s2" using up unfolding redis_up_def by blast
  note s2 = w(1) same_trans [OF p(3) same_trans [OF conn w(2)]]
  obtain m s3 where m: "redis_new P p (clone_config app_config) s2 = (Ok m, s3)"
    using redis_new_valid [OF P app_ns(3)] by blast
  have al: "allocated V s2 s3 (redis_handles m) (redis_descs ''myapp'')"
    using redis_new_Ok(1) [OF P m] by (simp add: app_ns)
  have nm: "concat (map d_names (redis_descs ''myapp'')) = part_names ''redis_'' redis_names"
    by (simp add: redis_desc_names app_ns part_names_def)
  have d: "distinct (part_names ''redis_'' redis_names)"
    unfolding part_names_def prefixed_distinct by (simp add: redis_names_def)
  have "\<exists>h t. add_collector T (redis_object P D m) (collect_interval app_config) (s3, pm) =
        (Ok (), (t, with_task pm redis_name h)) \<and>
      spawned T (loop_task_of (redis_object P D m)) h \<and>
      ready V t (with_task pm redis_name h) (names @ part_names ''redis_'' redis_names) \<and>
      fresh_part V t (redis_handles m) (redis_descs ''myapp'') \<and> grown V s2 t"
    unfolding loop_task_of_def redis_object_def collector.simps
    by (rule redis.add_allocated [OF P T al ready_same [OF s2(2) rd], unfolded nm, OF d fresh])
  then obtain h t where h: "add_collector T (redis_object P D m) (collect_interval app_config) (s3, pm) =
        (Ok (), (t, with_task pm redis_name h))"
      and sp: "spawned T (loop_task_of (redis_object P D m)) h" and h2: "ready V t (with_task pm redis_name h) (names @ part_names ''redis_'' redis_names)"
      "fresh_part V t (redis_handles m) (redis_descs ''myapp'')" "grown V s2 t"
    by blast
  have "setup_redis P T D B app_config (s, pm) = (Ok (Some p, Some m), (t, with_task pm redis_name h))"
    using url p(1,2) s2(1) m h by (simp add: setup_redis_def try_other_def try_world_def bind_act_def map_err_def ret_def)
  with sp h2(1,2) grown_trans [OF grown_same [OF s2(2)] h2(3)] redis_new_Ok(2) [OF P m] show ?thesis by blast
qed

lemma setup_mongo_up:
  assumes P: "prom_ok P V" and T: "tokio_quiet T V" and url: "bk_env B ''MONGO_URL'' = Some url" and up: "mongo_up B V url"
    and rd: "ready V s pm names" and fresh: "set (part_names ''mongo_'' mongo_names) \<inter> set names = {}"
  shows "\<exists>m h t. setup_mongo P T D checks B app_config (s, pm) = (Ok (Some m), (t, with_task pm mongo_name h)) \<and>
     spawned T (loop_task_of (mongo_object P D checks m)) h \<and>
     ready V t (with_task pm mongo_name h) (names @ part_names ''mongo_'' mongo_names) \<and>
     fresh_part V t (mongo_handles m) (mongo_descs ''myapp'') \<and> grown V s t"
proof -
  obtain c s1 where c: "bk_mongo_client B url s = (Inr c, s1)" "same V s s1" using up unfolding mongo_up_def by blast
  obtain m s2 where m: "mongo_new P c ''admin'' (clone_config app_config) s1 = (Ok m, s2)"
    using mongo_new_valid [OF P app_ns(3)] by blast
  have al: "allocated V s1 s2 (mongo_handles m) (mongo_descs ''myapp'')"
    using mongo_new_Ok(1) [OF P m] by (simp add: app_ns)
  have nm: "concat (map d_names (mongo_descs ''myapp'')) = part_names ''mongo_'' mongo_names"
    by (simp add: mongo_desc_names app_ns part_names_def)
  have d: "distinct (part_names ''mongo_'' mongo_names)"
    unfolding part_names_def prefixed_distinct by (simp add: mongo_names_def)
  have "\<exists>h t. add_collector T (mongo_object P D checks m) (collect_interval app_config) (s2, pm) =
        (Ok (), (t, with_task pm mongo_name h)) \<and>
      spawned T (loop_task_of (mongo_object P D checks m)) h \<and>
      ready V t (with_task pm mongo_name h) (names @ part_names ''mongo_'' mongo_names) \<and>
      fresh_part V t (mongo_handles m) (mongo_descs ''myapp'') \<and> grown V s1 t"
    unfolding loop_task_of_def mongo_object_def collector.simps
    by (rule mongo.add_allocated [OF P T al ready_same [OF c(2) rd], unfolded nm, OF d fresh])
  then obtain h t where h: "add_collector T (mongo_object P D checks m) (collect_interval app_config) (s2, pm) =
        (Ok (), (t, with_task pm mongo_name h))"
      and sp: "spawned T (loop_task_of (mongo_object P D checks m)) h" and h2: "ready V t (with_task pm mongo_name h) (names @ part_names ''mongo_'' mongo_names)"
      "fresh_part V t (mongo_handles m) (mongo_descs ''myapp'')" "grown V s1 t"
    by blast
  have "setup_mongo P T D checks B app_config (s, pm) = (Ok (Some m), (t, with_task pm mongo_name h))"
    using url c(1) m h by (simp add: setup_mongo_def run_setup ret_def)
  with sp h2(1,2) grown_trans [OF grown_same [OF c(2)] h2(3)] show ?thesis by blast
qed

text \<open>
  The collectors with the tasks \<open>lts\<close> were added to the shared state, in this order: each one's
  handle is that of its own loop.
\<close>

definition added :: "'s tokio \<Rightarrow> prom_state \<Rightarrow> 's loop_task list \<Rightarrow> prom_state \<Rightarrow> bool" where
  "added T pm lts pm' \<longleftrightarrow>
     m_registry pm' = m_registry pm \<and> m_http pm' = m_http pm \<and>
     (\<exists>new. m_handles pm' = m_handles pm @ new \<and>
        list_all2 (\<lambda>(name, h) lt. name = task_name lt \<and> spawned T lt h) new lts) \<and>
     m_count pm' = m_count pm + of_nat (length lts)"

lemma added_refl: "added T pm [] pm"
  by (simp add: added_def)

lemma added_with_task: "spawned T lt h \<Longrightarrow> name = task_name lt \<Longrightarrow> added T pm [lt] (with_task pm name h)"
  by (simp add: added_def with_task_def)

lemma added_trans:
  assumes "added T pm lts pm'" and "added T pm' lts' pm''"
  shows "added T pm (lts @ lts') pm''"
proof -
  obtain new where new: "m_handles pm' = m_handles pm @ new"
    "list_all2 (\<lambda>(name, h) lt. name = task_name lt \<and> spawned T lt h) new lts"
    using assms(1) by (auto simp: added_def)
  obtain new' where new': "m_handles pm'' = m_handles pm' @ new'"
    "list_all2 (\<lambda>(name, h) lt. name = task_name lt \<and> spawned T lt h) new' lts'"
    using assms(2) by (auto simp: added_def)
  have "list_all2 (\<lambda>(name, h) lt. name = task_name lt \<and> spawned T lt h) (new @ new') (lts @ lts')"
    using new(2) new'(2) by (rule list_all2_appendI)
  with assms new(1) new'(1) show ?thesis by (auto simp: added_def)
qed

text \<open>The tasks of the collectors whose metrics the state has, in the order of the set-up.\<close>

definition opt_part :: "'a option \<Rightarrow> ('a \<Rightarrow> 'b list) \<Rightarrow> 'b list" where
  "opt_part x f = (case x of None \<Rightarrow> [] | Some m \<Rightarrow> f m)"

lemma opt_part_simps [simp]: "opt_part None f = []" "opt_part (Some m) f = f m"
  by (simp_all add: opt_part_def)

definition app_tasks ::
  "'s prometheus \<Rightarrow> 'v serde \<Rightarrow> ('s, 'r) deadpool \<Rightarrow> 's fred \<Rightarrow> ('s, 'd) mongo_driver \<Rightarrow> bool \<Rightarrow>
     app_state \<Rightarrow> 's loop_task list" where
  "app_tasks P S DP DR DM checks st =
     opt_part (st_pg_metrics st) (\<lambda>m. [loop_task_of (postgres_object P S (deadpool_adapter S DP) m)]) @
     opt_part (st_redis_metrics st) (\<lambda>m. [loop_task_of (redis_object P DR m)]) @
     opt_part (st_mongo_metrics st) (\<lambda>m. [loop_task_of (mongo_object P DM checks m)])"

lemma loop_task_of_name:
  "task_name (loop_task_of (postgres_object P S A m)) = postgres_name"
  "task_name (loop_task_of (redis_object P D m')) = redis_name"
  "task_name (loop_task_of (mongo_object P D' checks m'')) = mongo_name"
  by (simp_all add: loop_task_of_def postgres_object_def redis_object_def mongo_object_def)

text \<open>What a backend contributes: nothing, unless its variable is set.\<close>

definition if_set :: "'s backends \<Rightarrow> string \<Rightarrow> 'a list \<Rightarrow> 'a list" where
  "if_set B key xs = (if bk_env B key = None then [] else xs)"

lemma if_set_simps:
  "bk_env B key = None \<Longrightarrow> if_set B key xs = []" "bk_env B key = Some v \<Longrightarrow> if_set B key xs = xs"
  by (simp_all add: if_set_def)

lemma set_if_set: "set (if_set B key xs) \<subseteq> set xs"
  by (simp add: if_set_def)

lemma setup_postgres_ok:
  assumes P: "prom_ok P V" and T: "tokio_quiet T V" and up: "backends_up B V"
    and rd: "ready V s pm names" and fresh: "set (part_names ''postgres_'' postgres_names) \<inter> set names = {}"
  shows "\<exists>pg t pm'. setup_postgres P T S D B app_config (s, pm) = (Ok pg, (t, pm')) \<and>
     (pg = None \<longleftrightarrow> bk_env B ''PG_URL'' = None) \<and>
     added T pm (opt_part pg (\<lambda>m. [loop_task_of (postgres_object P S (deadpool_adapter S D) m)])) pm' \<and>
     ready V t pm' (names @ if_set B ''PG_URL'' (part_names ''postgres_'' postgres_names)) \<and>
     (\<forall>x. pg = Some x \<longrightarrow> fresh_part V t (postgres_handles x) (postgres_descs ''myapp'')) \<and> grown V s t"
proof (cases "bk_env B ''PG_URL''")
  case None
  then show ?thesis using rd by (auto simp: setup_postgres_def ret_def if_set_simps added_refl grown_same)
next
  case (Some url)
  with up have "pg_up B V url" by (simp add: backends_up_def)
  from setup_postgres_up [OF P T Some this rd fresh, of S D] Some show ?thesis
    by (fastforce simp: if_set_simps loop_task_of_name intro: added_with_task)
qed

lemma setup_redis_ok:
  assumes P: "prom_ok P V" and T: "tokio_quiet T V" and up: "backends_up B V"
    and rd: "ready V s pm names" and fresh: "set (part_names ''redis_'' redis_names) \<inter> set names = {}"
  shows "\<exists>pool m t pm'. setup_redis P T D B app_config (s, pm) = (Ok (pool, m), (t, pm')) \<and>
     (m = None \<longleftrightarrow> bk_env B ''REDIS_URL'' = None) \<and> pool = map_option r_pool m \<and>
     added T pm (opt_part m (\<lambda>m. [loop_task_of (redis_object P D m)])) pm' \<and>
     ready V t pm' (names @ if_set B ''REDIS_URL'' (part_names ''redis_'' redis_names)) \<and>
     (\<forall>x. m = Some x \<longrightarrow> fresh_part V t (redis_handles x) (redis_descs ''myapp'')) \<and> grown V s t"
proof (cases "bk_env B ''REDIS_URL''")
  case None
  then show ?thesis using rd by (auto simp: setup_redis_def ret_def if_set_simps added_refl grown_same)
next
  case (Some url)
  with up have "redis_up B V url" by (simp add: backends_up_def)
  from setup_redis_up [OF P T Some this rd fresh, of D] Some show ?thesis
    by (fastforce simp: if_set_simps loop_task_of_name intro: added_with_task)
qed

lemma setup_mongo_ok:
  assumes P: "prom_ok P V" and T: "tokio_quiet T V" and up: "backends_up B V"
    and rd: "ready V s pm names" and fresh: "set (part_names ''mongo_'' mongo_names) \<inter> set names = {}"
  shows "\<exists>m t pm'. setup_mongo P T D checks B app_config (s, pm) = (Ok m, (t, pm')) \<and>
     (m = None \<longleftrightarrow> bk_env B ''MONGO_URL'' = None) \<and>
     added T pm (opt_part m (\<lambda>m. [loop_task_of (mongo_object P D checks m)])) pm' \<and>
     ready V t pm' (names @ if_set B ''MONGO_URL'' (part_names ''mongo_'' mongo_names)) \<and>
     (\<forall>x. m = Some x \<longrightarrow> fresh_part V t (mongo_handles x) (mongo_descs ''myapp'')) \<and> grown V s t"
proof (cases "bk_env B ''MONGO_URL''")
  case None
  then show ?thesis using rd by (auto simp: setup_mongo_def ret_def if_set_simps added_refl grown_same)
next
  case (Some url)
  with up have "mongo_up B V url" by (simp add: backends_up_def)
  from setup_mongo_up [OF P T Some this rd fresh, of D checks] Some show ?thesis
    by (fastforce simp: if_set_simps loop_task_of_name intro: added_with_task)
qed

text \<open>The parts of the application have different metric names.\<close>

lemma part_disjoint:
  "sub \<noteq> [] \<Longrightarrow> sub' \<noteq> [] \<Longrightarrow> hd sub \<noteq> hd sub' \<Longrightarrow> set (part_names sub ns) \<inter> set (part_names sub' ns') = {}"
  by (cases sub; cases sub') (auto simp: part_names_def)

lemma part_process_disjoint:
  "sub \<in> {''http_'', ''postgres_'', ''redis_'', ''mongo_''} \<Longrightarrow> set (part_names sub ns) \<inter> set process_metric_names = {}"
  using process_names_disjoint [of sub "''myapp''" ns] process_names_no_infix by (auto simp: part_names_def app_ns)

definition http_part :: "string list" where
  "http_part = part_names ''http_'' http_names"

definition backend_names :: "'s backends \<Rightarrow> string list" where
  "backend_names B =
     if_set B ''PG_URL'' (part_names ''postgres_'' postgres_names) @
     if_set B ''REDIS_URL'' (part_names ''redis_'' redis_names) @
     if_set B ''MONGO_URL'' (part_names ''mongo_'' mongo_names)"

definition backend_collectors :: "'s backends \<Rightarrow> string list" where
  "backend_collectors B =
     if_set B ''PG_URL'' [postgres_name] @ if_set B ''REDIS_URL'' [redis_name] @ if_set B ''MONGO_URL'' [mongo_name]"

text \<open>The route handlers get the metrics of exactly the configured backends, and the pool of Redis.\<close>

definition wired :: "'s backends \<Rightarrow> app_state \<Rightarrow> bool" where
  "wired B st \<longleftrightarrow>
     (st_pg_metrics st = None \<longleftrightarrow> bk_env B ''PG_URL'' = None) \<and>
     (st_redis_metrics st = None \<longleftrightarrow> bk_env B ''REDIS_URL'' = None) \<and>
     st_redis_pool st = map_option r_pool (st_redis_metrics st) \<and>
     (st_mongo_metrics st = None \<longleftrightarrow> bk_env B ''MONGO_URL'' = None)"

text \<open>The metrics that the route handlers and the loops get are there, with their first values.\<close>

definition fresh_app :: "'s prom_view \<Rightarrow> 's \<Rightarrow> app_state \<Rightarrow> bool" where
  "fresh_app V t st \<longleftrightarrow>
     (\<forall>m. st_pg_metrics st = Some m \<longrightarrow> fresh_part V t (postgres_handles m) (postgres_descs ''myapp'')) \<and>
     (\<forall>m. st_redis_metrics st = Some m \<longrightarrow> fresh_part V t (redis_handles m) (redis_descs ''myapp'')) \<and>
     (\<forall>m. st_mongo_metrics st = Some m \<longrightarrow> fresh_part V t (mongo_handles m) (mongo_descs ''myapp''))"

text \<open>Each backend brings new names.\<close>

lemma parts_fresh:
  assumes "set proc \<subseteq> set process_metric_names"
  shows "set (part_names ''postgres_'' postgres_names) \<inter> set (proc @ http_part) = {}"
    "set (part_names ''redis_'' redis_names) \<inter> set ((proc @ http_part) @ if_set B ''PG_URL'' (part_names ''postgres_'' postgres_names)) = {}"
    "set (part_names ''mongo_'' mongo_names) \<inter> set (((proc @ http_part) @ if_set B ''PG_URL'' (part_names ''postgres_'' postgres_names)) @
       if_set B ''REDIS_URL'' (part_names ''redis_'' redis_names)) = {}"
proof -
  show "set (part_names ''postgres_'' postgres_names) \<inter> set (proc @ http_part) = {}"
    using assms part_process_disjoint [of "''postgres_''" postgres_names]
      part_disjoint [of "''postgres_''" "''http_''" postgres_names http_names]
    by (auto simp: http_part_def)
  show "set (part_names ''redis_'' redis_names) \<inter>
      set ((proc @ http_part) @ if_set B ''PG_URL'' (part_names ''postgres_'' postgres_names)) = {}"
    using assms part_process_disjoint [of "''redis_''" redis_names]
      part_disjoint [of "''redis_''" "''http_''" redis_names http_names]
      part_disjoint [of "''redis_''" "''postgres_''" redis_names postgres_names]
    by (auto simp: http_part_def if_set_def)
  show "set (part_names ''mongo_'' mongo_names) \<inter>
      set (((proc @ http_part) @ if_set B ''PG_URL'' (part_names ''postgres_'' postgres_names)) @
       if_set B ''REDIS_URL'' (part_names ''redis_'' redis_names)) = {}"
    using assms part_process_disjoint [of "''mongo_''" mongo_names]
      part_disjoint [of "''mongo_''" "''http_''" mongo_names http_names]
      part_disjoint [of "''mongo_''" "''postgres_''" mongo_names postgres_names]
      part_disjoint [of "''mongo_''" "''redis_''" mongo_names redis_names]
    by (auto simp: http_part_def if_set_def)
qed

lemma setup_backends_ok:
  assumes P: "prom_ok P V" and T: "tokio_quiet T V" and up: "backends_up B V"
    and rd: "ready V s pm (proc @ http_part)" and proc: "set proc \<subseteq> set process_metric_names"
  shows "\<exists>st t pm'. setup_backends P T S DP DR DM checks B (s, pm) = (Ok st, (t, pm')) \<and>
     wired B st \<and>
     added T pm (app_tasks P S DP DR DM checks st) pm' \<and> ready V t pm' (proc @ http_part @ backend_names B) \<and>
     fresh_app V t st \<and> grown V s t"
proof -
  note fresh = parts_fresh [OF proc]
  obtain pg t1 pm1 where 1: "setup_postgres P T S DP B app_config (s, pm) = (Ok pg, (t1, pm1))"
    "pg = None \<longleftrightarrow> bk_env B ''PG_URL'' = None" "added T pm (opt_part pg (\<lambda>m. [loop_task_of (postgres_object P S (deadpool_adapter S DP) m)])) pm1"
    "ready V t1 pm1 ((proc @ http_part) @ if_set B ''PG_URL'' (part_names ''postgres_'' postgres_names))"
    "\<forall>x. pg = Some x \<longrightarrow> fresh_part V t1 (postgres_handles x) (postgres_descs ''myapp'')" "grown V s t1"
    using setup_postgres_ok [where S = S and D = DP, OF P T up rd fresh(1)] by (elim exE conjE) (rule that)
  obtain pool m t2 pm2 where 2: "setup_redis P T DR B app_config (t1, pm1) = (Ok (pool, m), (t2, pm2))"
    "m = None \<longleftrightarrow> bk_env B ''REDIS_URL'' = None" "pool = map_option r_pool m"
    "added T pm1 (opt_part m (\<lambda>m. [loop_task_of (redis_object P DR m)])) pm2"
    "ready V t2 pm2 (((proc @ http_part) @ if_set B ''PG_URL'' (part_names ''postgres_'' postgres_names)) @
       if_set B ''REDIS_URL'' (part_names ''redis_'' redis_names))"
    "\<forall>x. m = Some x \<longrightarrow> fresh_part V t2 (redis_handles x) (redis_descs ''myapp'')" "grown V t1 t2"
    using setup_redis_ok [where D = DR, OF P T up 1(4) fresh(2)] by (elim exE conjE) (rule that)
  obtain mm t3 pm3 where 3: "setup_mongo P T DM checks B app_config (t2, pm2) = (Ok mm, (t3, pm3))"
    "mm = None \<longleftrightarrow> bk_env B ''MONGO_URL'' = None" "added T pm2 (opt_part mm (\<lambda>m. [loop_task_of (mongo_object P DM checks m)])) pm3"
    "ready V t3 pm3 ((((proc @ http_part) @ if_set B ''PG_URL'' (part_names ''postgres_'' postgres_names)) @
       if_set B ''REDIS_URL'' (part_names ''redis_'' redis_names)) @ if_set B ''MONGO_URL'' (part_names ''mongo_'' mongo_names))"
    "\<forall>x. mm = Some x \<longrightarrow> fresh_part V t3 (mongo_handles x) (mongo_descs ''myapp'')" "grown V t2 t3"
    using setup_mongo_ok [where D = DM and checks = checks, OF P T up 2(5) fresh(3)] by (elim exE conjE) (rule that)
  let ?st = "\<lparr>st_prom = PromArc, st_pg_metrics = pg, st_redis_pool = pool, st_redis_metrics = m, st_mongo_metrics = mm\<rparr>"
  have "setup_backends P T S DP DR DM checks B (s, pm) = (Ok ?st, (t3, pm3))"
    by (simp add: setup_backends_def bind_act_def 1(1) 2(1) 3(1) ret_def)
  moreover have "added T pm (app_tasks P S DP DR DM checks ?st) pm3"
    using added_trans [OF added_trans [OF 1(3) 2(4)] 3(3)] by (simp add: app_tasks_def)
  moreover have "ready V t3 pm3 (proc @ http_part @ backend_names B)"
    using 3(4) by (simp add: backend_names_def)
  moreover have "wired B ?st"
    using 1(2) 2(2,3) 3(2) by (simp add: wired_def)
  moreover have "fresh_app V t3 ?st"
    using 1(5) 2(6) 3(5) fresh_grown [OF _ grown_trans [OF 2(7) 3(6)]] fresh_grown [OF _ 3(6)] by (simp add: fresh_app_def)
  moreover have "grown V s t3" by (rule grown_trans [OF grown_trans [OF 1(6) 2(7)] 3(6)])
  ultimately show ?thesis by blast
qed

lemma app_tasks_names:
  assumes "wired B st"
  shows "map task_name (app_tasks P S DP DR DM checks st) = backend_collectors B"
proof -
  have "opt_part x (\<lambda>m. [name]) = if_set B key [name]" if "x = None \<longleftrightarrow> bk_env B key = None" for x :: "'x option" and key and name :: string
    using that by (cases x) (auto simp: if_set_def)
  with assms show ?thesis
    by (cases "st_pg_metrics st"; cases "st_redis_metrics st"; cases "st_mongo_metrics st")
      (auto simp: app_tasks_def backend_collectors_def wired_def if_set_def loop_task_of_name)
qed

lemma added_names:
  assumes "added T pm lts pm'" and "m_handles pm = []" and "m_count pm = 0"
  shows "map fst (m_handles pm') = map task_name lts" "collector_count pm' = of_nat (length lts)"
    "list_all2 (\<lambda>(name, h) lt. name = task_name lt \<and> spawned T lt h) (m_handles pm') lts"
proof -
  show l: "list_all2 (\<lambda>(name, h) lt. name = task_name lt \<and> spawned T lt h) (m_handles pm') lts"
    using assms by (simp add: added_def)
  then show "map fst (m_handles pm') = map task_name lts" by (induction rule: list_all2_induct) auto
  show "collector_count pm' = of_nat (length lts)" using assms by (simp add: added_def collector_count_def)
qed

text \<open>All that holds when the start-up is over.\<close>

lemma startup_parts:
  assumes P: "prom_ok P V" and T: "tokio_quiet T V" and up: "backends_up B V"
  obtains st pm t proc rs where "startup P T S DP DR DM checks B s = (Ok (st, pm), t)"
    "wired B st" "map fst (m_handles pm) = backend_collectors B"
    "list_all2 (\<lambda>(name, h) lt. name = task_name lt \<and> spawned T lt h) (m_handles pm) (app_tasks P S DP DR DM checks st)"
    "collector_count pm = of_nat (length (backend_collectors B))" "regs V t (m_registry pm) = Some rs"
    "names_of (meta V t) rs = proc @ http_part @ backend_names B" "set proc \<subseteq> set process_metric_names"
    "http_start V (m_http pm) ''myapp'' (http_idle t)" "fresh_app V t st"
proof -
  let ?b = "with_process_collector (prom_builder ''myapp'')"
  have ns: "b_namespace ?b = ''myapp''" by (simp add: with_process_collector_def prom_builder_def)
  have "valid_namespace (b_namespace ?b)" unfolding ns using app_ns by simp
  from build_parts [OF P this, of s] obtain pm t pc where b: "build P ?b s = (Ok pm, t)"
    "m_handles pm = []" "\<not> m_poisoned pm" "m_count pm = 0"
    "regs V t = (regs V s)(m_registry pm \<mapsto> pc @ http_handles (m_http pm))" "set pc \<subseteq> dom (meta V t)"
    "set (names_of (meta V t) pc) \<subseteq> set process_metric_names"
    "http_start V (m_http pm) ''myapp'' (http_idle t)"
    unfolding ns by blast
  have own: "owned (meta V t) (http_handles (m_http pm)) (http_descs ''myapp'')"
    using b(8) by (simp add: http_start_def http_idle_def)
  have "names_of (meta V t) (http_handles (m_http pm)) = http_part"
    using names_of_owned [OF own] by (simp add: http_desc_names http_part_def part_names_def app_ns)
  then have rd: "ready V t pm (names_of (meta V t) pc @ http_part)"
    using b(3,5,6) owned_dom [OF own] by (simp add: ready_def)
  from setup_backends_ok [OF P T up rd b(7), of S DP DR DM checks]
  obtain st u pm' where u: "setup_backends P T S DP DR DM checks B (t, pm) = (Ok st, (u, pm'))"
    "wired B st" "added T pm (app_tasks P S DP DR DM checks st) pm'"
    "ready V u pm' (names_of (meta V t) pc @ http_part @ backend_names B)" "fresh_app V u st" "grown V t u"
    by blast
  have run: "startup P T S DP DR DM checks B s = (Ok (st, pm'), u)" using b(1) u(1) by (simp add: startup_def)
  note tasks = added_names [OF u(3) b(2,4)] and names = app_tasks_names [OF u(2), of P S DP DR DM checks]
  have len: "length (app_tasks P S DP DR DM checks st) = length (backend_collectors B)"
    using arg_cong [OF names, of length] by simp
  have n: "map fst (m_handles pm') = backend_collectors B"
    "collector_count pm' = of_nat (length (backend_collectors B))" "m_http pm' = m_http pm"
    using tasks(1,2) u(3) len by (simp_all add: names added_def)
  obtain rs where rs: "regs V u (m_registry pm') = Some rs"
    "names_of (meta V u) rs = names_of (meta V t) pc @ http_part @ backend_names B"
    using u(4) by (auto simp: ready_def)
  have h: "http_start V (m_http pm') ''myapp'' (http_idle u)"
    unfolding n(3) by (rule http_start_grown [OF b(8) u(6)])
  show ?thesis by (rule that [OF run u(2) n(1) tasks(3) n(2) rs b(7) h u(5)])
qed

subsection \<open>Tasks during the start-up\<close>

text \<open>An action keeps a predicate on the state, whatever its result.\<close>

definition keeps :: "('s \<Rightarrow> bool) \<Rightarrow> ('s, 'e, 'a) action \<Rightarrow> bool" where
  "keeps I a \<longleftrightarrow> (\<forall>s r t. a s = (r, t) \<longrightarrow> I s \<longrightarrow> I t)"

lemma keepsD: "keeps I a \<Longrightarrow> a s = (r, t) \<Longrightarrow> I s \<Longrightarrow> I t"
  unfolding keeps_def by blast

named_theorems keeps_intro \<open>composition of actions that keep a predicate\<close>

lemma keeps_ret [keeps_intro]: "keeps I (ret x)"
  by (simp add: keeps_def ret_def)

lemma keeps_bind [keeps_intro]:
  assumes m: "keeps I m" and k: "\<And>x. keeps I (k x)"
  shows "keeps I (bind_act m k)"
  unfolding keeps_def
proof (intro allI impI)
  fix s r t assume run: "bind_act m k s = (r, t)" and I: "I s"
  obtain y u where y: "m s = (y, u)" by (cases "m s")
  with m I have "I u" unfolding keeps_def by blast
  with run y k show "I t" unfolding bind_act_def keeps_def by (cases y) auto
qed

lemma keeps_run_all [keeps_intro]: "(\<And>a. a \<in> set as \<Longrightarrow> keeps I a) \<Longrightarrow> keeps I (run_all as)"
  by (induction as) (auto intro!: keeps_ret keeps_bind)

lemma keeps_map_err [keeps_intro]: "keeps I m \<Longrightarrow> keeps I (map_err f m)"
  unfolding keeps_def map_err_def by (auto split: prod.splits)

lemma keeps_if [keeps_intro]: "keeps I a \<Longrightarrow> keeps I b \<Longrightarrow> keeps I (if c then a else b)"
  by simp

text \<open>The Prometheus crate and the drivers' constructors spawn no collector task and abort none.\<close>

definition prom_tasks :: "'s prometheus \<Rightarrow> ('s \<Rightarrow> handle set) \<Rightarrow> bool" where
  "prom_tasks P R \<longleftrightarrow>
     (\<forall>k o' ls bs s x t. metric_new P k o' ls bs s = (x, t) \<longrightarrow> R t = R s) \<and>
     (\<forall>s x t. process_collector_for_self P s = (x, t) \<longrightarrow> R t = R s) \<and>
     (\<forall>s x t. registry_new P s = (x, t) \<longrightarrow> R t = R s) \<and>
     (\<forall>r h s x t. registry_register P r h s = (x, t) \<longrightarrow> R t = R s)"

lemma prom_tasksD:
  "prom_tasks P R \<Longrightarrow> metric_new P k o' ls bs s = (y, t) \<Longrightarrow> R t = R s"
  "prom_tasks P R \<Longrightarrow> process_collector_for_self P s = (h, t) \<Longrightarrow> R t = R s"
  "prom_tasks P R \<Longrightarrow> registry_new P s = (h, t) \<Longrightarrow> R t = R s"
  "prom_tasks P R \<Longrightarrow> registry_register P r h s = (x, t) \<Longrightarrow> R t = R s"
  unfolding prom_tasks_def by simp_all

definition backend_tasks :: "'s backends \<Rightarrow> ('s \<Rightarrow> handle set) \<Rightarrow> bool" where
  "backend_tasks B R \<longleftrightarrow>
     (\<forall>url n s x t. bk_pg_pool B url n s = (x, t) \<longrightarrow> R t = R s) \<and>
     (\<forall>c n s x t. bk_redis_pool B c n s = (x, t) \<longrightarrow> R t = R s) \<and>
     (\<forall>p s. R (bk_redis_connect B p s) = R s) \<and> (\<forall>p s x t. bk_redis_wait B p s = (x, t) \<longrightarrow> R t = R s) \<and>
     (\<forall>url s x t. bk_mongo_client B url s = (x, t) \<longrightarrow> R t = R s)"

lemma keeps_try_prom: "(\<And>s x t. f s = (x, t) \<Longrightarrow> I s \<Longrightarrow> I t) \<Longrightarrow> keeps I (try_prom f)"
  unfolding keeps_def try_prom_def by (auto split: prod.splits sum.splits)

lemma keeps_new_metric: "prom_tasks P R \<Longrightarrow> keeps (\<lambda>s. R s = X) (new_metric P sp)"
  by (cases sp) (auto simp: new_metric_def intro!: keeps_try_prom dest: prom_tasksD)

lemma keeps_register_one: "prom_tasks P R \<Longrightarrow> keeps (\<lambda>s. R s = X) (register_one P r h)"
  by (auto simp: register_one_def intro!: keeps_try_prom dest: prom_tasksD)

lemma keeps_new_all: "prom_tasks P R \<Longrightarrow> keeps (\<lambda>s. R s = X) (new_all P sps)"
  by (induction sps) (auto intro!: keeps_intro keeps_new_metric)

lemma keeps_register: "prom_tasks P R \<Longrightarrow> keeps (\<lambda>s. R s = X) (register_metrics P r hs)"
  unfolding register_metrics_def by (auto intro!: keeps_intro keeps_register_one)

lemma keeps_construct:
  assumes "prom_tasks P R"
  shows "keeps (\<lambda>s. R s = X) (postgres_new P pool config)" "keeps (\<lambda>s. R s = X) (redis_new P pool config)"
    "keeps (\<lambda>s. R s = X) (mongo_new P client admin_db config)" "keeps (\<lambda>s. R s = X) (http_new P ns)"
  unfolding postgres_new_new_all redis_new_new_all mongo_new_new_all http_new_new_all
  by (intro keeps_intro keeps_new_all assms)+

lemma keeps_build:
  assumes "prom_tasks P R"
  shows "keeps (\<lambda>s. R s = X) (build P b)"
proof -
  have "keeps (\<lambda>s. R s = X) (new_registry P)"
    using prom_tasksD(3) [OF assms] by (fastforce simp: new_registry_def keeps_def split: prod.splits)
  moreover have "keeps (\<lambda>s. R s = X) (register_process P r)" for r
    unfolding keeps_def
  proof (intro allI impI)
    fix s x t assume run: "register_process P r s = (x, t)" and X: "R s = X"
    obtain h u where h: "process_collector_for_self P s = (h, u)" by (cases "process_collector_for_self P s")
    with X prom_tasksD(2) [OF assms] have "R u = X" by blast
    with run h keeps_register_one [OF assms, of X r h] show "R t = X"
      by (simp add: register_process_def keeps_def)
  qed
  moreover have "keeps (\<lambda>s. R s = X) (http_register P h r)" for h r
    unfolding http_register_def by (rule keeps_register [OF assms])
  ultimately show ?thesis unfolding build_def by (intro keeps_intro keeps_construct assms)
qed

text \<open>
  A predicate of the tasks and the shared state; \<open>spawn_ok\<close> says that pushing the handle of a new
  task keeps it.
\<close>

definition on_tasks :: "('s \<Rightarrow> handle set) \<Rightarrow> (handle set \<Rightarrow> prom_state \<Rightarrow> bool) \<Rightarrow> 's \<times> prom_state \<Rightarrow> bool" where
  "on_tasks R J sp \<longleftrightarrow> J (R (fst sp)) (snd sp)"

definition spawn_ok :: "(handle set \<Rightarrow> prom_state \<Rightarrow> bool) \<Rightarrow> bool" where
  "spawn_ok J \<longleftrightarrow>
     (\<forall>X pm name h. J X pm \<longrightarrow> h \<notin> X \<longrightarrow> J (insert h X) (with_task pm name h)) \<and>
     (\<forall>X pm. J X pm \<longrightarrow> \<not> m_poisoned pm)"

lemma keeps_try_world:
  assumes "\<And>X. keeps (\<lambda>s. R s = X) f"
  shows "keeps (on_tasks R J) (try_world f)"
  unfolding keeps_def
proof (intro allI impI)
  fix sp x tp assume run: "try_world f sp = (x, tp)" and inv: "on_tasks R J sp"
  obtain s pm y t where f: "sp = (s, pm)" "f s = (y, t)" by (metis surj_pair)
  with assms [of "R s"] have "R t = R s" unfolding keeps_def by blast
  with run f inv show "on_tasks R J tp" by (auto simp: try_world_def on_tasks_def)
qed

lemma keeps_try_other:
  assumes "\<And>s x t pm. f s = (x, t) \<Longrightarrow> J (R s) pm \<Longrightarrow> J (R t) pm"
  shows "keeps (on_tasks R J) (try_other f)"
  unfolding keeps_def
proof (intro allI impI)
  fix sp x tp assume run: "try_other f sp = (x, tp)" and inv: "on_tasks R J sp"
  obtain s pm y t where f: "sp = (s, pm)" "f s = (y, t)" by (metis surj_pair)
  with inv assms [OF f(2)] have "on_tasks R J (t, pm)" by (simp add: on_tasks_def)
  with run f show "on_tasks R J tp" by (auto simp: try_other_def split: sum.splits)
qed

lemma keeps_add_collector:
  assumes T: "tokio_tasks T R" and J: "spawn_ok J" and c: "spawns_nothing R c"
  shows "keeps (on_tasks R J) (add_collector T c interval)"
  unfolding keeps_def
proof (intro allI impI)
  fix sp x tp assume run: "add_collector T c interval sp = (x, tp)" and inv: "on_tasks R J sp"
  obtain s pm t pm' where sp: "sp = (s, pm)" "tp = (t, pm')" by (metis surj_pair)
  have np: "\<not> m_poisoned pm" using inv J by (auto simp: on_tasks_def spawn_ok_def sp)
  obtain y u where y: "co_register c (m_registry pm) s = (y, u)" by (cases "co_register c (m_registry pm) s")
  then have u: "R u = R s" by (rule spawns_nothingD [OF c])
  show "on_tasks R J tp"
  proof (cases y)
    case (Ok z)
    obtain h v where v: "tokio_spawn T \<lparr>task_name = co_name c, task_interval = interval, task_collect = co_collect c\<rparr> u = (h, v)"
      by (metis surj_pair)
    then have "h \<notin> R s" "R v = insert h (R s)" using T u unfolding tokio_tasks_def by blast+
    moreover have "t = v" "pm' = with_task pm (co_name c) h"
      using run y v Ok np sp by (auto simp: add_collector_def spawn_collect_loop_def with_task_def)
    ultimately show ?thesis using inv J by (simp add: on_tasks_def spawn_ok_def sp)
  qed (use run y sp inv u in \<open>auto simp: add_collector_def on_tasks_def\<close>)
qed

lemma objects_spawn_nothing:
  assumes "prom_tasks P R"
  shows "spawns_nothing R (postgres_object P S A m)" "spawns_nothing R (redis_object P D m')"
    "spawns_nothing R (mongo_object P D' checks m'')"
proof -
  have "R (snd (register_metrics P r hs s)) = R s" for r hs s
    using keeps_register [OF assms, of "R s" r hs] unfolding keeps_def
    by (cases "register_metrics P r hs s") simp
  then show "spawns_nothing R (postgres_object P S A m)" "spawns_nothing R (redis_object P D m')"
    "spawns_nothing R (mongo_object P D' checks m'')"
    by (simp_all add: spawns_nothing_def postgres_object_def redis_object_def mongo_object_def
        postgres_register_def redis_register_def mongo_register_def)
qed

lemma backend_tasksD:
  "backend_tasks B R \<Longrightarrow> bk_pg_pool B url n s = (x, t) \<Longrightarrow> R t = R s"
  "backend_tasks B R \<Longrightarrow> bk_redis_pool B c n s = (x, t) \<Longrightarrow> R t = R s"
  "backend_tasks B R \<Longrightarrow> R (bk_redis_connect B p s) = R s"
  "backend_tasks B R \<Longrightarrow> bk_redis_wait B p s = (y, t) \<Longrightarrow> R t = R s"
  "backend_tasks B R \<Longrightarrow> bk_mongo_client B url s = (x, t) \<Longrightarrow> R t = R s"
  unfolding backend_tasks_def by simp_all

lemma keeps_case_prod [keeps_intro]: "(\<And>a b. p = (a, b) \<Longrightarrow> keeps I (f a b)) \<Longrightarrow> keeps I (case p of (a, b) \<Rightarrow> f a b)"
  by (cases p) simp

lemma keeps_setups:
  assumes P: "prom_tasks P R" and T: "tokio_tasks T R" and B: "backend_tasks B R" and J: "spawn_ok J"
  shows "keeps (on_tasks R J) (setup_postgres P T S DP B config)" "keeps (on_tasks R J) (setup_redis P T DR B config)"
    "keeps (on_tasks R J) (setup_mongo P T DM checks B config)"
proof -
  note steps = keeps_intro keeps_try_world keeps_construct [OF P] keeps_add_collector [OF T J objects_spawn_nothing(1) [OF P]]
    keeps_add_collector [OF T J objects_spawn_nothing(2) [OF P]] keeps_add_collector [OF T J objects_spawn_nothing(3) [OF P]]
    and quiet = backend_tasksD [OF B]
  show "keeps (on_tasks R J) (setup_postgres P T S DP B config)"
    unfolding setup_postgres_def
    by (cases "bk_env B ''PG_URL''") (auto intro!: steps keeps_try_other dest: quiet(1,2,4,5))
  show "keeps (on_tasks R J) (setup_redis P T DR B config)"
    unfolding setup_redis_def
    by (cases "bk_env B ''REDIS_URL''") (auto intro!: steps keeps_try_other dest: quiet(1,2,4,5) simp: quiet(3))
  show "keeps (on_tasks R J) (setup_mongo P T DM checks B config)"
    unfolding setup_mongo_def
    by (cases "bk_env B ''MONGO_URL''") (auto intro!: steps keeps_try_other dest: quiet(1,2,4,5))
qed

lemma keeps_setup_backends:
  assumes "prom_tasks P R" and "tokio_tasks T R" and "backend_tasks B R" and "spawn_ok J"
  shows "keeps (on_tasks R J) (setup_backends P T S DP DR DM checks B)"
  unfolding setup_backends_def by (intro keeps_intro keeps_setups assms)

text \<open>The tasks that were not told to stop are among the handles.\<close>

definition task_inv :: "('s \<Rightarrow> handle set) \<Rightarrow> 's \<times> prom_state \<Rightarrow> bool" where
  "task_inv R = on_tasks R (\<lambda>X pm. X \<subseteq> snd ` set (m_handles pm) \<and> \<not> m_poisoned pm)"

lemma task_inv_iff: "task_inv R sp \<longleftrightarrow> R (fst sp) \<subseteq> snd ` set (m_handles (snd sp)) \<and> \<not> m_poisoned (snd sp)"
  by (simp add: task_inv_def on_tasks_def)

lemma keeps_setup_backends_inv:
  assumes "prom_tasks P R" and "tokio_tasks T R" and "backend_tasks B R"
  shows "keeps (task_inv R) (setup_backends P T S DP DR DM checks B)"
  unfolding task_inv_def
  by (rule keeps_setup_backends [OF assms]) (auto simp: spawn_ok_def with_task_def)

text \<open>
  The tasks of the handles are the ones that were spawned since \<open>X0\<close>, each once, and none of them
  was told to stop.
\<close>

definition tasks_from :: "handle set \<Rightarrow> handle set \<Rightarrow> prom_state \<Rightarrow> bool" where
  "tasks_from X0 X pm \<longleftrightarrow>
     X = X0 \<union> snd ` set (m_handles pm) \<and> X0 \<inter> snd ` set (m_handles pm) = {} \<and>
     distinct (map snd (m_handles pm)) \<and> \<not> m_poisoned pm"

lemma tasks_from_spawn: "spawn_ok (tasks_from X0)"
  by (auto simp: spawn_ok_def tasks_from_def with_task_def)

lemma startup_tasks_from:
  assumes P: "prom_tasks P R" and T: "tokio_tasks T R" and B: "backend_tasks B R"
    and run: "startup P T S DP DR DM checks B s = (Ok (st, pm), t)"
  shows "tasks_from (R s) (R t) pm"
proof -
  obtain pm0 u where b: "build P (with_process_collector (prom_builder ''myapp'')) s = (Ok pm0, u)"
    and sb: "setup_backends P T S DP DR DM checks B (u, pm0) = (Ok st, (t, pm))"
    using run by (auto simp: startup_def split: prod.splits outcome.splits)
  have "R u = R s" using keepsD [OF keeps_build [OF P, of "R s"] b] by simp
  moreover have "m_handles pm0 = [] \<and> \<not> m_poisoned pm0" using b by (auto simp: build_def action_iff ret_def)
  ultimately have "on_tasks R (tasks_from (R s)) (u, pm0)" by (simp add: on_tasks_def tasks_from_def)
  from keepsD [OF keeps_setup_backends [OF P T B tasks_from_spawn] sb this] show ?thesis
    by (simp add: on_tasks_def)
qed

lemma drop_prom_stops:
  assumes T: "tokio_tasks T R" and inv: "task_inv R sp"
  shows "\<exists>t pm. drop_prom T sp = (Ok () :: ('e, unit) outcome, (t, pm)) \<and> R t = {}"
proof -
  obtain s pm where sp: "sp = (s, pm)" by (cases sp)
  have "R (abort_all T (m_handles pm) s) = {}"
    using abort_all_tasks [OF T, of "m_handles pm" s] inv by (auto simp: task_inv_iff sp)
  then show ?thesis using inv by (simp add: drop_prom_def shutdown_def task_inv_iff sp)
qed

text \<open>
  A start-up that fails, wherever it does, leaves no collector task; after one that succeeds
  every task is among the handles.
\<close>

lemma startup_tasks:
  assumes P: "prom_tasks P R" and T: "tokio_tasks T R" and B: "backend_tasks B R" and s: "R s = {}"
    and run: "startup P T S DP DR DM checks B s = (res, t)"
  shows "case res of Ok (st, pm) \<Rightarrow> task_inv R (t, pm) | Err e \<Rightarrow> R t = {} | Panic \<Rightarrow> R t = {}"
proof -
  obtain x u where x: "build P (with_process_collector (prom_builder ''myapp'')) s = (x, u)"
    by (metis surj_pair)
  then have u: "R u = {}" using keeps_build [OF P, of "{}"] s unfolding keeps_def by auto
  show ?thesis
  proof (cases x)
    case (Ok pm)
    then have "m_handles pm = [] \<and> \<not> m_poisoned pm" using x by (auto simp: build_def action_iff ret_def)
    then have inv: "task_inv R (u, pm)" using u by (simp add: task_inv_iff)
    obtain y v pm' where y: "setup_backends P T S DP DR DM checks B (u, pm) = (y, (v, pm'))" by (metis surj_pair)
    then have inv': "task_inv R (v, pm')"
      using keeps_setup_backends_inv [OF P T B] inv unfolding keeps_def by blast
    obtain w pm'' where w: "drop_prom T (v, pm') = (Ok () :: (app_error, unit) outcome, (w, pm''))" "R w = {}"
      using drop_prom_stops [OF T inv'] by blast
    from run x Ok y w inv' show ?thesis by (cases y) (auto simp: startup_def)
  qed (use run x u in \<open>auto simp: startup_def\<close>)
qed

text \<open>
  Binding, waiting for the signals and serving spawn no collector task; serving leaves the shared
  state to the future it is given.
\<close>

definition server_tasks :: "'s server \<Rightarrow> ('s \<Rightarrow> handle set) \<Rightarrow> bool" where
  "server_tasks W R \<longleftrightarrow>
     (\<forall>addr s x t. sv_bind W addr s = (x, t) \<longrightarrow> R t \<subseteq> R s) \<and>
     (\<forall>s x t. sv_select W s = (x, t) \<longrightarrow> R t \<subseteq> R s) \<and>
     (\<forall>l fut sp x tp. keeps (task_inv R) fut \<longrightarrow> sv_serve W l fut sp = (x, tp) \<longrightarrow> task_inv R sp \<longrightarrow> task_inv R tp)"

lemma server_tasksD:
  "server_tasks W R \<Longrightarrow> sv_bind W addr s = (x, t) \<Longrightarrow> R t \<subseteq> R s"
  "server_tasks W R \<Longrightarrow> sv_select W s = (ev, t) \<Longrightarrow> R t \<subseteq> R s"
  "server_tasks W R \<Longrightarrow> keeps (task_inv R) fut \<Longrightarrow> sv_serve W l fut sp = (y, tp) \<Longrightarrow> task_inv R sp \<Longrightarrow> task_inv R tp"
  unfolding server_tasks_def by blast+

lemma keeps_shutdown:
  assumes "tokio_tasks T R"
  shows "keeps (task_inv R) (shutdown T)"
  unfolding keeps_def
proof (intro allI impI)
  fix sp x tp assume run: "shutdown T sp = (x, tp)" and inv: "task_inv R sp"
  show "task_inv R tp"
    using drop_prom_stops [OF assms inv] run inv by (auto simp: drop_prom_def shutdown_def task_inv_iff split: prod.splits)
qed

lemma keeps_shutdown_signal:
  assumes W: "server_tasks W R" and T: "tokio_tasks T R"
  shows "keeps (task_inv R) (shutdown_signal (sv_select W) T)"
  unfolding keeps_def
proof (intro allI impI)
  fix sp x tp assume run: "shutdown_signal (sv_select W) T sp = (x, tp)" and inv: "task_inv R sp"
  obtain s pm ev t where s: "sp = (s, pm)" "sv_select W s = (ev, t)" by (metis surj_pair)
  have t: "task_inv R (t, pm)" using server_tasksD(2) [OF W s(2)] inv by (auto simp: task_inv_iff s)
  have "tp = (t, pm) \<or> shutdown T (t, pm) = (x, tp)"
    using run s by (cases ev) (auto simp: shutdown_signal_def split: sum.splits)
  with t keeps_shutdown [OF T] show "task_inv R tp" unfolding keeps_def by blast
qed

lemma keeps_serve_app:
  assumes W: "server_tasks W R" and T: "tokio_tasks T R"
  shows "keeps (task_inv R) (serve_app T B W)"
  unfolding serve_app_def
proof (rule keeps_bind)
  show "keeps (task_inv R) (try_other (sv_bind W (listen_addr B)))"
    unfolding task_inv_def by (rule keeps_try_other) (use server_tasksD(1) [OF W] in blast)
  show "keeps (task_inv R) (\<lambda>sp. case sv_serve W l (shutdown_signal (sv_select W) T) sp of
      (Inl e, tp) \<Rightarrow> (Err (Other e), tp) | (Inr _, tp) \<Rightarrow> (Ok (), tp))" for l
    using server_tasksD(3) [OF W keeps_shutdown_signal [OF W T]] unfolding keeps_def
    by (auto split: prod.splits sum.splits)
qed


text \<open>
  While the metrics of the application are there, the loops of its collectors outlive any number of
  polls, whatever these return.
\<close>

lemma app_tasks_alive:
  assumes P: "prom_ok P V" and I: "\<And>d. interval_panics T d \<longleftrightarrow> d = 0"
    and D: "deadpool_quiet DP V" "fred_quiet DR V" "\<And>m. mongo_env DM checks m V"
    and st: "fresh_app V t st" and u: "meta V u = meta V t" and lt: "lt \<in> set (app_tasks P S DP DR DM checks st)"
  shows "\<exists>ws v. run_task T lt n u = (Running, ws, v) \<and> length ws \<le> n \<and> meta V v = meta V u"
proof -
  have "collect_interval app_config \<noteq> 0" by (simp add: app_config_def default_config_def from_secs_def)
  then have alive: "run_task T (loop_task_of c) n u = collect_loop (co_name c) (co_collect c) n u" for c
    by (simp add: run_task_def I loop_task_of_def)
  have "(\<exists>m. st_pg_metrics st = Some m \<and> lt = loop_task_of (postgres_object P S (deadpool_adapter S DP) m)) \<or>
      (\<exists>m. st_redis_metrics st = Some m \<and> lt = loop_task_of (redis_object P DR m)) \<or>
      (\<exists>m. st_mongo_metrics st = Some m \<and> lt = loop_task_of (mongo_object P DM checks m))"
    using lt by (cases "st_pg_metrics st"; cases "st_redis_metrics st"; cases "st_mongo_metrics st")
      (auto simp: app_tasks_def)
  then show ?thesis
  proof (elim disjE exE conjE)
    fix m assume m: "st_pg_metrics st = Some m" and lt: "lt = loop_task_of (postgres_object P S (deadpool_adapter S DP) m)"
    have "owned (meta V u) (postgres_handles m) (postgres_descs ''myapp'')"
      using st m by (simp add: u fresh_app_def fresh_part_def)
    from deadpool.postgres.loop_alive [OF P D(1) this] show ?thesis
      unfolding lt alive postgres_object_def collector.simps by blast
  next
    fix m assume m: "st_redis_metrics st = Some m" and lt: "lt = loop_task_of (redis_object P DR m)"
    have "owned (meta V u) (redis_handles m) (redis_descs ''myapp'')"
      using st m by (simp add: u fresh_app_def fresh_part_def)
    from redis.loop_alive [OF P D(2) this] show ?thesis
      unfolding lt alive redis_object_def collector.simps by blast
  next
    fix m assume m: "st_mongo_metrics st = Some m" and lt: "lt = loop_task_of (mongo_object P DM checks m)"
    have "owned (meta V u) (mongo_handles m) (mongo_descs ''myapp'')"
      using st m by (simp add: u fresh_app_def fresh_part_def)
    from mongo.loop_alive [OF P D(3) this] show ?thesis
      unfolding lt alive mongo_object_def collector.simps by blast
  qed
qed

subsection \<open>A second collector of the same kind\<close>

lemma add_collector_again:
  assumes P: "prom_ok P V" and r: "regs V s (m_registry pm) = Some rs"
    and c: "co_register c = (\<lambda>r. register_metrics P r own)"
    and own: "owned (meta V s) own descs" and own0: "owned (meta V s) own0 descs"
    and rs: "set own0 \<subseteq> set rs" and d: "descs \<noteq> []" "d_names (hd descs) \<noteq> []"
  shows "\<exists>t. add_collector T c interval (s, pm) = (Err (Prometheus AlreadyReg), (t, pm)) \<and> same V s t"
proof -
  obtain e es where e: "descs = e # es" using d(1) by (cases descs) auto
  obtain h hs h0 hs0 where hs: "own = h # hs" "own0 = h0 # hs0"
    using owned_length [OF own] owned_length [OF own0] e by (cases own; cases own0) auto
  have m: "meta V s h = Some e" "meta V s h0 = Some e" using own own0 by (auto simp: hs e owned_Cons)
  have "set (d_names e) \<subseteq> set (names_of (meta V s) rs)"
    using m(2) rs hs(2) by (fastforce simp: mem_names_of)
  then have "set (names_of (meta V s) [h]) \<inter> set (names_of (meta V s) rs) \<noteq> {}"
    using d(2) by (cases "d_names e") (auto simp: m e)
  from register_metrics_again [OF P r _ this] owned_dom [OF own]
  obtain t where "register_metrics P (m_registry pm) own s = (Err (Prometheus AlreadyReg), t)" "same V s t"
    unfolding hs(1) by blast
  then show ?thesis by (simp add: add_collector_def c)
qed

lemma object_registers:
  "co_register (redis_object P D m) = (\<lambda>r. register_metrics P r (redis_handles m))"
  "co_register (mongo_object P D' checks m') = (\<lambda>r. register_metrics P r (mongo_handles m'))"
  "co_register (postgres_object P S A m'') = (\<lambda>r. register_metrics P r (postgres_handles m''))"
  by (simp_all add: fun_eq_iff redis_object_def redis_register_def redis_handles_def mongo_object_def
      mongo_register_def mongo_handles_def postgres_object_def postgres_register_def postgres_handles_def)

lemma first_descs:
  "redis_descs ns \<noteq> [] \<and> d_names (hd (redis_descs ns)) \<noteq> []"
  "mongo_descs ns \<noteq> [] \<and> d_names (hd (mongo_descs ns)) \<noteq> []"
  "postgres_descs ns \<noteq> [] \<and> d_names (hd (postgres_descs ns)) \<noteq> []"
  by (simp_all add: redis_descs_def redis_specs_def redis_macro_defs mongo_descs_def mongo_specs_def mongo_macro_defs
      postgres_descs_def postgres_specs_def postgres_macro_defs spec_desc_scoped)

definition refused :: "'s prom_view \<Rightarrow> 's tokio \<Rightarrow> 's \<times> prom_state \<Rightarrow> 's collector \<Rightarrow> bool" where
  "refused V T sp c \<longleftrightarrow>
     (\<forall>interval. \<exists>t. add_collector T c interval sp = (Err (Prometheus AlreadyReg), (t, snd sp)) \<and> same V (fst sp) t)"

subsection \<open>Polling next to the HTTP layer\<close>

lemma handles_disjoint:
  assumes "owned M hs ds" and "owned M hs' ds'" and "\<forall>d\<in>set ds. d_names d \<noteq> []"
    and "set (concat (map d_names ds)) \<inter> set (concat (map d_names ds')) = {}"
  shows "set hs \<inter> set hs' = {}"
proof (rule ccontr)
  assume "set hs \<inter> set hs' \<noteq> {}"
  then obtain i j where ij: "i < length hs" "j < length hs'" "hs ! i = hs' ! j"
    by (metis disjoint_iff in_set_conv_nth)
  have eq: "ds ! i = ds' ! j"
    using owned_nth [OF assms(1) ij(1)] owned_nth [OF assms(2) ij(2)] ij(3) by simp
  have mem: "ds ! i \<in> set ds" "ds' ! j \<in> set ds'"
    using ij(1,2) owned_length [OF assms(1)] owned_length [OF assms(2)] by simp_all
  with eq have "set (d_names (ds ! i)) \<subseteq> set (concat (map d_names ds)) \<inter> set (concat (map d_names ds'))"
    by force
  with assms(3,4) mem show False by auto
qed

lemma http_collector_disjoint:
  assumes own: "owned M hs ds" and http: "owned M (http_handles h) (http_descs ns)"
    and names: "concat (map d_names ds) = map (\<lambda>n. ns_prefix ns @ sub @ n) names" "sub \<noteq> []" "hd sub \<noteq> CHR ''h''"
  shows "set (http_handles h) \<inter> set hs = {}"
proof (rule handles_disjoint [OF http own])
  show "\<forall>d\<in>set (http_descs ns). d_names d \<noteq> []"
    by (simp add: http_descs_def http_specs_def spec_desc_scoped)
  show "set (concat (map d_names (http_descs ns))) \<inter> set (concat (map d_names ds)) = {}"
    unfolding http_desc_names names(1) using names(2,3) by (cases sub) auto
qed

subsection \<open>Backends for the examples\<close>

definition demo_backends :: "'s backends" where
  "demo_backends =
     \<lparr>bk_env = (\<lambda>key. if key = ''PG_URL'' \<or> key = ''MONGO_URL'' then Some ''url'' else None),
      bk_pg_pool = (\<lambda>_ _ s. (Inr 1, s)), bk_redis_config = (\<lambda>_. Inl ''no redis''),
      bk_redis_pool = (\<lambda>_ _ s. (Inr 2, s)), bk_redis_connect = (\<lambda>_ s. s), bk_redis_wait = (\<lambda>_ s. (Inr (), s)),
      bk_mongo_client = (\<lambda>_ s. (Inr 3, s))\<rparr>"

definition demo_spawner :: "'s tokio" where
  "demo_spawner = \<lparr>interval_panics = (\<lambda>d. d = 0), tokio_spawn = (\<lambda>_ s. (0, s)), tokio_abort = (\<lambda>_ s. s)\<rparr>"

text \<open>The Prometheus crate next to a second component of the world, for the witness.\<close>

definition on_fst :: "('a \<Rightarrow> 'r \<times> 'a) \<Rightarrow> 'a \<times> 'b \<Rightarrow> 'r \<times> ('a \<times> 'b)" where
  "on_fst f w = (case f (fst w) of (r, a) \<Rightarrow> (r, (a, snd w)))"

definition beside :: "'a prometheus \<Rightarrow> ('a \<times> 'b) prometheus" where
  "beside P =
     \<lparr>metric_new = (\<lambda>k o' ls bs. on_fst (metric_new P k o' ls bs)),
      process_collector_for_self = on_fst (process_collector_for_self P),
      registry_new = on_fst (registry_new P),
      registry_register = (\<lambda>r h. on_fst (registry_register P r h)),
      registry_gather = (\<lambda>r w. registry_gather P r (fst w)), text_encode = text_encode P,
      with_label_values = (\<lambda>h ls. on_fst (with_label_values P h ls)),
      int_gauge_set = (\<lambda>sr v. apfst (int_gauge_set P sr v)), int_gauge_inc = (\<lambda>sr. apfst (int_gauge_inc P sr)),
      int_gauge_dec = (\<lambda>sr. apfst (int_gauge_dec P sr)), gauge_set = (\<lambda>sr v. apfst (gauge_set P sr v)),
      int_counter_inc = (\<lambda>sr. apfst (int_counter_inc P sr)),
      histogram_observe = (\<lambda>sr x. apfst (histogram_observe P sr x))\<rparr>"

definition view_beside :: "'a prom_view \<Rightarrow> ('a \<times> 'b) prom_view" where
  "view_beside V =
     \<lparr>meta = (\<lambda>w. meta V (fst w)), val = (\<lambda>w. val V (fst w)), regs = (\<lambda>w. regs V (fst w))\<rparr>"

lemma view_beside_sel [simp]:
  "meta (view_beside V) w = meta V (fst w)" "val (view_beside V) w = val V (fst w)"
  "regs (view_beside V) w = regs V (fst w)"
  "same (view_beside V) s t = same V (fst s) (fst t)" "kind_at (view_beside V) s sr k = kind_at V (fst s) sr k"
  "assigns (view_beside V) s t sr x = assigns V (fst s) (fst t) sr x"
  "name_clash (view_beside V) s hs d = name_clash V (fst s) hs d"
  by (simp_all add: view_beside_def same_def kind_at_def assigns_def name_clash_def)

lemma on_fst_iff: "on_fst f w = (r, t) \<longleftrightarrow> f (fst w) = (r, fst t) \<and> snd t = snd w"
  by (cases t) (auto simp: on_fst_def split: prod.splits)

lemma beside_ok:
  assumes "prom_ok P V"
  shows "prom_ok (beside P) (view_beside V)"
proof -
  have new: "law_new P V" and proc: "law_process P V" and rn: "law_registry_new P V" and rg: "law_register P V"
    and lb: "law_labels P V" and rest: "law_int_gauge P V" "law_gauge P V" "law_counter P V" "law_histogram P V"
    using assms by (simp_all add: prom_ok_def)
  have "law_new (beside P) (view_beside V)"
    using new unfolding law_new_def by (simp add: beside_def on_fst_iff cong: sum.case_cong if_cong)
  moreover have "law_process (beside P) (view_beside V)"
    using proc unfolding law_process_def by (simp add: beside_def on_fst_iff)
  moreover have "law_registry_new (beside P) (view_beside V)"
    using rn unfolding law_registry_new_def by (simp add: beside_def on_fst_iff)
  moreover have "law_register (beside P) (view_beside V)"
    unfolding law_register_def
  proof (intro allI impI)
    fix r h s hs d x t
    assume a: "regs (view_beside V) s r = Some hs" "meta (view_beside V) s h = Some d"
      "registry_register (beside P) r h s = (x, t)"
    then have "registry_register P r h (fst s) = (x, fst t)" by (simp add: beside_def on_fst_iff)
    with rg a(1,2) have "if name_clash V (fst s) hs d then x = Inl AlreadyReg \<and> same V (fst s) (fst t)
         else x = Inr () \<and> meta V (fst t) = meta V (fst s) \<and> val V (fst t) = val V (fst s) \<and>
              regs V (fst t) = (regs V (fst s))(r \<mapsto> hs @ [h])"
      unfolding law_register_def view_beside_sel by blast
    then show "if name_clash (view_beside V) s hs d then x = Inl AlreadyReg \<and> same (view_beside V) s t
         else x = Inr () \<and> meta (view_beside V) t = meta (view_beside V) s \<and> val (view_beside V) t = val (view_beside V) s \<and>
              regs (view_beside V) t = (regs (view_beside V) s)(r \<mapsto> hs @ [h])"
      unfolding view_beside_sel .
  qed
  moreover have "law_labels (beside P) (view_beside V)"
    using lb unfolding law_labels_def by (simp add: beside_def on_fst_iff)
  moreover have "law_int_gauge (beside P) (view_beside V)" "law_gauge (beside P) (view_beside V)"
    "law_counter (beside P) (view_beside V)" "law_histogram (beside P) (view_beside V)"
    using rest by (simp_all add: law_int_gauge_def law_gauge_def law_counter_def law_histogram_def beside_def)
  ultimately show ?thesis by (simp add: prom_ok_def)
qed

definition runtime_beside :: "('a \<times> demo_tasks) tokio" where
  "runtime_beside =
     \<lparr>interval_panics = interval_panics demo_runtime,
      tokio_spawn = (\<lambda>lt w. (fst (snd w), (fst w, (Suc (fst (snd w)), fst (snd w) # snd (snd w))))),
      tokio_abort = (\<lambda>h. apsnd (tokio_abort demo_runtime h))\<rparr>"

lemma beside_tasks:
  "prom_tasks (beside P) (\<lambda>w. R (snd w))" "tokio_tasks runtime_beside (\<lambda>w. demo_running (snd w))"
  "backend_tasks demo_backends R'"
  by (auto simp: prom_tasks_def beside_def on_fst_def split: prod.splits)
    (auto simp: tokio_tasks_def runtime_beside_def demo_runtime_def demo_running_def backend_tasks_def
      demo_backends_def)

lemma runtime_beside_quiet: "tokio_quiet runtime_beside (view_beside V)"
  by (simp add: tokio_quiet_def runtime_beside_def same_refl)

definition demo_server :: "'s server" where
  "demo_server =
     \<lparr>sv_bind = (\<lambda>_ s. (Inr 9, s)), sv_select = (\<lambda>s. (CtrlC (Inr ()), s)),
      sv_serve = (\<lambda>_ fut sp. (Inr (), snd (fut sp)))\<rparr>"

lemma demo_server_tasks: "server_tasks demo_server R"
  unfolding server_tasks_def demo_server_def keeps_def server.simps by (auto split: prod.splits) (metis surj_pair snd_conv)

definition demo_both_world :: ref_world where
  "demo_both_world = world_of (zip ([1..<5] @ [5..<20]) (http_descs ''myapp'' @ redis_descs ''myapp''))"

lemma demo_both_owned:
  "owned (meta ref_view demo_both_world) (http_handles demo_http) (http_descs ''myapp'')"
  "owned (meta ref_view demo_both_world) (redis_handles (redis_of 0 [5..<20])) (redis_descs ''myapp'')"
proof -
  have l: "length (http_descs ''myapp'') = 4" "length (redis_descs ''myapp'') = 15"
    by (simp_all add: http_descs_def http_specs_def redis_descs_def)
  have "owned (meta ref_view demo_both_world) ([1..<5] @ [5..<20]) (http_descs ''myapp'' @ redis_descs ''myapp'')"
    unfolding ref_view_sel demo_both_world_def world_of_def ref_world.simps
    by (rule owned_map_of_zip) (simp_all add: l del: upt_Suc)
  then show "owned (meta ref_view demo_both_world) (http_handles demo_http) (http_descs ''myapp'')"
    "owned (meta ref_view demo_both_world) (redis_handles (redis_of 0 [5..<20])) (redis_descs ''myapp'')"
    using l by (simp_all add: demo_http_handles redis_handles_of owned_def list_all2_append del: upt_Suc)
qed

end
