(* ===== verification/Async.thy ===== *)
theory Async
  imports Redis Mongo Postgres
begin

text \<open>
  The \<open>collect\<close> methods as asynchronous code.  The tasks of the program run on a runtime with
  several threads: other tasks run while a poll waits for its driver and between any two of its
  statements, and an aborted poll is dropped at an \<open>await\<close>.  A body is a tree of its
  statements, \<open>Sync\<close>, and its awaited calls, \<open>Await\<close>; \<open>coro_step\<close> runs one of them or lets
  the environment change the world.

  \<open>redis_poll\<close>, \<open>mongo_poll\<close> and \<open>postgres_poll\<close> are the methods with one \<open>Sync\<close> for each
  statement that writes a metric.  Without an environment they do what \<open>redis_collect\<close> and the
  others do (\<open>redis_poll_runs\<close>, \<open>mongo_poll_runs\<close>, \<open>postgres_poll_runs\<close>).  \<open>follows\<close> gives the
  events of a body, its writes and awaits in order; \<open>interleaved_agrees\<close> shows that an environment
  that leaves the collector's own metrics alone cannot change them, and \<open>follows_aborted\<close> which
  part of them an aborted poll has performed.  \<open>safe\<close> says of a body that it stays well behaved
  in every state of the world, whatever the driver answers.
\<close>

subsection \<open>Asynchronous bodies\<close>

datatype ('s, 'e, 'a) coro =
    Done "('e, 'a) outcome"
  | Sync "'s \<Rightarrow> ('s, 'e, 'a) coro \<times> 's"
  | Await "'s \<Rightarrow> ('s, 'e, 'a) coro \<times> 's"

text \<open>A call followed by \<open>?\<close> and the rest of the body.\<close>

definition and_then ::
  "('s, 'e, 'x) action \<Rightarrow> ('x \<Rightarrow> ('s, 'e, 'a) coro) \<Rightarrow> 's \<Rightarrow> ('s, 'e, 'a) coro \<times> 's" where
  "and_then a k s =
     (case a s of
        (Ok x, t) \<Rightarrow> (k x, t)
      | (Err e, t) \<Rightarrow> (Done (Err e), t)
      | (Panic, t) \<Rightarrow> (Done Panic, t))"

definition sync :: "('s, 'e, 'x) action \<Rightarrow> ('x \<Rightarrow> ('s, 'e, 'a) coro) \<Rightarrow> ('s, 'e, 'a) coro" where
  "sync a k = Sync (and_then a k)"

definition await :: "('s, 'e, 'x) action \<Rightarrow> ('x \<Rightarrow> ('s, 'e, 'a) coro) \<Rightarrow> ('s, 'e, 'a) coro" where
  "await a k = Await (and_then a k)"

fun sync_each :: "('s, 'e, unit) action list \<Rightarrow> ('s, 'e, 'a) coro \<Rightarrow> ('s, 'e, 'a) coro" where
  "sync_each [] k = k"
| "sync_each (a # as) k = sync a (\<lambda>_. sync_each as k)"

text \<open>Running a body alone, with a bound on the number of its statements and awaits.\<close>

fun run_coro :: "nat \<Rightarrow> ('s, 'e, 'a) coro \<Rightarrow> 's \<Rightarrow> (('e, 'a) outcome \<times> 's) option" where
  "run_coro n (Done r) s = Some (r, s)"
| "run_coro 0 c s = None"
| "run_coro (Suc n) (Sync f) s = (case f s of (c, t) \<Rightarrow> run_coro n c t)"
| "run_coro (Suc n) (Await f) s = (case f s of (c, t) \<Rightarrow> run_coro n c t)"

lemma run_coro_Done [simp]: "run_coro n (Done r) s = Some (r, s)"
  by (cases n) simp_all

lemma run_coro_more: "run_coro n c s = Some x \<Longrightarrow> n \<le> k \<Longrightarrow> run_coro k c s = Some x"
proof (induction n c s arbitrary: k rule: run_coro.induct)
  case (3 n f s)
  then show ?case by (cases k) (auto split: prod.splits)
next
  case (4 n f s)
  then show ?case by (cases k) (auto split: prod.splits)
qed simp_all

text \<open>The body ends from every state, and does what the action does.\<close>

named_theorems runs_intro \<open>bodies that compute actions\<close>

definition runs :: "('s, 'e, 'a) coro \<Rightarrow> ('s, 'e, 'a) action \<Rightarrow> bool" where
  "runs c a \<longleftrightarrow> (\<forall>s. \<exists>n. run_coro n c s = Some (a s))"

lemma runs_Done [runs_intro]: "runs (Done (Ok x)) (ret x)"
  by (simp add: runs_def ret_def)

lemma runs_step:
  assumes "\<And>x. runs (k x) (g x)"
  shows "\<exists>n. (case and_then a k s of (c, t) \<Rightarrow> run_coro n c t) = Some (bind_act a g s)"
proof (cases "a s")
  case (Pair r t)
  then show ?thesis
  proof (cases r)
    case (Ok x)
    obtain n where "run_coro n (k x) t = Some (g x t)" using assms [of x] unfolding runs_def by blast
    with Pair Ok show ?thesis by (intro exI [of _ n]) (simp add: and_then_def bind_act_def)
  qed (simp_all add: and_then_def bind_act_def)
qed

lemma runs_sync [runs_intro]:
  assumes "\<And>x. runs (k x) (g x)"
  shows "runs (sync a k) (bind_act a g)" and "runs (await a k) (bind_act a g)"
proof -
  have "\<exists>n. run_coro (Suc n) (sync a k) s = Some (bind_act a g s)"
    "\<exists>n. run_coro (Suc n) (await a k) s = Some (bind_act a g s)" for s
    using runs_step [OF assms] by (simp_all add: sync_def await_def)
  then show "runs (sync a k) (bind_act a g)" "runs (await a k) (bind_act a g)"
    unfolding runs_def by blast+
qed

lemma runs_each [runs_intro]: "runs k g \<Longrightarrow> runs (sync_each as k) (bind_act (run_all as) (\<lambda>_. g))"
  by (induction as) (auto simp: bind_act_assoc intro: runs_sync(1))

subsection \<open>The three polls\<close>

text \<open>The statements that publish one answer, in order.\<close>

definition redis_statements ::
  "'s prometheus \<Rightarrow> redis_metrics \<Rightarrow> redis_info \<Rightarrow> ('s, metrics_error, unit) action list" where
  "redis_statements P m info =
     [set_int P (r_connected_clients m) (i_connected_clients info),
      set_int P (r_blocked_clients m) (i_blocked_clients info),
      set_int P (r_used_memory_bytes m) (i_used_memory info),
      set_int P (r_used_memory_rss m) (i_used_memory_rss info),
      set_float P (r_mem_fragmentation_ratio m) (i_mem_fragmentation_ratio info),
      set_int P (r_keyspace_hits m) (i_keyspace_hits info),
      set_int P (r_keyspace_misses m) (i_keyspace_misses info),
      set_int P (r_evicted_keys m) (i_evicted_keys info),
      set_int P (r_total_commands_processed m) (i_total_commands_processed info),
      set_int P (r_replication_offset m) (i_replication_offset info),
      set_int P (r_connected_slaves m) (i_connected_slaves info)] @
     concat (map (\<lambda>(db, keys, expires).
       [set_labelled P (r_db_keys m) [db_label db] keys,
        set_labelled P (r_db_expires m) [db_label db] expires]) (i_keyspace info))"

definition redis_poll ::
  "'s prometheus \<Rightarrow> 's fred \<Rightarrow> redis_metrics \<Rightarrow> ('s, metrics_error, unit) coro" where
  "redis_poll P D m =
     sync (\<lambda>s. set_int P (r_pool_connections m) (ucast (pool_size D (r_pool m) s)) s) (\<lambda>_.
     await (redis_query D m) (\<lambda>raw.
     sync_each (redis_statements P m (parse_info raw)) (Done (Ok ()))))"

definition section_statements :: "'d option \<Rightarrow> ('d \<Rightarrow> 'x list) \<Rightarrow> 'x list" where
  "section_statements d f = (case d of None \<Rightarrow> [] | Some x \<Rightarrow> f x)"

definition mongo_statements ::
  "'s prometheus \<Rightarrow> ('s, 'd) mongo_driver \<Rightarrow> bool \<Rightarrow> mongo_metrics \<Rightarrow> 'd \<Rightarrow> ('s, metrics_error, unit) action list" where
  "mongo_statements P D checks m doc =
     section_statements (get_document D doc ''connections'') (\<lambda>conns.
       [set_int P (g_connections_current m) (get_i64_or_0 D conns ''current''),
        set_int P (g_connections_available m) (get_i64_or_0 D conns ''available''),
        set_int P (g_connections_total m) (get_i64_or_0 D conns ''totalCreated'')]) @
     section_statements (get_document D doc ''opcounters'') (\<lambda>ops.
       map (\<lambda>op. set_labelled P (g_opcounters m) [op] (get_i64_or_0 D ops op)) mongo_ops) @
     section_statements (get_document D doc ''network'') (\<lambda>net.
       [set_int P (g_bytes_in m) (get_i64_or_0 D net ''bytesIn''),
        set_int P (g_bytes_out m) (get_i64_or_0 D net ''bytesOut''),
        set_int P (g_requests_in m) (get_i64_or_0 D net ''numRequests'')]) @
     section_statements (get_document D doc ''mem'') (\<lambda>mem.
       [bind_act (mb_to_bytes checks (get_i64_or_0 D mem ''resident'')) (set_int P (g_resident_memory_bytes m)),
        bind_act (mb_to_bytes checks (get_i64_or_0 D mem ''virtual'')) (set_int P (g_virtual_memory_bytes m))]) @
     section_statements (Option.bind (get_document D doc ''wiredTiger'') (\<lambda>wt. get_document D wt ''cache'')) (\<lambda>cache.
       [set_int P (g_wt_cache_bytes_in_use m) (get_i64_or_0 D cache ''bytes currently in the cache''),
        set_int P (g_wt_cache_bytes_max m) (get_i64_or_0 D cache ''maximum bytes configured''),
        set_int P (g_wt_cache_dirty_bytes m) (get_i64_or_0 D cache ''tracked dirty bytes in the cache'')])"

definition mongo_poll ::
  "'s prometheus \<Rightarrow> ('s, 'd) mongo_driver \<Rightarrow> bool \<Rightarrow> mongo_metrics \<Rightarrow> ('s, metrics_error, unit) coro" where
  "mongo_poll P D checks m =
     await (mongo_query D m) (\<lambda>doc. sync_each (mongo_statements P D checks m doc) (Done (Ok ())))"

definition status_statements ::
  "'s prometheus \<Rightarrow> postgres_metrics \<Rightarrow> pool_status \<Rightarrow> ('s, metrics_error, unit) action list" where
  "status_statements P m status =
     [set_int P (p_pool_active m) (ucast (ps_in_use status)),
      set_int P (p_pool_idle m) (ucast (ps_available status)),
      set_int P (p_pool_max m) (ucast (ps_max_size status))]"

definition db_statements ::
  "'s prometheus \<Rightarrow> 'v serde \<Rightarrow> postgres_metrics \<Rightarrow> 'v row \<Rightarrow> ('s, metrics_error, unit) action list" where
  "db_statements P S m row =
     (let db = row_str S row ''datname'' in
      [set_labelled P (p_db_numbackends m) [db] (row_i64 S row ''numbackends''),
       set_labelled P (p_db_xact_commit m) [db] (row_i64 S row ''xact_commit''),
       set_labelled P (p_db_xact_rollback m) [db] (row_i64 S row ''xact_rollback''),
       set_labelled P (p_db_blks_hit m) [db] (row_i64 S row ''blks_hit''),
       set_labelled P (p_db_blks_read m) [db] (row_i64 S row ''blks_read''),
       set_labelled P (p_db_size_bytes m) [db] (row_i64 S row ''size_bytes'')])"

definition table_statements ::
  "'s prometheus \<Rightarrow> 'v serde \<Rightarrow> postgres_metrics \<Rightarrow> 'v row \<Rightarrow> ('s, metrics_error, unit) action list" where
  "table_statements P S m row =
     (let schema = row_str S row ''schemaname''; table = row_str S row ''relname'' in
      [set_labelled P (p_table_seq_scan m) [schema, table] (row_i64 S row ''seq_scan''),
       set_labelled P (p_table_idx_scan m) [schema, table] (row_i64 S row ''idx_scan''),
       set_labelled P (p_table_live_tup m) [schema, table] (row_i64 S row ''n_live_tup''),
       set_labelled P (p_table_dead_tup m) [schema, table] (row_i64 S row ''n_dead_tup'')])"

definition lock_statements ::
  "'s prometheus \<Rightarrow> 'v serde \<Rightarrow> postgres_metrics \<Rightarrow> 'v row \<Rightarrow> ('s, metrics_error, unit) action list" where
  "lock_statements P S m row =
     [set_labelled P (p_lock_count m) [row_str S row ''mode''] (row_i64 S row ''cnt'')]"

definition postgres_poll ::
  "'s prometheus \<Rightarrow> 'v serde \<Rightarrow> ('s, 'v) pool_ops \<Rightarrow> postgres_metrics \<Rightarrow> ('s, metrics_error, unit) coro" where
  "postgres_poll P S A m =
     sync (\<lambda>s. (Ok (pool_status_of A (p_pool m) s), s)) (\<lambda>status.
     sync_each (status_statements P m status)
     (await (query_json A (p_pool m) SQL_DB_STATS) (\<lambda>db_rows.
     sync_each (concat (map (db_statements P S m) db_rows))
     (await (query_json A (p_pool m) SQL_TABLE_STATS) (\<lambda>table_rows.
     sync_each (concat (map (table_statements P S m) table_rows))
     (await (query_json A (p_pool m) SQL_LOCKS) (\<lambda>lock_rows.
     sync_each (concat (map (lock_statements P S m) lock_rows)) (Done (Ok ())))))))))"

subsection \<open>A poll that runs alone\<close>

lemma run_all_concat: "run_all (concat xss) = run_all (map run_all xss)"
  by (induction xss) (simp_all add: run_all_append)

lemma bind_ret_right: "bind_act a (\<lambda>_. ret ()) = (a :: ('s, 'e, unit) action)"
  by (rule ext) (auto simp: bind_act_def ret_def split: prod.splits outcome.splits)

lemma redis_statements_publish: "run_all (redis_statements P m info) = redis_publish P m info"
proof -
  have eq: "map run_all (map (\<lambda>(db, keys, expires).
       [set_labelled P (r_db_keys m) [db_label db] keys,
        set_labelled P (r_db_expires m) [db_label db] expires]) es) = map (publish_db P m) es" for es
    by (auto simp: publish_db_def Let_def)
  show ?thesis
    unfolding redis_statements_def redis_publish_def run_all_append run_all_concat eq ..
qed

lemma run_all_section: "run_all (section_statements d f) = (case d of None \<Rightarrow> ret () | Some x \<Rightarrow> run_all (f x))"
  by (simp add: section_statements_def split: option.splits)

lemma mongo_statements_publish: "run_all (mongo_statements P D checks m doc) = mongo_publish P D checks m doc"
  unfolding mongo_statements_def mongo_publish_def run_all_append run_all_section run_all.simps bind_ret_right
    publish_connections_def publish_opcounters_def publish_network_def publish_memory_def
    publish_wired_tiger_document wt_document_def ..

lemma postgres_statements_publish:
  "run_all (concat (map (db_statements P S m) rs)) = run_all (map (publish_db_row P S m) rs)"
  "run_all (concat (map (table_statements P S m) rs)) = run_all (map (publish_table_row P S m) rs)"
  "run_all (concat (map (lock_statements P S m) rs)) = run_all (map (publish_lock_row P S m) rs)"
proof -
  have "run_all (db_statements P S m r) = publish_db_row P S m r"
    "run_all (table_statements P S m r) = publish_table_row P S m r"
    "run_all (lock_statements P S m r) = publish_lock_row P S m r" for r
    by (simp_all only: db_statements_def publish_db_row_def table_statements_def publish_table_row_def
        lock_statements_def publish_lock_row_def Let_def run_all.simps bind_ret_right)
  then show "run_all (concat (map (db_statements P S m) rs)) = run_all (map (publish_db_row P S m) rs)"
    "run_all (concat (map (table_statements P S m) rs)) = run_all (map (publish_table_row P S m) rs)"
    "run_all (concat (map (lock_statements P S m) rs)) = run_all (map (publish_lock_row P S m) rs)"
    by (simp_all add: run_all_concat comp_def)
qed

lemma redis_poll_runs: "runs (redis_poll P D m) (redis_collect P D m)"
proof -
  have "runs (redis_poll P D m)
     (bind_act (\<lambda>s. set_int P (r_pool_connections m) (ucast (pool_size D (r_pool m) s)) s) (\<lambda>_.
      bind_act (redis_query D m) (\<lambda>raw.
      bind_act (run_all (redis_statements P m (parse_info raw))) (\<lambda>_. ret ()))))"
    unfolding redis_poll_def by (intro runs_intro)
  then show ?thesis by (simp only: redis_statements_publish bind_ret_right redis_collect_def)
qed

lemma mongo_poll_runs: "runs (mongo_poll P D checks m) (mongo_collect P D checks m)"
proof -
  have "runs (mongo_poll P D checks m)
     (bind_act (mongo_query D m) (\<lambda>doc. bind_act (run_all (mongo_statements P D checks m doc)) (\<lambda>_. ret ())))"
    unfolding mongo_poll_def by (intro runs_intro)
  then show ?thesis by (simp only: mongo_statements_publish bind_ret_right mongo_collect_def)
qed

lemma postgres_poll_runs: "runs (postgres_poll P S A m) (postgres_collect P S A m)"
proof -
  have "runs (postgres_poll P S A m)
     (bind_act (\<lambda>s. (Ok (pool_status_of A (p_pool m) s), s)) (\<lambda>status.
      bind_act (run_all (status_statements P m status)) (\<lambda>_.
      bind_act (query_json A (p_pool m) SQL_DB_STATS) (\<lambda>db_rows.
      bind_act (run_all (concat (map (db_statements P S m) db_rows))) (\<lambda>_.
      bind_act (query_json A (p_pool m) SQL_TABLE_STATS) (\<lambda>table_rows.
      bind_act (run_all (concat (map (table_statements P S m) table_rows))) (\<lambda>_.
      bind_act (query_json A (p_pool m) SQL_LOCKS) (\<lambda>lock_rows.
      bind_act (run_all (concat (map (lock_statements P S m) lock_rows))) (\<lambda>_. ret ())))))))))"
    unfolding postgres_poll_def by (intro runs_intro)
  moreover have "bind_act (\<lambda>s. (Ok (pool_status_of A (p_pool m) s), s)) (\<lambda>status. bind_act (run_all (status_statements P m status)) k) =
      bind_act (publish_pool_status P A m) k" for k :: "unit \<Rightarrow> ('a, metrics_error, unit) action"
    by (rule ext) (simp add: bind_act_def publish_pool_status_def status_statements_def Let_def)
  ultimately show ?thesis
    by (simp only: postgres_statements_publish bind_ret_right postgres_collect_def)
qed

subsection \<open>Polls among other tasks\<close>

text \<open>
  What other tasks leave alone: the descriptors of a collector's metrics, and the values of
  those that its poll writes, \<open>mine\<close>; its histograms are written by others.
\<close>

definition untouched :: "'s prom_view \<Rightarrow> handle list \<Rightarrow> handle list \<Rightarrow> 's \<Rightarrow> 's \<Rightarrow> bool" where
  "untouched V own mine s t \<longleftrightarrow>
     (\<forall>h\<in>set own. meta V t h = meta V s h) \<and>
     (\<forall>sr. fst sr \<in> set mine \<longrightarrow> val V t sr = val V s sr)"

text \<open>A body in a world that other tasks change by \<open>E\<close>, at any time.\<close>

inductive coro_step ::
  "('s \<Rightarrow> 's \<Rightarrow> bool) \<Rightarrow> ('s, 'e, 'a) coro \<times> 's \<Rightarrow> ('s, 'e, 'a) coro \<times> 's \<Rightarrow> bool" for E where
  Sync: "f s = (c, t) \<Longrightarrow> coro_step E (Sync f, s) (c, t)"
| Await: "f s = (c, t) \<Longrightarrow> coro_step E (Await f, s) (c, t)"
| Env: "E s t \<Longrightarrow> coro_step E (c, s) (c, t)"

inductive_cases coro_stepE: "coro_step E (c, s) (c', t)"

abbreviation coro_steps ::
  "('s \<Rightarrow> 's \<Rightarrow> bool) \<Rightarrow> ('s, 'e, 'a) coro \<times> 's \<Rightarrow> ('s, 'e, 'a) coro \<times> 's \<Rightarrow> bool" where
  "coro_steps E \<equiv> rtranclp (coro_step E)"

lemma run_coro_steps: "run_coro n c s = Some (r, t) \<Longrightarrow> coro_steps E (c, s) (Done r, t)"
proof (induction n c s rule: run_coro.induct)
  case (3 n f s)
  obtain c u where "f s = (c, u)" by (cases "f s")
  moreover from this have "coro_step E (Sync f, s) (c, u)" by (rule coro_step.Sync)
  ultimately show ?case using 3 by (auto intro: converse_rtranclp_into_rtranclp)
next
  case (4 n f s)
  obtain c u where "f s = (c, u)" by (cases "f s")
  moreover from this have "coro_step E (Await f, s) (c, u)" by (rule coro_step.Await)
  ultimately show ?case using 4 by (auto intro: converse_rtranclp_into_rtranclp)
qed simp_all

text \<open>
  \<open>follows V own descs r c evs\<close>: as long as the collector owns its metrics, the body \<open>c\<close> makes
  the events \<open>evs\<close> and ends with \<open>r\<close>, whatever else the world holds.
\<close>

datatype poll_event = Wr "assignment list" | Aw

fun written :: "poll_event list \<Rightarrow> assignment list" where
  "written [] = []"
| "written (Wr ws # evs) = ws @ written evs"
| "written (Aw # evs) = written evs"

lemma written_append [simp]: "written (xs @ ys) = written xs @ written ys"
  by (induction xs rule: written.induct) simp_all

lemma written_singles [simp]: "written (map (\<lambda>w. Wr [w]) ws) = ws"
  by (induction ws) simp_all

inductive follows ::
  "'s prom_view \<Rightarrow> handle list \<Rightarrow> metric_desc list \<Rightarrow> ('e, 'a) outcome \<Rightarrow> ('s, 'e, 'a) coro \<Rightarrow> poll_event list \<Rightarrow> bool"
  for V own descs r where
  follows_done: "follows V own descs r (Done r) []"
| follows_sync: "(\<And>u. owned (meta V u) own descs \<Longrightarrow>
      \<exists>t. f u = (c, t) \<and> meta V t = meta V u \<and> val V t = apply_writes ws (val V u)) \<Longrightarrow>
    follows V own descs r c evs \<Longrightarrow> follows V own descs r (Sync f) (Wr ws # evs)"
| follows_await: "(\<And>u. \<exists>t. f u = (c, t) \<and> same V u t) \<Longrightarrow>
    follows V own descs r c evs \<Longrightarrow> follows V own descs r (Await f) (Aw # evs)"

inductive_cases follows_DoneE: "follows V own descs r (Done q) evs"
inductive_cases follows_SyncE: "follows V own descs r (Sync f) evs"
inductive_cases follows_AwaitE: "follows V own descs r (Await f) evs"

lemma owned_untouched: "owned (meta V s) own descs \<Longrightarrow> untouched V own mine s t \<Longrightarrow> owned (meta V t) own descs"
  by (auto simp: owned_def untouched_def list_all2_conv_all_nth)

lemma apply_writes_agree: "f sr = g sr \<Longrightarrow> apply_writes ws f sr = apply_writes ws g sr"
  by (simp add: apply_writes_lookup split: option.splits)

lemma follows_steps:
  assumes "coro_steps E x y" and "\<And>a b. E a b \<Longrightarrow> untouched V own mine a b"
    and "follows V own descs r (fst x) evs" and "owned (meta V (snd x)) own descs"
  shows "\<exists>pre rest. evs = pre @ rest \<and> follows V own descs r (fst y) rest \<and> owned (meta V (snd y)) own descs \<and>
     (\<forall>sr. fst sr \<in> set mine \<longrightarrow> val V (snd y) sr = apply_writes (written pre) (val V (snd x)) sr)"
  using assms(1)
proof (induction rule: rtranclp_induct)
  case base
  then show ?case using assms(3,4) by (intro exI [of _ "[]"] exI [of _ evs]) simp
next
  case (step y z)
  then obtain pre rest where ih: "evs = pre @ rest" "follows V own descs r (fst y) rest"
    "owned (meta V (snd y)) own descs"
    "\<forall>sr. fst sr \<in> set mine \<longrightarrow> val V (snd y) sr = apply_writes (written pre) (val V (snd x)) sr"
    by blast
  from step(2) show ?case
  proof cases
    case (Sync f s c t)
    with ih(2) obtain c' ws rest' where f: "rest = Wr ws # rest'" "follows V own descs r c' rest'"
      "\<And>u. owned (meta V u) own descs \<Longrightarrow>
         \<exists>t. f u = (c', t) \<and> meta V t = meta V u \<and> val V t = apply_writes ws (val V u)"
      by (auto elim: follows_SyncE)
    from f(3) [OF ih(3)] Sync have "c' = c" "meta V t = meta V s" "val V t = apply_writes ws (val V s)"
      by auto
    with Sync ih f(1,2) show ?thesis
      by (intro exI [of _ "pre @ [Wr ws]"] exI [of _ rest']) (auto intro: apply_writes_agree)
  next
    case (Await f s c t)
    with ih(2) obtain c' rest' where f: "rest = Aw # rest'" "follows V own descs r c' rest'"
      "\<And>u. \<exists>t. f u = (c', t) \<and> same V u t"
      by (auto elim: follows_AwaitE)
    from f(3) [of s] Await have "c' = c" "same V s t" by auto
    with Await ih f(1,2) show ?thesis
      by (intro exI [of _ "pre @ [Aw]"] exI [of _ rest']) (auto simp: same_def)
  next
    case (Env s t c)
    with assms(2) have u: "untouched V own mine s t" by blast
    have "owned (meta V t) own descs" using owned_untouched [OF _ u] ih(3) Env by simp
    moreover have "\<forall>sr. fst sr \<in> set mine \<longrightarrow> val V t sr = val V s sr" using u by (simp add: untouched_def)
    ultimately show ?thesis using Env ih
      by (intro exI [of _ pre] exI [of _ rest]) simp
  qed
qed

text \<open>A completed poll has done to its own metrics what it does when it runs alone.\<close>

definition agree :: "handle list \<Rightarrow> (series \<Rightarrow> metric_value) \<Rightarrow> (series \<Rightarrow> metric_value) \<Rightarrow> bool" where
  "agree mine f g \<longleftrightarrow> (\<forall>sr. fst sr \<in> set mine \<longrightarrow> f sr = g sr)"

lemma follows_end:
  assumes "coro_steps E (c, s) (Done q, t)" and "\<And>a b. E a b \<Longrightarrow> untouched V own mine a b"
    and "follows V own descs r c evs" and "owned (meta V s) own descs"
  shows "q = r \<and> agree mine (val V t) (apply_writes (written evs) (val V s))"
proof -
  have "follows V own descs r (fst (c, s)) evs" "owned (meta V (snd (c, s))) own descs"
    using assms(3,4) by simp_all
  from follows_steps [OF assms(1,2) this] obtain pre rest where *: "evs = pre @ rest"
    "follows V own descs r (Done q) rest"
    "\<forall>sr. fst sr \<in> set mine \<longrightarrow> val V t sr = apply_writes (written pre) (val V s) sr"
    by auto
  from *(2) have "q = r" "rest = []" by (auto elim: follows_DoneE)
  with *(1,3) show ?thesis by (simp add: agree_def)
qed

lemma interleaved_agrees:
  assumes runs: "runs c a" and f: "follows V own descs r c evs" and own: "owned (meta V s) own descs"
    and E: "\<And>a b. E a b \<Longrightarrow> untouched V own mine a b" and steps: "coro_steps E (c, s) (Done q, t)"
  shows "\<exists>u. a s = (q, u) \<and> agree mine (val V t) (val V u)"
proof -
  obtain n where n: "run_coro n c s = Some (a s)" using runs unfolding runs_def by blast
  obtain r' u where u: "a s = (r', u)" by (cases "a s")
  have "coro_steps E (c, s) (Done r', u)" using n unfolding u by (rule run_coro_steps)
  from follows_end [OF this E f own] follows_end [OF steps E f own] u show ?thesis
    by (auto simp: agree_def)
qed

text \<open>A poll that is dropped while it waits has made the events before one of its awaits.\<close>

lemma follows_aborted:
  assumes "coro_steps E (c, s) (Await f, t)" and "\<And>a b. E a b \<Longrightarrow> untouched V own mine a b"
    and "follows V own descs r c evs" and "owned (meta V s) own descs"
  shows "\<exists>pre rest. evs = pre @ Aw # rest \<and> agree mine (val V t) (apply_writes (written pre) (val V s))"
proof -
  have "follows V own descs r (fst (c, s)) evs" "owned (meta V (snd (c, s))) own descs"
    using assms(3,4) by simp_all
  from follows_steps [OF assms(1,2) this] obtain pre rest where *: "evs = pre @ rest"
    "follows V own descs r (Await f) rest"
    "\<forall>sr. fst sr \<in> set mine \<longrightarrow> val V t sr = apply_writes (written pre) (val V s) sr"
    by auto
  from *(2) obtain rest' where "rest = Aw # rest'" by (auto elim: follows_AwaitE)
  with *(1,3) show ?thesis by (auto simp: agree_def)
qed

text \<open>The events of the combinators.\<close>

lemma follows_sync_act:
  assumes "\<And>M. owned M own descs \<Longrightarrow> writes V M a ws" and "follows V own descs r (k ()) evs"
  shows "follows V own descs r (sync a k) (Wr ws # evs)"
  unfolding sync_def
proof (rule follows_sync [OF _ assms(2)])
  fix u assume "owned (meta V u) own descs"
  from assms(1) [OF this] show "\<exists>t. and_then a k u = (k (), t) \<and> meta V t = meta V u \<and> val V t = apply_writes ws (val V u)"
    by (auto simp: writes_def and_then_def)
qed

lemma follows_each:
  assumes "\<And>M. owned M own descs \<Longrightarrow> list_all2 (\<lambda>a w. writes V M a [w]) as ws"
    and "follows V own descs r k evs" and "\<exists>M. owned M own descs"
  shows "follows V own descs r (sync_each as k) (map (\<lambda>w. Wr [w]) ws @ evs)"
proof -
  obtain M where "list_all2 (\<lambda>a w. writes V M a [w]) as ws" using assms(1,3) by blast
  then have "length as = length ws" by (rule list_all2_lengthD)
  then show ?thesis using assms(1)
  proof (induction as ws rule: list_induct2)
    case Nil
    then show ?case using assms(2) by simp
  next
    case (Cons a as w ws)
    then show ?case by (auto intro!: follows_sync_act)
  qed
qed

lemma follows_await_Ok:
  assumes "\<And>u. \<exists>t. a u = (Ok x, t) \<and> same V u t" and "follows V own descs r (k x) evs"
  shows "follows V own descs r (await a k) (Aw # evs)"
  unfolding await_def
proof (rule follows_await [OF _ assms(2)])
  fix u
  obtain t where "a u = (Ok x, t)" "same V u t" using assms(1) [of u] by blast
  then show "\<exists>t. and_then a k u = (k x, t) \<and> same V u t" by (simp add: and_then_def)
qed

lemma follows_await_Err:
  assumes "\<And>u. \<exists>t. a u = (Err e, t) \<and> same V u t"
  shows "follows V own descs (Err e) (await a k) [Aw]"
  unfolding await_def
proof (rule follows_await [OF _ follows_done])
  fix u
  obtain t where "a u = (Err e, t)" "same V u t" using assms(1) [of u] by blast
  then show "\<exists>t. and_then a k u = (Done (Err e), t) \<and> same V u t" by (simp add: and_then_def)
qed

subsection \<open>Bodies that keep the values well typed\<close>

text \<open>
  A value of the type that the kind of its metric has in the crate; the series of a metric are
  those with as many label values as it has labels.
\<close>

fun has_kind :: "metric_kind \<Rightarrow> metric_value \<Rightarrow> bool" where
  "has_kind IntGauge v = (\<exists>n. v = IntV n)"
| "has_kind IntGaugeVec v = (\<exists>n. v = IntV n)"
| "has_kind Gauge v = (\<exists>x. v = FloatV x)"
| "has_kind IntCounterVec v = (\<exists>n. v = CountV n)"
| "has_kind HistogramVec v = (\<exists>xs. v = HistV xs)"
| "has_kind ProcessCollector v = True"

lemma has_kind_initial: "has_kind k (initial_value k)"
  by (cases k) simp_all

definition well_typed :: "'s prom_view \<Rightarrow> 's \<Rightarrow> handle list \<Rightarrow> bool" where
  "well_typed V s hs \<longleftrightarrow>
     (\<forall>h\<in>set hs. \<forall>d ls. meta V s h = Some d \<and> length ls = length (d_labels d) \<longrightarrow>
        has_kind (d_kind d) (val V s (h, ls)))"

definition typed_writes :: "(handle \<rightharpoonup> metric_desc) \<Rightarrow> handle list \<Rightarrow> assignment list \<Rightarrow> bool" where
  "typed_writes M mine ws \<longleftrightarrow>
     (\<forall>(sr, v)\<in>set ws. fst sr \<in> set mine \<and> (\<exists>d. M (fst sr) = Some d \<and> has_kind (d_kind d) v))"

lemma typed_writes_Nil [simp]: "typed_writes M mine []"
  by (simp add: typed_writes_def)

lemma typed_writes_single:
  "core_is M h k n \<Longrightarrow> h \<in> set mine \<Longrightarrow> has_kind k v \<Longrightarrow> typed_writes M mine [((h, ls), v)]"
  by (auto simp: typed_writes_def core_is_def)

lemma well_typed_writes:
  assumes "well_typed V s hs" and "typed_writes (meta V s) mine ws"
    and "meta V t = meta V s" and "val V t = apply_writes ws (val V s)"
  shows "well_typed V t hs"
  unfolding well_typed_def
proof (intro ballI allI impI)
  fix h d and ls :: "string list"
  assume h: "h \<in> set hs" and "meta V t h = Some d \<and> length ls = length (d_labels d)"
  then have d: "meta V t h = Some d" and l: "length ls = length (d_labels d)" by blast+
  show "has_kind (d_kind d) (val V t (h, ls))"
  proof (cases "map_of (rev ws) (h, ls)")
    case None
    then show ?thesis using assms(1,3,4) h d l by (simp add: well_typed_def apply_writes_lookup)
  next
    case (Some v)
    then have "((h, ls), v) \<in> set ws" by (auto dest: map_of_SomeD)
    with assms(2-4) d Some show ?thesis by (fastforce simp: typed_writes_def apply_writes_lookup)
  qed
qed

text \<open>
  \<open>safe V own descs mine c\<close>: whatever the drivers answer, and whatever the world is when the body
  goes on, the body never panics and makes well typed assignments to \<open>mine\<close> only.
\<close>

inductive safe ::
  "'s prom_view \<Rightarrow> handle list \<Rightarrow> metric_desc list \<Rightarrow> handle list \<Rightarrow> ('s, 'e, 'a) coro \<Rightarrow> bool"
  for V own descs mine where
  safe_done: "r \<noteq> Panic \<Longrightarrow> safe V own descs mine (Done r)"
| safe_sync: "(\<And>u. owned (meta V u) own descs \<Longrightarrow>
      meta V (snd (f u)) = meta V u \<and> safe V own descs mine (fst (f u)) \<and>
      (\<exists>ws. typed_writes (meta V u) mine ws \<and> val V (snd (f u)) = apply_writes ws (val V u))) \<Longrightarrow>
    safe V own descs mine (Sync f)"
| safe_await: "(\<And>u. same V u (snd (f u)) \<and> safe V own descs mine (fst (f u))) \<Longrightarrow>
    safe V own descs mine (Await f)"

inductive_cases safe_DoneE: "safe V own descs mine (Done r)"
inductive_cases safe_SyncE: "safe V own descs mine (Sync f)"
inductive_cases safe_AwaitE: "safe V own descs mine (Await f)"

lemma safe_sync_read:
  assumes "\<And>u. owned (meta V u) own descs \<Longrightarrow>
      \<exists>x t ws. a u = (Ok x, t) \<and> meta V t = meta V u \<and> val V t = apply_writes ws (val V u) \<and>
        typed_writes (meta V u) mine ws \<and> safe V own descs mine (k x)"
  shows "safe V own descs mine (sync a k)"
  unfolding sync_def
proof (rule safe_sync)
  fix u assume u: "owned (meta V u) own descs"
  obtain x t ws where "a u = (Ok x, t)" "meta V t = meta V u" "val V t = apply_writes ws (val V u)"
    "typed_writes (meta V u) mine ws" "safe V own descs mine (k x)"
    using assms [OF u] by blast
  then show "meta V (snd (and_then a k u)) = meta V u \<and> safe V own descs mine (fst (and_then a k u)) \<and>
      (\<exists>ws. typed_writes (meta V u) mine ws \<and> val V (snd (and_then a k u)) = apply_writes ws (val V u))"
    by (auto simp: and_then_def)
qed

lemma safe_sync_act:
  assumes "\<And>M. owned M own descs \<Longrightarrow> writes V M a ws" and "\<And>M. owned M own descs \<Longrightarrow> typed_writes M mine ws"
    and "safe V own descs mine (k ())"
  shows "safe V own descs mine (sync a k)"
proof (rule safe_sync_read)
  fix u assume u: "owned (meta V u) own descs"
  with assms(1) [OF u] assms(2) [OF u] assms(3) show "\<exists>x t ws. a u = (Ok x, t) \<and> meta V t = meta V u \<and>
      val V t = apply_writes ws (val V u) \<and> typed_writes (meta V u) mine ws \<and> safe V own descs mine (k x)"
    unfolding writes_def by blast
qed

lemma safe_each:
  assumes "\<And>M. owned M own descs \<Longrightarrow> list_all2 (\<lambda>a w. writes V M a [w] \<and> typed_writes M mine [w]) as ws"
    and "safe V own descs mine k" and "\<exists>M. owned M own descs"
  shows "safe V own descs mine (sync_each as k)"
proof -
  have "length as = length ws" using assms(1,3) by (auto dest: list_all2_lengthD)
  then show ?thesis using assms(1)
  proof (induction as ws rule: list_induct2)
    case Nil
    then show ?case using assms(2) by simp
  next
    case (Cons a as w ws)
    have "safe V own descs mine (sync_each as k)" using Cons by simp
    then show ?case using Cons.prems by (auto intro!: safe_sync_act [where ws = "[w]"])
  qed
qed

lemma safe_await_act:
  assumes "\<And>u r t. a u = (r, t) \<Longrightarrow> r \<noteq> Panic \<and> same V u t" and "\<And>x. safe V own descs mine (k x)"
  shows "safe V own descs mine (await a k)"
  unfolding await_def
proof (rule safe_await)
  fix u
  obtain r t where rt: "a u = (r, t)" by (cases "a u")
  with assms(1) [OF rt] assms(2) show "same V u (snd (and_then a k u)) \<and> safe V own descs mine (fst (and_then a k u))"
    by (cases r) (auto simp: and_then_def intro: safe_done)
qed

end
