(* ===== verification/Polls.thy ===== *)
theory Polls
  imports Async
begin

text \<open>
  The three polls as tasks among others.  The locale \<open>poller\<close> is what the rest of the system
  needs of a poll: run alone it is the \<open>collect\<close> of the trait, and in any environment it is
  \<open>safe\<close>.  Each collector interprets it; PostgreSQL does so over every pool adapter.

  For drivers whose answers do not change during a poll, \<open>redis_events\<close>, \<open>mongo_events\<close> and
  \<open>postgres_events\<close> are the events of a poll.  \<open>undisturbed\<close> says that a poll has the result and the
  gauges of one that runs alone, when other tasks run in between; the property says what an aborted
  poll leaves.
\<close>

subsection \<open>Statements\<close>

definition stmt ::
  "'s prom_view \<Rightarrow> (handle \<rightharpoonup> metric_desc) \<Rightarrow> handle list \<Rightarrow> ('s, metrics_error, unit) action \<Rightarrow> assignment \<Rightarrow> bool" where
  "stmt V M mine a w \<longleftrightarrow> writes V M a [w] \<and> typed_writes M mine [w]"

lemma stmt_int:
  "prom_ok P V \<Longrightarrow> core_is M h IntGauge n \<Longrightarrow> h \<in> set mine \<Longrightarrow>
     stmt V M mine (set_int P h v) (plain h, IntV v)"
  using typed_writes_single [of M h IntGauge n mine "IntV v" "[]"]
  by (simp add: stmt_def writes_set_int plain_def [of h, symmetric])

lemma stmt_float:
  "prom_ok P V \<Longrightarrow> core_is M h Gauge n \<Longrightarrow> h \<in> set mine \<Longrightarrow>
     stmt V M mine (set_float P h v) (plain h, FloatV v)"
  using typed_writes_single [of M h Gauge n mine "FloatV v" "[]"]
  by (simp add: stmt_def writes_set_float plain_def [of h, symmetric])

lemma stmt_labelled:
  "prom_ok P V \<Longrightarrow> core_is M h IntGaugeVec n \<Longrightarrow> h \<in> set mine \<Longrightarrow> length ls = n \<Longrightarrow>
     stmt V M mine (set_labelled P h ls v) ((h, ls), IntV v)"
  by (simp add: stmt_def writes_set_labelled typed_writes_single)

definition singles :: "assignment list \<Rightarrow> poll_event list" where
  "singles ws = map (\<lambda>w. Wr [w]) ws"

lemma written_singles' [simp]: "written (singles ws) = ws"
  by (simp add: singles_def)

lemma singles_await [simp]:
  "singles ws @ ys = pre @ Aw # rest \<longleftrightarrow> (\<exists>pre'. pre = singles ws @ pre' \<and> ys = pre' @ Aw # rest)"
proof (induction ws arbitrary: pre)
  case (Cons w ws)
  then show ?case by (cases pre) (auto simp: singles_def)
qed (simp add: singles_def)

lemma singles_no_await [simp]: "singles ws \<noteq> pre @ Aw # rest"
  using singles_await [of ws "[]" pre rest] by simp

lemma follows_stmts:
  assumes "\<And>M. owned M own descs \<Longrightarrow> list_all2 (stmt V M mine) as ws"
    and "follows V own descs r k evs" and "\<exists>M. owned M own descs"
  shows "follows V own descs r (sync_each as k) (singles ws @ evs)"
  unfolding singles_def
  by (rule follows_each [OF _ assms(2,3)], rule list_all2_mono, erule assms(1)) (simp add: stmt_def)

lemma safe_stmts:
  assumes "\<And>M. owned M own descs \<Longrightarrow> list_all2 (stmt V M mine) as ws"
    and "safe V own descs mine k" and "\<exists>M. owned M own descs"
  shows "safe V own descs mine (sync_each as k)"
  by (rule safe_each [OF _ assms(2,3)], rule list_all2_mono, erule assms(1)) (simp add: stmt_def)

lemma list_all2_concat_map:
  "(\<And>x. x \<in> set xs \<Longrightarrow> list_all2 R (f x) (g x)) \<Longrightarrow> list_all2 R (concat (map f xs)) (concat (map g xs))"
  by (induction xs) (auto intro: list_all2_appendI)

text \<open>The gauges of each collector: its metrics but the histograms, which the application writes.\<close>

definition redis_gauges :: "redis_metrics \<Rightarrow> handle list" where
  "redis_gauges m = take 14 (redis_handles m)"

definition mongo_gauges :: "mongo_metrics \<Rightarrow> handle list" where
  "mongo_gauges m = take 12 (mongo_handles m)"

definition postgres_gauges :: "postgres_metrics \<Rightarrow> handle list" where
  "postgres_gauges m = take 14 (postgres_handles m)"

lemmas gauges_eval =
  redis_gauges_def redis_handles_def mongo_gauges_def mongo_handles_def postgres_gauges_def postgres_handles_def

lemma redis_stmts:
  assumes P: "prom_ok P V" and own: "owned M (redis_handles m) (redis_descs ns)"
  shows "list_all2 (stmt V M (redis_gauges m)) (redis_statements P m info) (poll_assigns m info)"
proof -
  note c = redis_cores [OF own] and int = stmt_int [OF P] and lab = stmt_labelled [OF P]
  have db: "list_all2 (stmt V M (redis_gauges m))
      (concat (map (\<lambda>(db, keys, expires).
         [set_labelled P (r_db_keys m) [db_label db] keys, set_labelled P (r_db_expires m) [db_label db] expires]) es))
      (concat (map (db_assigns m) es))" for es
    using lab [OF c(11)] lab [OF c(12)]
    by (intro list_all2_concat_map) (auto simp: db_assigns_def gauges_eval)
  have scalar: "list_all2 (stmt V M (redis_gauges m)) (take 11 (redis_statements P m info)) (scalar_assigns m info)"
    using int [OF c(2)] int [OF c(3)] int [OF c(4)] int [OF c(5)] stmt_float [OF P c(6)] int [OF c(7)]
      int [OF c(8)] int [OF c(9)] int [OF c(10)] int [OF c(13)] int [OF c(14)]
    by (simp add: redis_statements_def scalar_assigns_def gauges_eval)
  show ?thesis
    using list_all2_appendI [OF scalar db [of "i_keyspace info"]]
    by (simp add: redis_statements_def poll_assigns_def)
qed

lemma section_stmts:
  "(\<And>x. d = Some x \<Longrightarrow> list_all2 R (f x) (g x)) \<Longrightarrow>
     list_all2 R (section_statements d f) (case d of None \<Rightarrow> [] | Some x \<Rightarrow> g x)"
  by (cases d) (simp_all add: section_statements_def)

lemma mongo_stmts:
  assumes P: "prom_ok P V" and own: "owned M (mongo_handles m) (mongo_descs ns)"
    and fits: "\<not> checks \<or> mem_fits D doc"
  shows "list_all2 (stmt V M (mongo_gauges m)) (mongo_statements P D checks m doc) (mongo_assigns D m doc)"
proof -
  note c = mongo_cores [OF own] and int = stmt_int [OF P]
  have mb: "bind_act (mb_to_bytes checks x) k = k (mb_bytes x)" if "\<not> checks \<or> mb_fits x"
    for x and k :: "_ \<Rightarrow> ('a, metrics_error, unit) action"
    by (simp add: mb_to_bytes_nocheck [OF that])
  show ?thesis
    unfolding mongo_statements_def mongo_assigns_def concat.simps append_Nil2 conn_assigns_def ops_assigns_def
      net_assigns_def mem_assigns_def wt_assigns_def wt_document_def
    using fits int [OF c(1)] int [OF c(2)] int [OF c(3)] stmt_labelled [OF P c(4)] int [OF c(5)] int [OF c(6)]
      int [OF c(7)] int [OF c(8)] int [OF c(9)] int [OF c(10)] int [OF c(11)] int [OF c(12)]
    by (intro list_all2_appendI section_stmts)
      (simp_all add: gauges_eval mb mem_fits_def list.rel_map list_all2_same)
qed

lemma rows_stmts:
  assumes P: "prom_ok P V" and own: "owned M (postgres_handles m) (postgres_descs ns)"
  shows "list_all2 (stmt V M (postgres_gauges m)) (concat (map (db_statements P S m) rs))
       (rows_assigns S (db_label_of S) (db_columns m) rs)"
    and "list_all2 (stmt V M (postgres_gauges m)) (concat (map (table_statements P S m) rs))
       (rows_assigns S (table_label_of S) (table_columns m) rs)"
    and "list_all2 (stmt V M (postgres_gauges m)) (concat (map (lock_statements P S m) rs))
       (rows_assigns S (lock_label_of S) (lock_columns m) rs)"
  unfolding rows_assigns_def
  using stmt_labelled [OF P postgres_cores(4) [OF own]] stmt_labelled [OF P postgres_cores(5) [OF own]]
    stmt_labelled [OF P postgres_cores(6) [OF own]] stmt_labelled [OF P postgres_cores(7) [OF own]]
    stmt_labelled [OF P postgres_cores(8) [OF own]] stmt_labelled [OF P postgres_cores(9) [OF own]]
    stmt_labelled [OF P postgres_cores(10) [OF own]] stmt_labelled [OF P postgres_cores(11) [OF own]]
    stmt_labelled [OF P postgres_cores(12) [OF own]] stmt_labelled [OF P postgres_cores(13) [OF own]]
    stmt_labelled [OF P postgres_cores(14) [OF own]]
  by (intro list_all2_concat_map;
      simp add: db_statements_def table_statements_def lock_statements_def row_assigns_def columns_defs
        label_of_defs Let_def gauges_eval)+

definition status_writes :: "postgres_metrics \<Rightarrow> pool_status \<Rightarrow> assignment list" where
  "status_writes m st =
     [(plain (p_pool_active m), IntV (ucast (ps_in_use st))),
      (plain (p_pool_idle m), IntV (ucast (ps_available st))),
      (plain (p_pool_max m), IntV (ucast (ps_max_size st)))]"

lemma status_stmts:
  assumes P: "prom_ok P V" and own: "owned M (postgres_handles m) (postgres_descs ns)"
  shows "list_all2 (stmt V M (postgres_gauges m)) (status_statements P m st) (status_writes m st)"
  using stmt_int [OF P postgres_cores(1) [OF own]] stmt_int [OF P postgres_cores(2) [OF own]]
    stmt_int [OF P postgres_cores(3) [OF own]]
  by (simp add: status_statements_def status_writes_def gauges_eval)

subsection \<open>What the system needs of a poll\<close>

locale poller =
  fixes poll :: "'s prometheus \<Rightarrow> ('s, metrics_error, unit) coro"
    and collect :: "'s prometheus \<Rightarrow> ('s, metrics_error, unit) action"
    and own mine :: "handle list"
    and descs :: "metric_desc list"
    and env_ok :: "'s prom_view \<Rightarrow> bool"
  assumes poll_runs: "runs (poll P) (collect P)"
    and poll_safe: "prom_ok P V \<Longrightarrow> env_ok V \<Longrightarrow> \<exists>M. owned M own descs \<Longrightarrow> safe V own descs mine (poll P)"
    and mine_own: "set mine \<subseteq> set own"
begin

lemma poll_interleaved:
  assumes "follows V own descs r (poll P) evs" and "owned (meta V s) own descs"
    and "\<And>a b. E a b \<Longrightarrow> untouched V own mine a b" and "coro_steps E (poll P, s) (Done q, t)"
  shows "\<exists>u. collect P s = (q, u) \<and> agree mine (val V t) (val V u)"
  by (rule interleaved_agrees [OF poll_runs assms(1,2)]) (use assms(3,4) in auto)

end

lemma redis_query_quiet: "fred_quiet D V \<Longrightarrow> redis_query D m u = (r, t) \<Longrightarrow> r \<noteq> Panic \<and> same V u t"
  unfolding fred_quiet_def redis_query_def
  by (cases "pool_info D (r_pool m) u") (auto split: sum.splits dest: spec [of _ "r_pool m"] dest!: spec [of _ u])

lemma mongo_query_quiet: "mongo_quiet D V \<Longrightarrow> mongo_query D m u = (r, t) \<Longrightarrow> r \<noteq> Panic \<and> same V u t"
  by (cases rule: mongo_query_cases [of D V m u]) auto

lemma safe_stmt_read:
  assumes "\<And>u. owned (meta V u) own descs \<Longrightarrow> \<exists>w. stmt V (meta V u) mine (a u) w"
    and "safe V own descs mine (k ())"
  shows "safe V own descs mine (sync (\<lambda>s. a s s) k)"
proof (rule safe_sync_read)
  fix u assume "owned (meta V u) own descs"
  from assms(1) [OF this] obtain w where w: "writes V (meta V u) (a u) [w]" "typed_writes (meta V u) mine [w]"
    unfolding stmt_def by blast
  from w(1) obtain t where "a u u = (Ok (), t)" "meta V t = meta V u" "val V t = apply_writes [w] (val V u)"
    by (auto simp: writes_def)
  with w(2) assms(2) show "\<exists>x t ws. a u u = (Ok x, t) \<and> meta V t = meta V u \<and> val V t = apply_writes ws (val V u) \<and>
      typed_writes (meta V u) mine ws \<and> safe V own descs mine (k x)" by blast
qed

lemma redis_safe:
  assumes P: "prom_ok P V" and D: "fred_quiet D V" and own: "\<exists>M. owned M (redis_handles m) (redis_descs ns)"
  shows "safe V (redis_handles m) (redis_descs ns) (redis_gauges m) (redis_poll P D m)"
  unfolding redis_poll_def
proof (rule safe_stmt_read [where a = "\<lambda>s. set_int P (r_pool_connections m) (ucast (pool_size D (r_pool m) s))"])
  show "\<exists>w. stmt V (meta V u) (redis_gauges m) (set_int P (r_pool_connections m) (ucast (pool_size D (r_pool m) u))) w"
    if u: "owned (meta V u) (redis_handles m) (redis_descs ns)" for u
    by (rule exI, rule stmt_int [OF P redis_cores(1) [OF u]]) (simp add: gauges_eval)
  show "safe V (redis_handles m) (redis_descs ns) (redis_gauges m)
      (await (redis_query D m) (\<lambda>raw. sync_each (redis_statements P m (parse_info raw)) (Done (Ok ()))))"
    by (intro safe_await_act redis_query_quiet [OF D] safe_stmts [OF redis_stmts [OF P] _ own] safe_done) simp_all
qed

lemma mongo_query_status: "mongo_query D m u = (Ok doc, t) \<Longrightarrow> server_status D m u = Inr doc"
  by (auto simp: mongo_query_def server_status_def split: prod.splits sum.splits)

lemma mongo_safe:
  assumes P: "prom_ok P V" and D: "mongo_env D checks m V" and own: "\<exists>M. owned M (mongo_handles m) (mongo_descs ns)"
  shows "safe V (mongo_handles m) (mongo_descs ns) (mongo_gauges m) (mongo_poll P D checks m)"
  unfolding mongo_poll_def await_def
proof (rule safe_await)
  fix u
  obtain r t where rt: "mongo_query D m u = (r, t)" by (cases "mongo_query D m u")
  have q: "r \<noteq> Panic \<and> same V u t" using D rt by (intro mongo_query_quiet) (auto simp: mongo_env_def)
  have "safe V (mongo_handles m) (mongo_descs ns) (mongo_gauges m)
      (sync_each (mongo_statements P D checks m doc) (Done (Ok ())))" if "r = Ok doc" for doc
  proof -
    have "\<not> checks \<or> mem_fits D doc"
      using D mongo_query_status [of D m u doc t] rt that by (auto simp: mongo_env_def)
    from mongo_stmts [OF P _ this] own show ?thesis by (intro safe_stmts safe_done) auto
  qed
  with rt q show "same V u (snd (and_then (mongo_query D m)
        (\<lambda>doc. sync_each (mongo_statements P D checks m doc) (Done (Ok ()))) u)) \<and>
      safe V (mongo_handles m) (mongo_descs ns) (mongo_gauges m) (fst (and_then (mongo_query D m)
        (\<lambda>doc. sync_each (mongo_statements P D checks m doc) (Done (Ok ()))) u))"
    by (cases r) (auto simp: and_then_def intro: safe_done)
qed

context pool_adapter
begin

lemma postgres_safe:
  assumes P: "prom_ok P V" and E: "env_ok V" and own: "\<exists>M. owned M (postgres_handles m) (postgres_descs ns)"
  shows "safe V (postgres_handles m) (postgres_descs ns) (postgres_gauges m) (postgres_poll P S A m)"
proof -
  have q: "r \<noteq> Panic \<and> same V u t" if "query_json A (p_pool m) sql u = (r, t)" for sql u r t
    using query_frame [OF E that] by auto
  note stmts = safe_stmts [OF status_stmts [OF P] _ own] safe_stmts [OF rows_stmts(1) [OF P] _ own]
    safe_stmts [OF rows_stmts(2) [OF P] _ own] safe_stmts [OF rows_stmts(3) [OF P] _ own]
  have "safe V (postgres_handles m) (postgres_descs ns) (postgres_gauges m)
     (sync_each (status_statements P m status)
     (await (query_json A (p_pool m) SQL_DB_STATS) (\<lambda>db_rows.
     sync_each (concat (map (db_statements P S m) db_rows))
     (await (query_json A (p_pool m) SQL_TABLE_STATS) (\<lambda>table_rows.
     sync_each (concat (map (table_statements P S m) table_rows))
     (await (query_json A (p_pool m) SQL_LOCKS) (\<lambda>lock_rows.
     sync_each (concat (map (lock_statements P S m) lock_rows)) (Done (Ok ())))))))))" for status
    by (intro stmts safe_await_act q safe_done) simp_all
  then show ?thesis
    unfolding postgres_poll_def by (intro safe_sync_read) (auto intro!: exI [of _ "[]"])
qed

end

interpretation redis_poll: poller "\<lambda>P. redis_poll P D m" "\<lambda>P. redis_collect P D m"
    "redis_handles m" "redis_gauges m" "redis_descs ns" "fred_quiet D"
  for m :: redis_metrics and D :: "'s fred" and ns :: string
  by unfold_locales (rule redis_poll_runs, rule redis_safe, assumption+, simp add: redis_gauges_def set_take_subset)

interpretation mongo_poll: poller "\<lambda>P. mongo_poll P D checks m" "\<lambda>P. mongo_collect P D checks m"
    "mongo_handles m" "mongo_gauges m" "mongo_descs ns" "mongo_env D checks m"
  for m :: mongo_metrics and D :: "('s, 'd) mongo_driver" and checks :: bool and ns :: string
  by unfold_locales (rule mongo_poll_runs, rule mongo_safe, assumption+, simp add: mongo_gauges_def set_take_subset)

sublocale pool_adapter \<subseteq> poll: poller "\<lambda>P. postgres_poll P S A m" "\<lambda>P. postgres_collect P S A m"
    "postgres_handles m" "postgres_gauges m" "postgres_descs ns" env_ok
  for S m ns
  by unfold_locales (rule postgres_poll_runs, rule postgres_safe, assumption+, simp add: postgres_gauges_def set_take_subset)

subsection \<open>The events of a poll whose driver answers steadily\<close>

definition answer_of :: "string + 'a \<Rightarrow> (metrics_error, 'a) outcome" where
  "answer_of x = (case x of Inl msg \<Rightarrow> Err (Database msg) | Inr y \<Rightarrow> Ok y)"

definition after :: "('e, 'x) outcome \<Rightarrow> ('x \<Rightarrow> 'b list) \<Rightarrow> 'b list" where
  "after x h = (case x of Ok y \<Rightarrow> h y | _ \<Rightarrow> [])"

definition and_ok :: "('e, 'x) outcome \<Rightarrow> ('x \<Rightarrow> ('e, 'a) outcome) \<Rightarrow> ('e, 'a) outcome" where
  "and_ok x g = (case x of Ok y \<Rightarrow> g y | Err e \<Rightarrow> Err e | Panic \<Rightarrow> Panic)"

lemma answer_simps [simp]:
  "answer_of (Inl msg) = Err (Database msg)" "answer_of (Inr y) = Ok y"
  "after (Ok y) h = h y" "after (Err e) h = []" "after Panic h = []"
  "and_ok (Ok y) g = g y" "and_ok (Err e) g = Err e" "and_ok Panic g = Panic"
  by (simp_all add: answer_of_def after_def and_ok_def)

lemma answer_not_Panic [simp]: "answer_of x \<noteq> Panic"
  by (cases x) simp_all

lemma follows_answer:
  assumes a: "\<And>u. \<exists>t. a u = (x, t) \<and> same V u t" and x: "x \<noteq> Panic"
    and k: "\<And>y. x = Ok y \<Longrightarrow> follows V own descs (g y) (k y) (h y)"
  shows "follows V own descs (and_ok x g) (await a k) (Aw # after x h)"
proof (cases x)
  case (Ok y)
  show ?thesis
    unfolding Ok answer_simps by (rule follows_await_Ok, rule a [unfolded Ok], rule k [OF Ok])
next
  case (Err e)
  show ?thesis
    unfolding Err answer_simps by (rule follows_await_Err, rule a [unfolded Err])
qed (use x in simp)

definition redis_steady :: "'s fred \<Rightarrow> redis_metrics \<Rightarrow> usize \<Rightarrow> string + string \<Rightarrow> bool" where
  "redis_steady D m n x \<longleftrightarrow> (\<forall>u. pool_size D (r_pool m) u = n \<and> fst (pool_info D (r_pool m) u) = x)"

definition redis_events :: "redis_metrics \<Rightarrow> usize \<Rightarrow> string + string \<Rightarrow> poll_event list" where
  "redis_events m n x =
     Wr [(plain (r_pool_connections m), IntV (ucast n))] # Aw #
     after (answer_of x) (\<lambda>raw. singles (poll_assigns m (parse_info raw)))"

lemma redis_follows:
  assumes P: "prom_ok P V" and D: "fred_quiet D V" and st: "redis_steady D m n x"
    and own: "\<exists>M. owned M (redis_handles m) (redis_descs ns)"
  shows "follows V (redis_handles m) (redis_descs ns) (and_ok (answer_of x) (\<lambda>_. Ok ())) (redis_poll P D m)
    (redis_events m n x)"
proof -
  have q: "\<exists>t. redis_query D m u = (answer_of x, t) \<and> same V u t" for u
  proof -
    obtain y t where yt: "pool_info D (r_pool m) u = (y, t)" by (cases "pool_info D (r_pool m) u")
    then have "y = x" "same V u t" using st D unfolding redis_steady_def fred_quiet_def by (metis fst_conv snd_conv)+
    with yt show ?thesis by (cases x) (auto simp: redis_query_def database_error_def)
  qed
  have body: "follows V (redis_handles m) (redis_descs ns) (Ok ())
      (sync_each (redis_statements P m (parse_info raw)) (Done (Ok ()))) (singles (poll_assigns m (parse_info raw)))" for raw
    using follows_stmts [OF redis_stmts [OF P] follows_done own] by simp
  have "(\<lambda>s. set_int P (r_pool_connections m) (ucast (pool_size D (r_pool m) s)) s) =
      (set_int P (r_pool_connections m) (ucast n) :: ('a, metrics_error, unit) action)"
    using st by (simp add: redis_steady_def)
  then show ?thesis
    unfolding redis_poll_def redis_events_def
    by (simp only:) (rule follows_sync_act, erule writes_set_int [OF P redis_cores(1)],
      rule follows_answer, rule q, rule answer_not_Panic, rule body)
qed

definition mongo_steady :: "('s, 'd) mongo_driver \<Rightarrow> mongo_metrics \<Rightarrow> string + 'd \<Rightarrow> bool" where
  "mongo_steady D m x \<longleftrightarrow> (\<forall>u. server_status D m u = x)"

definition mongo_events :: "('s, 'd) mongo_driver \<Rightarrow> mongo_metrics \<Rightarrow> string + 'd \<Rightarrow> poll_event list" where
  "mongo_events D m x = Aw # after (answer_of x) (\<lambda>doc. singles (mongo_assigns D m doc))"

lemma mongo_follows:
  assumes P: "prom_ok P V" and D: "mongo_env D checks m V" and st: "mongo_steady D m x"
    and own: "\<exists>M. owned M (mongo_handles m) (mongo_descs ns)"
  shows "follows V (mongo_handles m) (mongo_descs ns) (and_ok (answer_of x) (\<lambda>_. Ok ())) (mongo_poll P D checks m)
    (mongo_events D m x)"
proof -
  have Q: "mongo_quiet D V" using D by (simp add: mongo_env_def)
  have q: "\<exists>t. mongo_query D m u = (answer_of x, t) \<and> same V u t" for u
    using Q st by (cases rule: mongo_query_cases [of D V m u]) (auto simp: mongo_steady_def)
  have body: "follows V (mongo_handles m) (mongo_descs ns) (Ok ())
      (sync_each (mongo_statements P D checks m doc) (Done (Ok ()))) (singles (mongo_assigns D m doc))"
    if "answer_of x = Ok doc" for doc
  proof -
    have "\<not> checks \<or> mem_fits D doc"
      using D st that by (cases x) (auto simp: mongo_env_def mongo_steady_def)
    from follows_stmts [OF mongo_stmts [OF P _ this] follows_done own] show ?thesis by simp
  qed
  show ?thesis
    unfolding mongo_poll_def mongo_events_def by (rule follows_answer [OF q answer_not_Panic body])
qed

definition postgres_steady ::
  "('s, 'v) pool_ops \<Rightarrow> postgres_metrics \<Rightarrow> pool_status \<Rightarrow> (string \<Rightarrow> (metrics_error, 'v row list) outcome) \<Rightarrow> bool" where
  "postgres_steady A m st ans \<longleftrightarrow>
     (\<forall>u sql. pool_status_of A (p_pool m) u = st \<and> fst (query_json A (p_pool m) sql u) = ans sql)"

definition postgres_events ::
  "'v serde \<Rightarrow> postgres_metrics \<Rightarrow> pool_status \<Rightarrow> (string \<Rightarrow> (metrics_error, 'v row list) outcome) \<Rightarrow> poll_event list" where
  "postgres_events S m st ans =
     Wr [] # singles (status_writes m st) @ Aw # after (ans SQL_DB_STATS) (\<lambda>dbs.
     singles (rows_assigns S (db_label_of S) (db_columns m) dbs) @ Aw # after (ans SQL_TABLE_STATS) (\<lambda>tables.
     singles (rows_assigns S (table_label_of S) (table_columns m) tables) @ Aw # after (ans SQL_LOCKS) (\<lambda>locks.
     singles (rows_assigns S (lock_label_of S) (lock_columns m) locks))))"

context pool_adapter
begin

lemma postgres_follows:
  assumes P: "prom_ok P V" and E: "env_ok V" and st: "postgres_steady A m st ans"
    and own: "\<exists>M. owned M (postgres_handles m) (postgres_descs ns)"
  shows "follows V (postgres_handles m) (postgres_descs ns)
    (and_ok (ans SQL_DB_STATS) (\<lambda>_. and_ok (ans SQL_TABLE_STATS) (\<lambda>_. and_ok (ans SQL_LOCKS) (\<lambda>_. Ok ()))))
    (postgres_poll P S A m) (postgres_events S m st ans)"
proof -
  have q: "\<exists>t. query_json A (p_pool m) sql u = (ans sql, t) \<and> same V u t" and np: "ans sql \<noteq> Panic" for sql u
  proof -
    obtain r t where rt: "query_json A (p_pool m) sql u = (r, t)" by (cases "query_json A (p_pool m) sql u")
    with st have "r = ans sql" unfolding postgres_steady_def by (metis fst_conv)
    with rt query_frame [OF E rt] show "\<exists>t. query_json A (p_pool m) sql u = (ans sql, t) \<and> same V u t" "ans sql \<noteq> Panic"
      by auto
  qed
  note rows = follows_stmts [OF rows_stmts(1) [OF P] _ own] follows_stmts [OF rows_stmts(2) [OF P] _ own]
    follows_stmts [OF rows_stmts(3) [OF P] follows_done own, unfolded append_Nil2]
  note ans = follows_answer [OF q np]
  have "follows V (postgres_handles m) (postgres_descs ns)
    (and_ok (ans SQL_DB_STATS) (\<lambda>_. and_ok (ans SQL_TABLE_STATS) (\<lambda>_. and_ok (ans SQL_LOCKS) (\<lambda>_. Ok ()))))
    (sync_each (status_statements P m st)
     (await (query_json A (p_pool m) SQL_DB_STATS) (\<lambda>db_rows.
     sync_each (concat (map (db_statements P S m) db_rows))
     (await (query_json A (p_pool m) SQL_TABLE_STATS) (\<lambda>table_rows.
     sync_each (concat (map (table_statements P S m) table_rows))
     (await (query_json A (p_pool m) SQL_LOCKS) (\<lambda>lock_rows.
     sync_each (concat (map (lock_statements P S m) lock_rows)) (Done (Ok ())))))))))
    (tl (postgres_events S m st ans))"
    unfolding postgres_events_def list.sel
    by (intro follows_stmts [OF status_stmts [OF P] _ own] ans rows) simp_all
  then show ?thesis
    using st unfolding postgres_poll_def postgres_events_def sync_def
    by (intro follows_sync) (auto simp: and_then_def postgres_steady_def)
qed

end

subsection \<open>Polls among tasks that leave their gauges alone\<close>

definition leaves_alone :: "'s prom_view \<Rightarrow> ('s \<Rightarrow> 's \<Rightarrow> bool) \<Rightarrow> handle list \<Rightarrow> handle list \<Rightarrow> bool" where
  "leaves_alone V E own mine \<longleftrightarrow> (\<forall>a b. E a b \<longrightarrow> untouched V own mine a b)"

lemma follows_completes:
  "follows V own descs r c evs \<Longrightarrow> owned (meta V s) own descs \<Longrightarrow> \<exists>t. coro_steps E (c, s) (Done r, t)"
proof (induction arbitrary: s rule: follows.induct)
  case (follows_sync f c ws evs)
  obtain t where t: "f s = (c, t)" "meta V t = meta V s" using follows_sync.hyps(1) [OF follows_sync.prems] by blast
  then obtain u where "coro_steps E (c, t) (Done r, u)" using follows_sync.IH [of t] follows_sync.prems by auto
  moreover have "coro_step E (Sync f, s) (c, t)" by (rule coro_step.Sync) (rule t(1))
  ultimately show ?case by (blast intro: converse_rtranclp_into_rtranclp)
next
  case (follows_await f c evs)
  obtain t where t: "f s = (c, t)" "same V s t" using follows_await.hyps(1) by blast
  then obtain u where "coro_steps E (c, t) (Done r, u)"
    using follows_await.IH [of t] follows_await.prems by (auto simp: same_def)
  moreover have "coro_step E (Await f, s) (c, t)" by (rule coro_step.Await) (rule t(1))
  ultimately show ?case by (blast intro: converse_rtranclp_into_rtranclp)
qed blast

text \<open>
  Wherever the poll is, it can go on to its end; and when it is there, its result and its gauges
  are those of a poll that has run alone.
\<close>

definition undisturbed ::
  "'s prom_view \<Rightarrow> ('s \<Rightarrow> 's \<Rightarrow> bool) \<Rightarrow> handle list \<Rightarrow> ('s, 'e, 'a) coro \<Rightarrow> ('s, 'e, 'a) action \<Rightarrow> 's \<Rightarrow> bool" where
  "undisturbed V E mine poll collect s \<longleftrightarrow>
     (\<forall>c t. coro_steps E (poll, s) (c, t) \<longrightarrow>
        (\<exists>q u. coro_steps E (c, t) (Done q, u)) \<and>
        (\<forall>q. c = Done q \<longrightarrow> (\<exists>u. collect s = (q, u) \<and> agree mine (val V t) (val V u))))"

context poller
begin

lemma poll_undisturbed:
  assumes f: "follows V own descs r (poll P) evs" and own: "owned (meta V s) own descs"
    and E: "leaves_alone V E own mine"
  shows "undisturbed V E mine (poll P) (collect P) s"
  unfolding undisturbed_def
proof (intro allI impI conjI)
  fix c t assume st: "coro_steps E (poll P, s) (c, t)"
  have u: "\<And>a b. E a b \<Longrightarrow> untouched V own mine a b" using E by (simp add: leaves_alone_def)
  obtain rest where "follows V own descs r c rest" "owned (meta V t) own descs"
    using follows_steps [OF st u, of descs r evs] f own by auto
  from follows_completes [OF this] show "\<exists>q u. coro_steps E (c, t) (Done q, u)" by blast
  fix q assume "c = Done q"
  with poll_interleaved [OF f own u] st show "\<exists>u. collect P s = (q, u) \<and> agree mine (val V t) (val V u)" by simp
qed

end

context pool_adapter
begin

lemma postgres_undisturbed:
  assumes "prom_ok P V" and "env_ok V" and "postgres_steady A m st ans"
    and own: "owned (meta V s) (postgres_handles m) (postgres_descs ns)"
    and "leaves_alone V E (postgres_handles m) (postgres_gauges m)"
  shows "undisturbed V E (postgres_gauges m) (postgres_poll P S A m) (postgres_collect P S A m) s"
proof -
  have "\<exists>M. owned M (postgres_handles m) (postgres_descs ns)" using own by blast
  from poll.poll_undisturbed [OF postgres_follows [OF assms(1-3) this] own assms(5)] show ?thesis .
qed

end

text \<open>What a dropped poll has written: the assignments before one of its awaits.\<close>

lemma aborted_at:
  assumes "coro_steps E (c, s) (Await f, t)" and "leaves_alone V E own mine"
    and "follows V own descs r c evs" and "owned (meta V s) own descs"
  obtains pre rest where "evs = pre @ Aw # rest" "agree mine (val V t) (apply_writes (written pre) (val V s))"
  using follows_aborted [OF assms(1) _ assms(3,4), of mine] assms(2) by (auto simp: leaves_alone_def)

lemma redis_events_await:
  "redis_events m n x = pre @ Aw # rest \<Longrightarrow> written pre = [(plain (r_pool_connections m), IntV (ucast n))]"
  by (cases x; cases pre) (auto simp: redis_events_def Cons_eq_append_conv)

lemma mongo_events_await: "mongo_events D m x = pre @ Aw # rest \<Longrightarrow> written pre = []"
  by (cases x; cases pre) (auto simp: mongo_events_def)

lemma postgres_events_await:
  assumes "postgres_events S m st ans = pre @ Aw # rest"
  shows "\<exists>dbs tables. written pre = status_writes m st @ rows_assigns S (db_label_of S) (db_columns m) dbs @
       rows_assigns S (table_label_of S) (table_columns m) tables \<and>
     (dbs = [] \<or> ans SQL_DB_STATS = Ok dbs) \<and>
     (tables = [] \<or> ans SQL_DB_STATS = Ok dbs \<and> ans SQL_TABLE_STATS = Ok tables)"
proof -
  let ?d = "rows_assigns S (db_label_of S) (db_columns m)"
    and ?t = "rows_assigns S (table_label_of S) (table_columns m)"
  obtain pre' where pre: "pre = Wr [] # singles (status_writes m st) @ pre'"
    and e: "pre' @ Aw # rest = Aw # after (ans SQL_DB_STATS) (\<lambda>dbs. singles (?d dbs) @ Aw #
      after (ans SQL_TABLE_STATS) (\<lambda>tables. singles (?t tables) @ Aw # after (ans SQL_LOCKS) (\<lambda>locks.
      singles (rows_assigns S (lock_label_of S) (lock_columns m) locks))))"
    using assms by (cases pre) (auto simp: postgres_events_def)
  consider (status) "written pre' = []"
    | (dbs) dbs where "ans SQL_DB_STATS = Ok dbs" "written pre' = ?d dbs"
    | (tables) dbs tables where "ans SQL_DB_STATS = Ok dbs" "ans SQL_TABLE_STATS = Ok tables"
        "written pre' = ?d dbs @ ?t tables"
    using e [symmetric]
    by (cases "ans SQL_DB_STATS"; cases "ans SQL_TABLE_STATS"; cases "ans SQL_LOCKS"; cases pre')
      (auto simp: Cons_eq_append_conv)
  then show ?thesis
  proof cases
    case status
    then show ?thesis using pre by (intro exI [of _ "[]"]) simp
  next
    case (dbs dbs)
    then show ?thesis using pre by (intro exI [of _ dbs] exI [of _ "[]"]) simp
  next
    case (tables dbs tables)
    then show ?thesis using pre by (intro exI [of _ dbs] exI [of _ tables]) simp
  qed
qed

lemma runs_ends:
  assumes "runs c a"
  shows "\<exists>n. \<forall>k. run_coro (n + k) c s = Some (a s)"
proof -
  obtain n where n: "run_coro n c s = Some (a s)" using assms unfolding runs_def by blast
  show ?thesis by (intro exI [of _ n] allI run_coro_more [OF n]) simp
qed

lemma published_writes:
  "postgres_steady A m st ans \<Longrightarrow> published S A m s dbs tables [] =
     status_writes m st @ rows_assigns S (db_label_of S) (db_columns m) dbs @
     rows_assigns S (table_label_of S) (table_columns m) tables"
  by (simp add: published_def status_assigns_def status_writes_def postgres_steady_def Let_def)

subsection \<open>Properties\<close>

text \<open>
  C12: a poll that is aborted while it waits for its driver leaves its gauges in one of these
  states: with Redis the pool gauge is published and no other; with MongoDB nothing is; with
  PostgreSQL the pool gauges are, and either nothing more, or the database gauges, or the database
  and the table gauges, of complete result sets.
\<close>

theorem polls_aborted:
  assumes P: "prom_ok P V"
  shows "(owned (meta V s) (redis_handles rm) (redis_descs ns) \<and> fred_quiet DR V \<and> redis_steady DR rm n x \<and>
      leaves_alone V E (redis_handles rm) (redis_gauges rm) \<and> coro_steps E (redis_poll P DR rm, s) (Await f, t) \<longrightarrow>
      agree (redis_gauges rm) (val V t) ((val V s)(plain (r_pool_connections rm) := IntV (ucast n)))) \<and>
    (owned (meta V s) (mongo_handles mm) (mongo_descs ns) \<and> mongo_env DM checks mm V \<and> mongo_steady DM mm y \<and>
      leaves_alone V E (mongo_handles mm) (mongo_gauges mm) \<and> coro_steps E (mongo_poll P DM checks mm, s) (Await f, t) \<longrightarrow>
      agree (mongo_gauges mm) (val V t) (val V s)) \<and>
    (owned (meta V s) (postgres_handles pm) (postgres_descs ns) \<and> pool_adapter A Ok' \<and> Ok' V \<and>
      postgres_steady A pm st ans \<and> leaves_alone V E (postgres_handles pm) (postgres_gauges pm) \<and>
      coro_steps E (postgres_poll P S A pm, s) (Await f, t) \<longrightarrow>
      (\<exists>dbs tables. agree (postgres_gauges pm) (val V t) (apply_writes (published S A pm s dbs tables []) (val V s)) \<and>
         (dbs = [] \<or> ans SQL_DB_STATS = Ok dbs) \<and>
         (tables = [] \<or> ans SQL_DB_STATS = Ok dbs \<and> ans SQL_TABLE_STATS = Ok tables)))"
proof (intro conjI impI; elim conjE)
  assume a: "owned (meta V s) (redis_handles rm) (redis_descs ns)" "fred_quiet DR V" "redis_steady DR rm n x"
    "leaves_alone V E (redis_handles rm) (redis_gauges rm)" "coro_steps E (redis_poll P DR rm, s) (Await f, t)"
  have own: "\<exists>M. owned M (redis_handles rm) (redis_descs ns)" using a(1) by blast
  show "agree (redis_gauges rm) (val V t) ((val V s)(plain (r_pool_connections rm) := IntV (ucast n)))"
  proof (rule aborted_at [OF a(5,4) redis_follows [OF P a(2,3) own] a(1)])
    fix pre rest
    assume "redis_events rm n x = pre @ Aw # rest" and g: "agree (redis_gauges rm) (val V t) (apply_writes (written pre) (val V s))"
    from redis_events_await [OF this(1)] g show ?thesis by simp
  qed
next
  assume a: "owned (meta V s) (mongo_handles mm) (mongo_descs ns)" "mongo_env DM checks mm V" "mongo_steady DM mm y"
    "leaves_alone V E (mongo_handles mm) (mongo_gauges mm)" "coro_steps E (mongo_poll P DM checks mm, s) (Await f, t)"
  have own: "\<exists>M. owned M (mongo_handles mm) (mongo_descs ns)" using a(1) by blast
  show "agree (mongo_gauges mm) (val V t) (val V s)"
  proof (rule aborted_at [OF a(5,4) mongo_follows [OF P a(2,3) own] a(1)])
    fix pre rest
    assume "mongo_events DM mm y = pre @ Aw # rest" and g: "agree (mongo_gauges mm) (val V t) (apply_writes (written pre) (val V s))"
    from mongo_events_await [OF this(1)] g show ?thesis by simp
  qed
next
  assume a: "owned (meta V s) (postgres_handles pm) (postgres_descs ns)" "pool_adapter A Ok'" "Ok' V"
    "postgres_steady A pm st ans" "leaves_alone V E (postgres_handles pm) (postgres_gauges pm)"
    "coro_steps E (postgres_poll P S A pm, s) (Await f, t)"
  have own: "\<exists>M. owned M (postgres_handles pm) (postgres_descs ns)" using a(1) by blast
  show "\<exists>dbs tables. agree (postgres_gauges pm) (val V t) (apply_writes (published S A pm s dbs tables []) (val V s)) \<and>
      (dbs = [] \<or> ans SQL_DB_STATS = Ok dbs) \<and> (tables = [] \<or> ans SQL_DB_STATS = Ok dbs \<and> ans SQL_TABLE_STATS = Ok tables)"
  proof (rule aborted_at [OF a(6,5) pool_adapter.postgres_follows [OF a(2) P a(3,4) own] a(1)])
    fix pre rest
    assume e: "postgres_events S pm st ans = pre @ Aw # rest"
      and g: "agree (postgres_gauges pm) (val V t) (apply_writes (written pre) (val V s))"
    obtain dbs tables where w: "written pre = published S A pm s dbs tables []"
      "dbs = [] \<or> ans SQL_DB_STATS = Ok dbs"
      "tables = [] \<or> ans SQL_DB_STATS = Ok dbs \<and> ans SQL_TABLE_STATS = Ok tables"
      using postgres_events_await [OF e] unfolding published_writes [OF a(4)] by blast
    show ?thesis by (intro exI conjI) (rule g [unfolded w(1)], rule w(2), rule w(3))
  qed
qed

theorem polls_aborted_witness:
  "\<exists>f t. coro_steps (\<lambda>_ _. False) (redis_poll ref_prom (demo_fred (Inr ''up'')) demo_redis, demo_redis_world) (Await f, t) \<and>
     val ref_view t (plain (r_pool_connections demo_redis)) = IntV 5 \<and>
     val ref_view t (plain (r_used_memory_bytes demo_redis)) = val ref_view demo_redis_world (plain (r_used_memory_bytes demo_redis))"
proof -
  let ?D = "demo_fred (Inr ''up'') :: ref_world fred" and ?E = "\<lambda>_ _ :: ref_world. False"
  have st: "redis_steady ?D demo_redis 5 (Inr ''up'')" by (simp add: redis_steady_def demo_fred_def)
  have alone: "leaves_alone ref_view ?E (redis_handles demo_redis) (redis_gauges demo_redis)"
    by (simp add: leaves_alone_def)
  have "\<exists>f t. coro_step ?E (redis_poll ref_prom ?D demo_redis, demo_redis_world) (Await f, t)"
    unfolding redis_poll_def sync_def await_def
    by (intro exI, rule coro_step.Sync)
      (simp add: and_then_def set_int_def step_act_def)
  then obtain f t where t: "coro_steps ?E (redis_poll ref_prom ?D demo_redis, demo_redis_world) (Await f, t)" by blast
  from polls_aborted [OF ref_prom_ok, THEN conjunct1, rule_format, OF conjI, OF demo_redis_owned] demo_fred_quiet st alone t
  have "agree (redis_gauges demo_redis) (val ref_view t)
      ((val ref_view demo_redis_world)(plain (r_pool_connections demo_redis) := IntV (ucast (5 :: usize))))" by blast
  moreover have "r_pool_connections demo_redis \<in> set (redis_gauges demo_redis)"
    "r_used_memory_bytes demo_redis \<in> set (redis_gauges demo_redis)"
    "r_pool_connections demo_redis \<noteq> r_used_memory_bytes demo_redis"
    by (simp_all add: gauges_eval) (simp add: demo_redis_def redis_of_def)
  ultimately show ?thesis
    using t by (intro exI [of _ f] exI [of _ t]) (simp add: agree_def plain_def del: ref_view_sel)
qed

end
