(* ===== verification/Routes.thy ===== *)
theory Routes
  imports Startup Polls
begin

text \<open>
  The application while it serves: the parts of its state and what a request to \<open>/api\<close> does to
  them.  \<open>app_parts\<close> are the metrics of the configured backends; \<open>touches\<close> says that a step
  writes well typed values to some of them and nothing else.  \<open>run_api_touches\<close>: a route handler
  never panics and writes the histograms of its backend only.  The property follows a request
  through the layer, its handler and back.
\<close>

subsection \<open>The parts of the application\<close>

definition app_parts :: "app_state \<Rightarrow> string \<Rightarrow> (handle list \<times> metric_desc list) list" where
  "app_parts st ns =
     opt_part (st_pg_metrics st) (\<lambda>m. [(postgres_handles m, postgres_descs ns)]) @
     opt_part (st_redis_metrics st) (\<lambda>m. [(redis_handles m, redis_descs ns)]) @
     opt_part (st_mongo_metrics st) (\<lambda>m. [(mongo_handles m, mongo_descs ns)])"

definition app_owned :: "(handle \<rightharpoonup> metric_desc) \<Rightarrow> app_state \<Rightarrow> string \<Rightarrow> bool" where
  "app_owned M st ns \<longleftrightarrow> (\<forall>(hs, ds)\<in>set (app_parts st ns). owned M hs ds)"

definition app_typed :: "'s prom_view \<Rightarrow> 's \<Rightarrow> app_state \<Rightarrow> string \<Rightarrow> bool" where
  "app_typed V s st ns \<longleftrightarrow> (\<forall>(hs, ds)\<in>set (app_parts st ns). well_typed V s hs)"

lemma app_ownedD:
  assumes "app_owned M st ns"
  shows "st_pg_metrics st = Some pm \<Longrightarrow> owned M (postgres_handles pm) (postgres_descs ns)"
    "st_redis_metrics st = Some rm \<Longrightarrow> owned M (redis_handles rm) (redis_descs ns)"
    "st_mongo_metrics st = Some mm \<Longrightarrow> owned M (mongo_handles mm) (mongo_descs ns)"
  using assms by (auto simp: app_owned_def app_parts_def)

lemma app_typedD:
  assumes "app_typed V s st ns"
  shows "st_pg_metrics st = Some pm \<Longrightarrow> well_typed V s (postgres_handles pm)"
    "st_redis_metrics st = Some rm \<Longrightarrow> well_typed V s (redis_handles rm)"
    "st_mongo_metrics st = Some mm \<Longrightarrow> well_typed V s (mongo_handles mm)"
  using assms by (auto simp: app_typed_def app_parts_def)

text \<open>The histograms that the route handlers write.\<close>

definition app_hists :: "app_state \<Rightarrow> handle list" where
  "app_hists st =
     opt_part (st_pg_metrics st) (\<lambda>m. [p_query_duration_seconds m, p_rows_returned m]) @
     opt_part (st_redis_metrics st) (\<lambda>m. [r_command_duration_seconds m])"

subsection \<open>Steps that write well typed values\<close>

definition touches :: "'s prom_view \<Rightarrow> handle list \<Rightarrow> 's \<Rightarrow> 's \<Rightarrow> bool" where
  "touches V mine s t \<longleftrightarrow>
     meta V t = meta V s \<and> (\<forall>sr. fst sr \<notin> set mine \<longrightarrow> val V t sr = val V s sr) \<and>
     (\<forall>hs. well_typed V s hs \<longrightarrow> well_typed V t hs)"

lemma touches_same: "same V s t \<Longrightarrow> touches V mine s t"
  by (auto simp: touches_def same_def well_typed_def)

lemma touches_trans: "touches V mine s t \<Longrightarrow> touches V mine t u \<Longrightarrow> touches V mine s u"
  by (simp add: touches_def)

lemma touches_mono: "touches V mine s t \<Longrightarrow> set mine \<subseteq> set mine' \<Longrightarrow> touches V mine' s t"
  by (auto simp: touches_def)

lemma touches_writes:
  assumes "typed_writes (meta V s) mine ws" "meta V t = meta V s" "val V t = apply_writes ws (val V s)"
  shows "touches V mine s t"
proof -
  have "val V t sr = val V s sr" if "fst sr \<notin> set mine" for sr
    unfolding assms(3) using assms(1) that by (intro apply_writes_other) (force simp: typed_writes_def)
  with assms show ?thesis by (auto simp: touches_def intro: well_typed_writes)
qed

lemma well_typed_hist:
  assumes "well_typed V s hs" "core_is (meta V s) h HistogramVec (length ls)" "h \<in> set hs"
  shows "\<exists>xs. val V s (h, ls) = HistV xs"
  using assms by (force simp: well_typed_def core_is_def)

lemma observe_touches:
  assumes P: "prom_ok P V" and c: "core_is (meta V s) h HistogramVec (length ls)"
    and w: "well_typed V s hs" "h \<in> set hs"
  shows "\<exists>t. observe_labelled P h ls x s = (Ok () :: ('e, unit) outcome, t) \<and> touches V [h] s t"
proof -
  obtain xs where xs: "val V s (h, ls) = HistV xs" using well_typed_hist [OF w(1) c w(2)] by blast
  obtain t where t: "observe_labelled P h ls x s = (Ok () :: ('e, unit) outcome, t)"
    "assigns V s t (h, ls) (HistV (xs @ [x]))"
    using observe_labelled_Ok [OF P c xs] by blast
  have "touches V [h] s t"
    using t(2) c by (intro touches_writes [of _ _ _ "[((h, ls), HistV (xs @ [x]))]"])
      (auto simp: assigns_def typed_writes_def core_is_def)
  with t(1) show ?thesis by blast
qed

subsection \<open>Route handlers\<close>

text \<open>The clock, \<open>sleep\<close> and the two Redis commands leave the metrics alone.\<close>

definition keys_quiet :: "'s fred_keys \<Rightarrow> 's prom_view \<Rightarrow> bool" where
  "keys_quiet K V \<longleftrightarrow>
     (\<forall>p k s. same V s (snd (fk_incr K p k s))) \<and> (\<forall>p k s. same V s (snd (fk_decr K p k s)))"

definition sleep_quiet :: "(nat \<Rightarrow> 's \<Rightarrow> 's) \<Rightarrow> 's prom_view \<Rightarrow> bool" where
  "sleep_quiet sleep V \<longleftrightarrow> (\<forall>d s. same V s (sleep d s))"

lemma observe_query_touches:
  assumes P: "prom_ok P V" and own: "owned (meta V s) (postgres_handles m) (postgres_descs ns)"
    and w: "well_typed V s (postgres_handles m)"
  shows "\<exists>t. observe_query P m q x y s = (Ok () :: ('e, unit) outcome, t) \<and>
     touches V [p_query_duration_seconds m, p_rows_returned m] s t"
proof -
  note c = postgres_cores(15,16) [OF own]
  have mem: "p_query_duration_seconds m \<in> set (postgres_handles m)" "p_rows_returned m \<in> set (postgres_handles m)"
    by (simp_all add: postgres_handles_def)
  obtain u where u: "observe_labelled P (p_query_duration_seconds m) [q] x s = (Ok () :: ('e, unit) outcome, u)"
    "touches V [p_query_duration_seconds m] s u"
    using observe_touches [OF P _ w mem(1), of "[q]"] c(1) by auto
  have "core_is (meta V u) (p_rows_returned m) HistogramVec (length [q])" "well_typed V u (postgres_handles m)"
    using u(2) c(2) w by (auto simp: touches_def)
  from observe_touches [OF P this mem(2)] obtain t where
    "observe_labelled P (p_rows_returned m) [q] y u = (Ok () :: ('e, unit) outcome, t)" "touches V [p_rows_returned m] u t"
    by blast
  moreover have "touches V [p_query_duration_seconds m, p_rows_returned m] s t"
    using touches_mono [OF u(2)] touches_mono [OF \<open>touches V [p_rows_returned m] u t\<close>]
    by (intro touches_trans [of _ _ s u t]) auto
  ultimately show ?thesis using u(1) by (auto simp: observe_query_def bind_act_of_Ok ret_def)
qed

text \<open>The status of a rejection by the extractor \<open>Path\<close>, when there is one.\<close>

definition rejected :: "(nat \<times> json_lit) + string \<Rightarrow> nat set" where
  "rejected path_key = (case path_key of Inl rejection \<Rightarrow> {fst rejection} | Inr _ \<Rightarrow> {})"

lemma run_api_touches:
  assumes P: "prom_ok P V" and K: "keys_quiet K V" and Z: "sleep_quiet sleep V"
    and own: "app_owned (meta V s) st ns" and typed: "app_typed V s st ns"
  shows "\<exists>reply t. run_api P K now sleep st h path_key s = (Ok reply :: ('e, nat \<times> json_lit) outcome, t) \<and>
     touches V (app_hists st) s t \<and> fst reply \<in> {200, 500, 503} \<union> rejected path_key"
proof -
  have counter: "\<exists>reply t. counter_op P K now st key op s = (Ok reply :: ('e, nat \<times> json_lit) outcome, t) \<and>
     touches V (app_hists st) s t \<and> fst reply \<in> {200, 500, 503}" for key op
  proof (cases "st_redis_pool st")
    case None
    then show ?thesis by (auto simp: counter_op_def intro: touches_same)
  next
    case (Some pool)
    obtain result u where u: "(if op = ''incr'' then fk_incr K pool key s else fk_decr K pool key s) = (result, u)"
      by (metis surj_pair)
    then have su: "same V s u" using K by (auto simp: keys_quiet_def split: if_splits) (metis snd_conv)+
    let ?x = "as_secs_f64 (now u - now s)"
    have "\<exists>t. (case st_redis_metrics st of Some m \<Rightarrow> observe_command P m op ?x | None \<Rightarrow> ret ()) u =
        (Ok () :: ('e, unit) outcome, t) \<and> touches V (app_hists st) u t"
    proof (cases "st_redis_metrics st")
      case None
      then show ?thesis by (auto simp: ret_def intro: touches_same)
    next
      case (Some m)
      have "core_is (meta V u) (r_command_duration_seconds m) HistogramVec (length [op])"
        using redis_cores(15) [OF app_ownedD(2) [OF own Some]] su by (simp add: same_def)
      moreover have "well_typed V u (redis_handles m)" "r_command_duration_seconds m \<in> set (redis_handles m)"
        using touches_same [OF su] app_typedD(2) [OF typed Some] by (auto simp: touches_def redis_handles_def)
      ultimately obtain t where "observe_labelled P (r_command_duration_seconds m) [op] ?x u =
          (Ok () :: ('e, unit) outcome, t)" "touches V [r_command_duration_seconds m] u t"
        using observe_touches [OF P] by blast
      then show ?thesis using Some by (auto simp: observe_command_def app_hists_def intro: touches_mono)
    qed
    then obtain t where "(case st_redis_metrics st of Some m \<Rightarrow> observe_command P m op ?x | None \<Rightarrow> ret ()) u =
        (Ok () :: ('e, unit) outcome, t)" "touches V (app_hists st) u t" by blast
    with u su Some show ?thesis
      by (auto simp: counter_op_def bind_act_of_Ok ret_def counter_reply_def intro: touches_trans touches_same
          split: sum.splits)
  qed
  show ?thesis
  proof (cases h)
    case ListUsers
    let ?u = "sleep (5 * 10 ^ 6) s"
    have su: "same V s ?u" using Z by (simp add: sleep_quiet_def)
    have "\<exists>t. (case st_pg_metrics st of Some m \<Rightarrow> observe_query P m ''list_users'' (as_secs_f64 (now ?u - now s)) (f64_lit 2 1)
        | None \<Rightarrow> ret ()) ?u = (Ok () :: ('e, unit) outcome, t) \<and> touches V (app_hists st) ?u t"
    proof (cases "st_pg_metrics st")
      case None
      then show ?thesis by (auto simp: ret_def intro: touches_same)
    next
      case (Some m)
      have "owned (meta V ?u) (postgres_handles m) (postgres_descs ns)" "well_typed V ?u (postgres_handles m)"
        using app_ownedD(1) [OF own Some] app_typedD(1) [OF typed Some] touches_same [OF su] su
        by (auto simp: same_def touches_def)
      from observe_query_touches [OF P this] obtain t where
        "observe_query P m ''list_users'' (as_secs_f64 (now ?u - now s)) (f64_lit 2 1) ?u = (Ok () :: ('e, unit) outcome, t)"
        "touches V [p_query_duration_seconds m, p_rows_returned m] ?u t" by blast
      moreover from this(2) have "touches V (app_hists st) ?u t"
        by (rule touches_mono) (simp add: app_hists_def Some)
      ultimately show ?thesis using Some by auto
    qed
    then obtain t where t: "(case st_pg_metrics st of Some m \<Rightarrow> observe_query P m ''list_users'' (as_secs_f64 (now ?u - now s)) (f64_lit 2 1)
        | None \<Rightarrow> ret ()) ?u = (Ok () :: ('e, unit) outcome, t)" "touches V (app_hists st) ?u t" by blast
    obtain body where "list_users P now sleep st s = (Ok body :: ('e, json_lit) outcome, t)"
      unfolding list_users_def Let_def bind_act_def t(1) prod.case outcome.case ret_def by blast
    moreover have "touches V (app_hists st) s t" by (rule touches_trans [OF touches_same [OF su] t(2)])
    ultimately show ?thesis by (simp add: ListUsers run_api_def bind_act_of_Ok ret_def)
  next
    case ListOrders
    have "same V s (sleep (10 * 10 ^ 6) s)" using Z by (simp add: sleep_quiet_def)
    then show ?thesis
      by (auto simp: ListOrders run_api_def list_orders_def Let_def bind_act_def ret_def intro: touches_same)
  next
    case CounterIncr
    with counter [of _ "''incr''"] show ?thesis
      by (cases path_key) (fastforce simp: run_api_def counter_incr_def ret_def rejected_def intro: touches_same)+
  next
    case CounterDecr
    with counter [of _ "''decr''"] show ?thesis
      by (cases path_key) (fastforce simp: run_api_def counter_decr_def ret_def rejected_def intro: touches_same)+
  qed
qed

subsection \<open>A request to the application\<close>

fun show_method :: "http_method \<Rightarrow> string" where
  "show_method GET = ''GET''"
| "show_method POST = ''POST''"

lemma app_hists_http:
  assumes http: "owned M (http_handles hm) (http_descs ns)" and own: "app_owned M st ns"
  shows "set (http_handles hm) \<inter> set (app_hists st) = {}"
proof -
  have "set (http_handles hm) \<inter> set (postgres_handles m) = {}" if "st_pg_metrics st = Some m" for m
    by (rule http_collector_disjoint [OF app_ownedD(1) [OF own that] http postgres_desc_names]) simp_all
  moreover have "set (http_handles hm) \<inter> set (redis_handles m) = {}" if "st_redis_metrics st = Some m" for m
    by (rule http_collector_disjoint [OF app_ownedD(2) [OF own that] http redis_desc_names]) simp_all
  ultimately show ?thesis
    by (cases "st_pg_metrics st"; cases "st_redis_metrics st")
      (auto simp: app_hists_def postgres_handles_def redis_handles_def)
qed

lemma touches_app:
  assumes "touches V mine s t"
  shows "app_owned (meta V t) st ns = app_owned (meta V s) st ns" "app_typed V s st ns \<Longrightarrow> app_typed V t st ns"
  using assms by (auto simp: touches_def app_typed_def)

lemma http_values:
  assumes http: "owned (meta V s) (http_handles hm) (http_descs ns)" and w: "well_typed V s (http_handles hm)"
  shows "\<exists>k. val V s (plain (h_requests_in_flight hm)) = IntV k"
    "length ls = 3 \<Longrightarrow> \<exists>n. val V s (h_requests_total hm, ls) = CountV n"
    "length ls = 3 \<Longrightarrow> \<exists>xs. val V s (h_request_duration_seconds hm, ls) = HistV xs"
    "length zl = 2 \<Longrightarrow> \<exists>zs. val V s (h_response_size_bytes hm, zl) = HistV zs"
proof -
  have "has_kind k (val V s (h, ls))" if "core_is (meta V s) h k n" "h \<in> set (http_handles hm)" "length ls = n" for h k n ls
    using w that by (auto simp: well_typed_def core_is_def)
  note k = this [OF http_cores(1) [OF http]] this [OF http_cores(2) [OF http]] this [OF http_cores(3) [OF http]]
    this [OF http_cores(4) [OF http]]
  show "\<exists>k. val V s (plain (h_requests_in_flight hm)) = IntV k"
    "length ls = 3 \<Longrightarrow> \<exists>n. val V s (h_requests_total hm, ls) = CountV n"
    "length ls = 3 \<Longrightarrow> \<exists>xs. val V s (h_request_duration_seconds hm, ls) = HistV xs"
    "length zl = 2 \<Longrightarrow> \<exists>zs. val V s (h_response_size_bytes hm, zl) = HistV zs"
    using k by (simp_all add: http_handles_def plain_def)
qed

lemma http_call_touches:
  assumes P: "prom_ok P V" and http: "owned (meta V s) (http_handles hm) (http_descs ns)"
    and f: "val V s (plain (h_requests_in_flight hm)) = IntV k" and call: "http_call P A now hm req s = (pd, t)"
  shows "touches V (http_handles hm) s t" "val V t = (val V s)(plain (h_requests_in_flight hm) := IntV (k + 1))"
proof -
  have a: "assigns V s t (plain (h_requests_in_flight hm)) (IntV (k + 1))"
    using in_flight_assigns(1) [OF P http f] call by (auto simp: http_call_def Let_def)
  then show "val V t = (val V s)(plain (h_requests_in_flight hm) := IntV (k + 1))" by (simp add: assigns_def)
  show "touches V (http_handles hm) s t"
    using a http_cores(3) [OF http]
    by (intro touches_writes [of _ _ _ "[(plain (h_requests_in_flight hm), IntV (k + 1))]"])
      (auto simp: assigns_def typed_writes_def core_is_def plain_def http_handles_def)
qed

lemma world_of_typed: "well_typed ref_view (world_of ms) hs"
  by (auto simp: well_typed_def world_of_def has_kind_initial)

definition demo_counter_state :: app_state where
  "demo_counter_state =
     \<lparr>st_prom = PromArc, st_pg_metrics = None, st_redis_pool = Some 0, st_redis_metrics = Some (redis_of 0 [5..<20]),
      st_mongo_metrics = None\<rparr>"

definition demo_incr :: demo_request where
  "demo_incr = \<lparr>dq_method = ''POST'', dq_template = Some ''/api/counter/{key}/incr'', dq_uri = ''/counter/hits/incr''\<rparr>"

definition demo_response :: "nat \<times> json_lit \<Rightarrow> demo_response" where
  "demo_response reply = \<lparr>dp_status_code = of_nat (fst reply), dp_length = None\<rparr>"

lemma demo_keys_quiet: "keys_quiet (demo_keys answer) V"
  by (simp add: keys_quiet_def demo_keys_def)

subsection \<open>Properties\<close>

text \<open>
  C13: a request to any route of \<open>/api\<close> goes through the layer, its handler and back: the handler
  answers 200, 500 or 503 without a panic, or the extractor of the path rejects the request with a
  status of its own; the gauge of requests in flight is where it was; the
  counter and the duration histogram of the method, the route's template and that status went
  up by one, those of all other labels stay.
\<close>

theorem api_request_recorded:
  assumes P: "prom_ok P V" and quiet: "keys_quiet K V" "sleep_quiet sleep V"
    and app: "app_owned (meta V s) st ns" "app_typed V s st ns"
    and http: "owned (meta V s) (http_handles hm) (http_descs ns)" "well_typed V s (http_handles hm)"
    and route: "(path, method, Api h, True) \<in> set app_routes"
    and matched: "req_matched_path A req = Some path" "req_method A req = show_method method"
    and resp: "\<And>c body. resp_status A (into_response (c, body)) = of_nat c"
    and call: "http_call P A now hm req s = (pd, s1)"
  shows "\<exists>reply s2 t n xs x. run_api P K now sleep st h path_key s1 = (Ok reply :: ('e, _) outcome, s2) \<and>
     fst reply \<in> {200, 500, 503} \<union> rejected path_key \<and>
     http_finish P A now hm pd (Inr (into_response reply) :: 'err + 'p) s2 =
       (Ok (Inr (into_response reply)) :: ('e, _) outcome, t) \<and>
     (let ls = [show_method method, path, show_u16 (of_nat (fst reply))] in
        val V t (plain (h_requests_in_flight hm)) = val V s (plain (h_requests_in_flight hm)) \<and>
        val V s (h_requests_total hm, ls) = CountV n \<and> val V t (h_requests_total hm, ls) = CountV (n + 1) \<and>
        val V s (h_request_duration_seconds hm, ls) = HistV xs \<and>
        val V t (h_request_duration_seconds hm, ls) = HistV (xs @ [x]) \<and>
        (\<forall>ls'. ls' \<noteq> ls \<longrightarrow> val V t (h_requests_total hm, ls') = val V s (h_requests_total hm, ls') \<and>
           val V t (h_request_duration_seconds hm, ls') = val V s (h_request_duration_seconds hm, ls')))"
proof -
  obtain k where f: "val V s (plain (h_requests_in_flight hm)) = IntV k" using http_values(1) [OF http] by blast
  note s1 = http_call_touches [OF P http(1) f call]
  have own1: "app_owned (meta V s1) st ns" "app_typed V s1 st ns" using touches_app [OF s1(1)] app by auto
  obtain reply s2 where r: "run_api P K now sleep st h path_key s1 = (Ok reply :: ('e, _) outcome, s2)"
    "touches V (app_hists st) s1 s2" "fst reply \<in> {200, 500, 503} \<union> rejected path_key"
    using run_api_touches [where 'e = 'e, OF P quiet own1] by blast
  have http2: "owned (meta V s2) (http_handles hm) (http_descs ns)"
    using http(1) s1(1) r(2) by (simp add: touches_def)
  note d = http_distinct [OF http2]
  have "h' \<in> set (http_handles hm) \<Longrightarrow> h' \<notin> set (app_hists st)" for h'
    using app_hists_http [OF http(1) app(1)] by blast
  then have v2: "val V s2 (h', ls) = val V s1 (h', ls)" if "h' \<in> set (http_handles hm)" for h' ls
    using r(2) that by (simp add: touches_def)
  let ?res = "Inr (into_response reply) :: 'err + 'p" and ?ls = "[show_method method, path, show_u16 (of_nat (fst reply))]"
  have pd: "pd_method pd = show_method method" "pd_path pd = path"
    using call matched by (auto simp: http_call_def request_path_def Let_def)
  have ls: "labels_of A pd ?res = ?ls"
    using resp [of "fst reply" "snd reply"] pd by (simp add: labels_of_def status_label_def)
  obtain n xs zs where n: "val V s (h_requests_total hm, ?ls) = CountV n"
    "val V s (h_request_duration_seconds hm, ?ls) = HistV xs"
    "val V s (h_response_size_bytes hm, [pd_method pd, pd_path pd]) = HistV zs"
    using http_values(2,3) [OF http, of ?ls] http_values(4) [OF http, of "[pd_method pd, pd_path pd]"] by auto
  have m: "h_requests_total hm \<in> set (http_handles hm)" "h_request_duration_seconds hm \<in> set (http_handles hm)"
    "h_requests_in_flight hm \<in> set (http_handles hm)" "h_response_size_bytes hm \<in> set (http_handles hm)"
    by (simp_all add: http_handles_def)
  have v: "val V s2 (plain (h_requests_in_flight hm)) = IntV (k + 1)"
    "val V s2 (h_requests_total hm, ls) = val V s (h_requests_total hm, ls)"
    "val V s2 (h_request_duration_seconds hm, ls) = val V s (h_request_duration_seconds hm, ls)"
    "val V s2 (h_response_size_bytes hm, ls) = val V s (h_response_size_bytes hm, ls)" for ls
    using d s1(2) by (auto simp: v2 [OF m(1)] v2 [OF m(2)] v2 [OF m(3)] v2 [OF m(4)] plain_def)
  from http_finish_Ok [where 'e = 'e and now = now and A = A and result = ?res and pd = pd and n = n and xs = xs and zs = zs,
      OF P http2 v(1), unfolded ls]
  obtain t where t: "http_finish P A now hm pd ?res s2 = (Ok ?res :: ('e, _) outcome, t)"
    "val V t = (val V s2)(plain (h_requests_in_flight hm) := IntV (k + 1 - 1),
       (h_requests_total hm, ?ls) := CountV (n + 1),
       (h_request_duration_seconds hm, ?ls) := HistV (xs @ [as_secs_f64 (now s2 - pd_start pd)]),
       (h_response_size_bytes hm, [pd_method pd, pd_path pd]) := observed (HistV zs) (size_of_result A ?res))"
    using n v by auto
  have "val V t (plain (h_requests_in_flight hm)) = IntV k" using d by (simp add: t(2) plain_def)
  moreover have "val V t (h_requests_total hm, ?ls) = CountV (n + 1)"
    and "val V t (h_request_duration_seconds hm, ?ls) = HistV (xs @ [as_secs_f64 (now s2 - pd_start pd)])"
    using d by (simp_all add: t(2) plain_def)
  moreover have "val V t (h_requests_total hm, ls') = val V s (h_requests_total hm, ls')"
    "val V t (h_request_duration_seconds hm, ls') = val V s (h_request_duration_seconds hm, ls')" if "ls' \<noteq> ?ls" for ls'
    using d that v(2,3) by (simp_all add: t(2) plain_def)
  ultimately show ?thesis
    unfolding Let_def f
    by (intro exI [of _ reply] exI [of _ s2] exI [of _ t] exI [of _ n] exI [of _ xs]
        exI [of _ "as_secs_f64 (now s2 - pd_start pd)"] conjI allI impI r(1,3) t(1) n(1,2)) assumption+
qed

theorem api_request_recorded_witness:
  "\<exists>pd s1 reply s2 t. http_call ref_prom demo_api (\<lambda>_. 0) demo_http demo_incr demo_both_world = (pd, s1) \<and>
     run_api ref_prom (demo_keys (Inr 8)) (\<lambda>_. 0) (\<lambda>_ s. s) demo_counter_state CounterIncr (Inr ''hits'') s1 =
       (Ok reply :: (metrics_error, _) outcome, s2) \<and>
     http_finish ref_prom demo_api (\<lambda>_. 0) demo_http pd (Inr (demo_response reply) :: string + demo_response) s2 =
       (Ok (Inr (demo_response reply)) :: (metrics_error, _) outcome, t) \<and>
     val ref_view t (plain (h_requests_in_flight demo_http)) = val ref_view demo_both_world (plain (h_requests_in_flight demo_http))"
proof -
  obtain pd s1 where call: "http_call ref_prom demo_api (\<lambda>_. 0) demo_http demo_incr demo_both_world = (pd, s1)"
    by (metis surj_pair)
  have app: "app_owned (meta ref_view demo_both_world) demo_counter_state ''myapp''"
    "app_typed ref_view demo_both_world demo_counter_state ''myapp''"
    using demo_both_owned(2)
    by (simp_all add: app_owned_def app_typed_def app_parts_def demo_counter_state_def demo_both_world_def world_of_typed)
  have http: "well_typed ref_view demo_both_world (http_handles demo_http)"
    by (simp add: demo_both_world_def world_of_typed)
  have route: "(''/api/counter/{key}/incr'', POST, Api CounterIncr, True) \<in> set app_routes"
    by (simp add: app_routes_def api_routes_def)
  have req: "req_matched_path demo_api demo_incr = Some ''/api/counter/{key}/incr''"
    "req_method demo_api demo_incr = show_method POST"
    by (simp_all add: demo_api_def demo_incr_def)
  have resp: "resp_status demo_api (demo_response (c, body)) = of_nat c" for c body
    by (simp add: demo_api_def demo_response_def)
  have sleep: "sleep_quiet (\<lambda>_ s. s) ref_view" by (simp add: sleep_quiet_def)
  show ?thesis
    using api_request_recorded [where 'e = metrics_error and 'err = string and path_key = "Inr ''hits''",
      OF ref_prom_ok demo_keys_quiet [of "Inr 8"] sleep app demo_both_owned(1) http route req resp call]
      call unfolding Let_def by blast
qed

end
