(* ===== verification/System.thy ===== *)
theory System
  imports Routes
begin

text \<open>
  The running application: requests in flight, the polling loops of the configured backends with
  a poll in progress, and everything else in the process, one step at a time.

  A step is an action of the HTTP layer, a route handler, the start of a poll, one of its
  statements or driver calls, its end (\<open>after_poll\<close>, as in the loop of \<open>Core\<close>), the end of a loop that was
  aborted, or anything that leaves the metrics of the application alone.  \<open>sys_inv\<close> is the invariant:
  the HTTP layer's own, all values well typed, no panic, and every poll in progress is \<open>safe\<close>.  For a backend's poll all other steps are an
  environment (\<open>sys_step_poll\<close>), so that what \<open>Polls\<close> shows holds in the system.
\<close>

subsection \<open>The system\<close>

text \<open>The crates and drivers that the running application calls.\<close>

record ('s, 'q, 'p, 'h, 'v, 'r, 'd) deps =
  x_prom :: "'s prometheus"
  x_api :: "('q, 'p, 'h) http_api"
  x_now :: "'s \<Rightarrow> nat"
  x_sleep :: "nat \<Rightarrow> 's \<Rightarrow> 's"
  x_keys :: "'s fred_keys"
  x_serde :: "'v serde"
  x_deadpool :: "('s, 'r) deadpool"
  x_fred :: "'s fred"
  x_mongo :: "('s, 'd) mongo_driver"
  x_checks :: bool

datatype backend = Pg | Rd | Mg

abbreviation pg_adapter :: "('s, 'q, 'p, 'h, 'v, 'r, 'd) deps \<Rightarrow> ('s, 'v) pool_ops" where
  "pg_adapter X \<equiv> deadpool_adapter (x_serde X) (x_deadpool X)"

fun poll_of :: "('s, 'q, 'p, 'h, 'v, 'r, 'd) deps \<Rightarrow> app_state \<Rightarrow> backend \<Rightarrow> ('s, metrics_error, unit) coro option" where
  "poll_of X st Pg = map_option (postgres_poll (x_prom X) (x_serde X) (pg_adapter X)) (st_pg_metrics st)"
| "poll_of X st Rd = map_option (redis_poll (x_prom X) (x_fred X)) (st_redis_metrics st)"
| "poll_of X st Mg = map_option (mongo_poll (x_prom X) (x_mongo X) (x_checks X)) (st_mongo_metrics st)"

fun collect_of :: "('s, 'q, 'p, 'h, 'v, 'r, 'd) deps \<Rightarrow> app_state \<Rightarrow> backend \<Rightarrow> ('s, metrics_error, unit) action option" where
  "collect_of X st Pg = map_option (postgres_collect (x_prom X) (x_serde X) (pg_adapter X)) (st_pg_metrics st)"
| "collect_of X st Rd = map_option (redis_collect (x_prom X) (x_fred X)) (st_redis_metrics st)"
| "collect_of X st Mg = map_option (mongo_collect (x_prom X) (x_mongo X) (x_checks X)) (st_mongo_metrics st)"

text \<open>The metrics of a backend, their descriptors, and those its poll writes.\<close>

fun part_of :: "app_state \<Rightarrow> string \<Rightarrow> backend \<Rightarrow> (handle list \<times> metric_desc list \<times> handle list) option" where
  "part_of st ns Pg = map_option (\<lambda>m. (postgres_handles m, postgres_descs ns, postgres_gauges m)) (st_pg_metrics st)"
| "part_of st ns Rd = map_option (\<lambda>m. (redis_handles m, redis_descs ns, redis_gauges m)) (st_redis_metrics st)"
| "part_of st ns Mg = map_option (\<lambda>m. (mongo_handles m, mongo_descs ns, mongo_gauges m)) (st_mongo_metrics st)"

fun backend_name :: "backend \<Rightarrow> string" where
  "backend_name Pg = postgres_name"
| "backend_name Rd = redis_name"
| "backend_name Mg = mongo_name"

text \<open>
  A polling loop waits for its next tick, has a poll in progress, or has ended.  What follows a poll
  is \<open>after_poll\<close>, as in \<open>loop_body\<close>: the loop goes on, with a warning in the log for an error, or it
  is dead.  The system counts the panics of tasks and handlers; the HTTP layer counts its own.
\<close>

datatype 's loop_state = Waiting | Polling "('s, metrics_error, unit) coro" | Stopped

record 's system =
  sy_http :: "'s http_state"
  sy_loops :: "backend \<Rightarrow> 's loop_state"
  sy_log :: "warning list"
  sy_panics :: nat

fun loop_after :: "loop_status \<Rightarrow> 's loop_state" where
  "loop_after Running = Waiting"
| "loop_after Dead = Stopped"

lemma loop_after_not_polling [simp]: "loop_after status \<noteq> Polling p"
  by (cases status) simp_all

abbreviation sy_world :: "'s system \<Rightarrow> 's" where
  "sy_world c \<equiv> hs_world (sy_http c)"

abbreviation set_world :: "'s system \<Rightarrow> 's \<Rightarrow> 's system" where
  "set_world c t \<equiv> c\<lparr>sy_http := (sy_http c)\<lparr>hs_world := t\<rparr>\<rparr>"

definition panic_of :: "('e, 'a) outcome \<Rightarrow> nat" where
  "panic_of r = (if r = Panic then 1 else 0)"

definition app_handles :: "app_state \<Rightarrow> handle list" where
  "app_handles st = concat (map fst (app_parts st ''''))"

text \<open>
  \<open>Abort\<close> is the moment at which the cancellation of a task takes effect, some time after \<open>abort\<close> was
  called: the task waits for its tick or for its driver, since it can end only at an \<open>await\<close>.
\<close>

inductive sys_step ::
  "('s, 'q, 'p, 'h, 'v, 'r, 'd) deps \<Rightarrow> 's prom_view \<Rightarrow> http_metrics \<Rightarrow> app_state \<Rightarrow> 's system \<Rightarrow> 's system \<Rightarrow> bool"
  for X V hm st where
  Http: "http_act (x_prom X) (x_api X) (x_now X) hm (sy_http c) d \<Longrightarrow> sys_step X V hm st c (c\<lparr>sy_http := d\<rparr>)"
| Route: "run_api (x_prom X) (x_keys X) (x_now X) (x_sleep X) st h path_key (sy_world c) =
      (r :: (metrics_error, nat \<times> json_lit) outcome, t) \<Longrightarrow>
    sys_step X V hm st c ((set_world c t)\<lparr>sy_panics := sy_panics c + panic_of r\<rparr>)"
| Tick: "sy_loops c k = Waiting \<Longrightarrow> poll_of X st k = Some p \<Longrightarrow>
    sys_step X V hm st c (c\<lparr>sy_loops := (sy_loops c)(k := Polling p)\<rparr>)"
| Run: "sy_loops c k = Polling p \<Longrightarrow> p = Sync f \<or> p = Await f \<Longrightarrow> f (sy_world c) = (q, t) \<Longrightarrow>
    sys_step X V hm st c ((set_world c t)\<lparr>sy_loops := (sy_loops c)(k := Polling q)\<rparr>)"
| End: "sy_loops c k = Polling (Done r) \<Longrightarrow> after_poll (backend_name k) r = (status, ws) \<Longrightarrow>
    sys_step X V hm st c
      (c\<lparr>sy_loops := (sy_loops c)(k := loop_after status), sy_log := sy_log c @ ws,
         sy_panics := sy_panics c + panic_of r\<rparr>)"
| Abort: "sy_loops c k = Waiting \<or> sy_loops c k = Polling (Await f) \<Longrightarrow>
    sys_step X V hm st c (c\<lparr>sy_loops := (sy_loops c)(k := Stopped)\<rparr>)"
| Other: "untouched V (http_handles hm @ app_handles st) (http_handles hm @ app_handles st) (sy_world c) t \<Longrightarrow>
    sys_step X V hm st c (set_world c t)"

inductive_cases sys_stepE: "sys_step X V hm st c d"

definition sys_start :: "'s prom_view \<Rightarrow> http_metrics \<Rightarrow> app_state \<Rightarrow> string \<Rightarrow> 's system \<Rightarrow> bool" where
  "sys_start V hm st ns c \<longleftrightarrow>
     http_start V hm ns (sy_http c) \<and> app_owned (meta V (sy_world c)) st ns \<and> app_typed V (sy_world c) st ns \<and>
     (\<forall>k. sy_loops c k = Waiting) \<and> sy_log c = [] \<and> sy_panics c = 0"

inductive sys_reach ::
  "('s, 'q, 'p, 'h, 'v, 'r, 'd) deps \<Rightarrow> 's prom_view \<Rightarrow> http_metrics \<Rightarrow> app_state \<Rightarrow> string \<Rightarrow> 's system \<Rightarrow> bool"
  for X V hm st ns where
  start: "sys_start V hm st ns c \<Longrightarrow> sys_reach X V hm st ns c"
| step: "sys_reach X V hm st ns c \<Longrightarrow> sys_step X V hm st c d \<Longrightarrow> sys_reach X V hm st ns d"

text \<open>What is assumed of the crates and drivers.\<close>

definition deps_ok :: "('s, 'q, 'p, 'h, 'v, 'r, 'd) deps \<Rightarrow> 's prom_view \<Rightarrow> app_state \<Rightarrow> bool" where
  "deps_ok X V st \<longleftrightarrow>
     prom_ok (x_prom X) V \<and> keys_quiet (x_keys X) V \<and> sleep_quiet (x_sleep X) V \<and>
     deadpool_quiet (x_deadpool X) V \<and> fred_quiet (x_fred X) V \<and>
     (\<forall>m. st_mongo_metrics st = Some m \<longrightarrow> mongo_env (x_mongo X) (x_checks X) m V)"

subsection \<open>The invariant\<close>

lemma part_of_owned:
  assumes "app_owned M st ns" "part_of st ns k = Some (own, descs, mine)"
  shows "owned M own descs" "set mine \<subseteq> set own" "set own \<subseteq> set (app_handles st)"
  using assms
  by (cases k; auto simp: app_handles_def app_parts_def app_owned_def gauges_eval)+

lemma app_handles_part: "(hs, ds) \<in> set (app_parts st ns) \<Longrightarrow> set hs \<subseteq> set (app_handles st)"
  by (auto simp: app_handles_def app_parts_def opt_part_def split: option.splits)

lemma app_http_disjoint:
  assumes http: "owned M (http_handles hm) (http_descs ns)" and own: "app_owned M st ns"
  shows "set (http_handles hm) \<inter> set (app_handles st) = {}"
proof -
  have "set (http_handles hm) \<inter> set (postgres_handles m) = {}" if "st_pg_metrics st = Some m" for m
    by (rule http_collector_disjoint [OF app_ownedD(1) [OF own that] http postgres_desc_names]) simp_all
  moreover have "set (http_handles hm) \<inter> set (redis_handles m) = {}" if "st_redis_metrics st = Some m" for m
    by (rule http_collector_disjoint [OF app_ownedD(2) [OF own that] http redis_desc_names]) simp_all
  moreover have "set (http_handles hm) \<inter> set (mongo_handles m) = {}" if "st_mongo_metrics st = Some m" for m
    by (rule http_collector_disjoint [OF app_ownedD(3) [OF own that] http mongo_desc_names]) simp_all
  ultimately show ?thesis
    by (cases "st_pg_metrics st"; cases "st_redis_metrics st"; cases "st_mongo_metrics st")
      (auto simp: app_handles_def app_parts_def)
qed

lemma app_hists_handles: "set (app_hists st) \<subseteq> set (app_handles st)"
  by (auto simp: app_hists_def app_handles_def app_parts_def opt_part_def postgres_handles_def redis_handles_def
      split: option.splits)

definition sys_inv :: "'s prom_view \<Rightarrow> http_metrics \<Rightarrow> app_state \<Rightarrow> string \<Rightarrow> 's system \<Rightarrow> bool" where
  "sys_inv V hm st ns c \<longleftrightarrow>
     http_inv V hm ns (sy_http c) \<and> app_owned (meta V (sy_world c)) st ns \<and> app_typed V (sy_world c) st ns \<and>
     sy_panics c = 0 \<and>
     (\<forall>k p. sy_loops c k = Polling p \<longrightarrow>
        (\<exists>own descs mine. part_of st ns k = Some (own, descs, mine) \<and> safe V own descs mine p))"

lemma sys_inv_poll:
  "sys_inv V hm st ns c \<Longrightarrow> sy_loops c k = Polling p \<Longrightarrow>
     \<exists>own descs mine. part_of st ns k = Some (own, descs, mine) \<and> safe V own descs mine p"
  unfolding sys_inv_def by blast

lemma poll_of_safe:
  assumes X: "deps_ok X V st" and own: "app_owned M st ns" and p: "poll_of X st k = Some p"
  shows "\<exists>own descs mine. part_of st ns k = Some (own, descs, mine) \<and> safe V own descs mine p"
proof -
  have d: "prom_ok (x_prom X) V" "deadpool_quiet (x_deadpool X) V" "fred_quiet (x_fred X) V"
    "\<And>m. st_mongo_metrics st = Some m \<Longrightarrow> mongo_env (x_mongo X) (x_checks X) m V"
    using X by (auto simp: deps_ok_def)
  show ?thesis
  proof (cases k)
    case Pg
    with p obtain m where "st_pg_metrics st = Some m"
      "p = postgres_poll (x_prom X) (x_serde X) (pg_adapter X) m" by auto
    moreover from this(1) have "\<exists>M. owned M (postgres_handles m) (postgres_descs ns)" using app_ownedD(1) [OF own] by blast
    ultimately show ?thesis using Pg deadpool.postgres_safe [OF d(1,2)] by simp
  next
    case Rd
    with p obtain m where "st_redis_metrics st = Some m" "p = redis_poll (x_prom X) (x_fred X) m" by auto
    with Rd app_ownedD(2) [OF own] redis_safe [OF d(1,3)] show ?thesis by auto
  next
    case Mg
    with p obtain m where "st_mongo_metrics st = Some m" "p = mongo_poll (x_prom X) (x_mongo X) (x_checks X) m" by auto
    with Mg app_ownedD(3) [OF own] mongo_safe [OF d(1) d(4)] show ?thesis by auto
  qed
qed

lemma run_safe:
  assumes "safe V own descs mine p" and "p = Sync f \<or> p = Await f" and "owned (meta V u) own descs" and "f u = (q, t)"
  shows "safe V own descs mine q \<and> touches V mine u t"
  using assms(1)
proof cases
  case (safe_sync g)
  with assms have "meta V t = meta V u \<and> safe V own descs mine q \<and>
      (\<exists>ws. typed_writes (meta V u) mine ws \<and> val V t = apply_writes ws (val V u))"
    by (metis coro.inject(2) coro.distinct(5) fst_conv snd_conv)
  then show ?thesis by (auto intro: touches_writes)
next
  case (safe_await g)
  with assms have "same V u t \<and> safe V own descs mine q"
    by (metis coro.inject(3) coro.distinct(5) fst_conv snd_conv)
  then show ?thesis by (auto intro: touches_same)
qed (use assms(2) in auto)

text \<open>A step that writes to metrics of the application only is an environment of the HTTP layer.\<close>

lemma touches_inv:
  assumes inv: "sys_inv V hm st ns c" and t: "touches V mine (sy_world c) t" and mine: "set mine \<subseteq> set (app_handles st)"
  shows "http_untouched V hm (sy_world c) t"
    and "sys_inv V hm st ns (set_world c t)"
proof -
  have http: "owned (meta V (sy_world c)) (http_handles hm) (http_descs ns)" and app: "app_owned (meta V (sy_world c)) st ns"
    and i: "http_inv V hm ns (sy_http c)"
    using inv by (auto simp: sys_inv_def http_inv_def)
  show u: "http_untouched V hm (sy_world c) t"
    using t mine app_http_disjoint [OF http app] by (auto simp: http_untouched_def touches_def)
  show "sys_inv V hm st ns (set_world c t)"
    using inv touches_app [OF t] http_inv_env [OF i u] by (simp add: sys_inv_def)
qed

lemma sys_inv_http:
  assumes X: "deps_ok X V st" and inv: "sys_inv V hm st ns c" and act: "http_act (x_prom X) (x_api X) (x_now X) hm (sy_http c) d"
  shows "sys_inv V hm st ns (c\<lparr>sy_http := d\<rparr>)"
proof -
  have P: "prom_ok (x_prom X) V" and i: "http_inv V hm ns (sy_http c)" and app: "app_owned (meta V (sy_world c)) st ns"
    using X inv by (auto simp: deps_ok_def sys_inv_def)
  have http: "owned (meta V (sy_world c)) (http_handles hm) (http_descs ns)" using i by (simp add: http_inv_def)
  note fr = http_act_frame [OF P act i]
  have "app_typed V (hs_world d) st ns"
    unfolding app_typed_def
  proof (intro ballI, clarify)
    fix hs ds assume p: "(hs, ds) \<in> set (app_parts st ns)"
    then have w: "well_typed V (sy_world c) hs" using inv by (auto simp: sys_inv_def app_typed_def)
    have "set hs \<inter> set (http_handles hm) = {}"
      using app_handles_part [OF p] app_http_disjoint [OF http app] by blast
    with w fr show "well_typed V (hs_world d) hs" by (simp add: well_typed_def disjoint_iff)
  qed
  with inv fr(1) http_act_inv [OF act P i] show ?thesis by (simp add: sys_inv_def)
qed

lemma sys_step_inv:
  assumes X: "deps_ok X V st" and inv: "sys_inv V hm st ns c" and step: "sys_step X V hm st c d"
  shows "sys_inv V hm st ns d"
  using step
proof cases
  case (Http d')
  then show ?thesis using sys_inv_http [OF X inv] by simp
next
  case (Route h path_key r t)
  have q: "prom_ok (x_prom X) V" "keys_quiet (x_keys X) V" "sleep_quiet (x_sleep X) V" using X by (simp_all add: deps_ok_def)
  have a: "app_owned (meta V (sy_world c)) st ns" "app_typed V (sy_world c) st ns" using inv by (simp_all add: sys_inv_def)
  obtain reply t' where r: "run_api (x_prom X) (x_keys X) (x_now X) (x_sleep X) st h path_key (sy_world c) =
      (Ok reply :: (metrics_error, nat \<times> json_lit) outcome, t')" "touches V (app_hists st) (sy_world c) t'"
    using run_api_touches [where 'e = metrics_error, OF q a] by blast
  with Route have "r = Ok reply" "t = t'" by auto
  with touches_inv(2) [OF inv r(2) app_hists_handles] Route show ?thesis by (simp add: sys_inv_def panic_of_def)
next
  case (Tick k p)
  have "app_owned (meta V (sy_world c)) st ns" using inv by (simp add: sys_inv_def)
  from poll_of_safe [OF X this Tick(3)] inv Tick(1) show ?thesis by (auto simp: sys_inv_def)
next
  case (Run k p f q t)
  have app: "app_owned (meta V (sy_world c)) st ns" using inv by (simp add: sys_inv_def)
  obtain own descs mine where s: "part_of st ns k = Some (own, descs, mine)" "safe V own descs mine p"
    using sys_inv_poll [OF inv Run(2)] by blast
  note po = part_of_owned [OF app s(1)]
  have r: "safe V own descs mine q \<and> touches V mine (sy_world c) t" by (rule run_safe [OF s(2) Run(3) po(1) Run(4)])
  have "sys_inv V hm st ns (set_world c t)" 
    by (rule touches_inv(2) [OF inv conjunct2 [OF r] subset_trans [OF po(2,3)]])
  with r s(1) Run(1) show ?thesis by (auto simp: sys_inv_def)
next
  case (End k r status ws)
  have r: "r \<noteq> Panic" using sys_inv_poll [OF inv End(2)] by (auto elim: safe_DoneE)
  with End(3) have "status = Running" by (cases r) (auto simp: after_poll_def)
  with r inv End(1) show ?thesis by (auto simp: sys_inv_def panic_of_def)
next
  case (Abort k f)
  with inv show ?thesis by (auto simp: sys_inv_def)
next
  case (Other t)
  have u: "http_untouched V hm (sy_world c) t"
    using Other(2) by (auto simp: untouched_def http_untouched_def)
  have i: "http_inv V hm ns (sy_http c)" using inv by (simp add: sys_inv_def)
  have e: "meta V t h = meta V (sy_world c) h" "val V t (h, ls) = val V (sy_world c) (h, ls)"
    if "(hs, ds) \<in> set (app_parts st ns)" "h \<in> set hs" for hs ds h ls
    using app_handles_part [OF that(1)] that(2) Other(2) by (auto simp: untouched_def)
  have "app_owned (meta V t) st ns" "app_typed V t st ns"
    using inv e by (auto simp: sys_inv_def app_owned_def app_typed_def well_typed_def elim!: owned_cong)
  with inv Other(1) http_inv_env [OF i u] show ?thesis by (simp add: sys_inv_def)
qed

lemma sys_inv_start: "sys_start V hm st ns c \<Longrightarrow> sys_inv V hm st ns c"
  by (simp add: sys_start_def sys_inv_def http_inv_start)

lemma sys_reach_inv:
  assumes "deps_ok X V st"
  shows "sys_reach X V hm st ns c \<Longrightarrow> sys_inv V hm st ns c"
  by (induction rule: sys_reach.induct) (blast intro: sys_inv_start, rule sys_step_inv [OF assms])

subsection \<open>The HTTP layer in the system\<close>

text \<open>For the HTTP layer every step but its own is an environment.\<close>

lemma sys_step_http:
  assumes X: "deps_ok X V st" and inv: "sys_inv V hm st ns c" and step: "sys_step X V hm st c d"
  shows "http_step (x_prom X) (x_api X) (x_now X) V hm (sy_http c) (sy_http d) \<or> sy_http d = sy_http c"
proof -
  have env: "http_step (x_prom X) (x_api X) (x_now X) V hm (sy_http c) ((sy_http c)\<lparr>hs_world := t\<rparr>)"
    if "http_untouched V hm (sy_world c) t" for t
    using that by (rule http_step.Env)
  have a: "app_owned (meta V (sy_world c)) st ns" "app_typed V (sy_world c) st ns" using inv by (simp_all add: sys_inv_def)
  show ?thesis
    using step
  proof cases
    case (Http d')
    then show ?thesis by (simp add: http_step.Act)
  next
    case (Route h path_key r t)
    have q: "prom_ok (x_prom X) V" "keys_quiet (x_keys X) V" "sleep_quiet (x_sleep X) V" using X by (simp_all add: deps_ok_def)
    have "touches V (app_hists st) (sy_world c) t"
      using run_api_touches [where 'e = metrics_error, OF q a, of "x_now X" h path_key] Route(2) by auto
    from env [OF touches_inv(1) [OF inv this app_hists_handles]] Route(1) show ?thesis by simp
  next
    case (Run k p f q t)
    obtain own descs mine where s: "part_of st ns k = Some (own, descs, mine)" "safe V own descs mine p"
      using sys_inv_poll [OF inv Run(2)] by blast
    note po = part_of_owned [OF a(1) s(1)]
    have r: "safe V own descs mine q \<and> touches V mine (sy_world c) t" by (rule run_safe [OF s(2) Run(3) po(1) Run(4)])
    from env [OF touches_inv(1) [OF inv conjunct2 [OF r] subset_trans [OF po(2,3)]]] Run(1) show ?thesis by simp
  next
    case (Other t)
    have "http_untouched V hm (sy_world c) t" using Other(2) by (auto simp: untouched_def http_untouched_def)
    from env [OF this] Other(1) show ?thesis by simp
  qed simp_all
qed

lemma sys_reach_http:
  assumes X: "deps_ok X V st"
  shows "sys_reach X V hm st ns c \<Longrightarrow> http_reach (x_prom X) (x_api X) (x_now X) V hm ns (sy_http c)"
proof (induction rule: sys_reach.induct)
  case (start c)
  then show ?case by (intro http_reach.start) (simp add: sys_start_def)
next
  case (step c d)
  from sys_step_http [OF X sys_reach_inv [OF X step(1)] step(2)] show ?case
    using step.IH http_reach.step by auto
qed

subsection \<open>A poll in the system\<close>

text \<open>For the poll of one backend every step but its own is an environment.\<close>

lemma parts_disjoint:
  assumes own: "app_owned M st ns" and k: "part_of st ns k = Some (own, descs, mine)"
    and l: "part_of st ns l = Some (own', descs', mine')" and ne: "k \<noteq> l"
  shows "set own \<inter> set own' = {}"
proof -
  have n: "\<forall>d\<in>set (postgres_descs ns). d_names d \<noteq> []" "\<forall>d\<in>set (redis_descs ns). d_names d \<noteq> []"
    "\<forall>d\<in>set (mongo_descs ns). d_names d \<noteq> []"
    by (simp_all add: postgres_descs_def postgres_specs_def postgres_macro_defs redis_descs_def redis_specs_def
        redis_macro_defs mongo_descs_def mongo_specs_def mongo_macro_defs spec_desc_scoped)
  have dj: "set (concat (map d_names (postgres_descs ns))) \<inter> set (concat (map d_names (redis_descs ns))) = {}"
    "set (concat (map d_names (postgres_descs ns))) \<inter> set (concat (map d_names (mongo_descs ns))) = {}"
    "set (concat (map d_names (redis_descs ns))) \<inter> set (concat (map d_names (mongo_descs ns))) = {}"
    unfolding postgres_desc_names redis_desc_names mongo_desc_names by auto
  note o = part_of_owned(1) [OF own k] part_of_owned(1) [OF own l]
  show ?thesis
  proof (rule handles_disjoint [OF o])
    show "\<forall>d\<in>set descs. d_names d \<noteq> []" using k n by (cases k) auto
    show "set (concat (map d_names descs)) \<inter> set (concat (map d_names descs')) = {}"
      using k l ne dj by (cases k; cases l) auto
  qed
qed

lemma gauges_not_hists:
  "distinct (postgres_handles m) \<Longrightarrow> p_query_duration_seconds m \<notin> set (postgres_gauges m) \<and> p_rows_returned m \<notin> set (postgres_gauges m)"
  "distinct (redis_handles m') \<Longrightarrow> r_command_duration_seconds m' \<notin> set (redis_gauges m')"
proof -
  have "p_query_duration_seconds m \<in> set (drop 14 (postgres_handles m))" "p_rows_returned m \<in> set (drop 14 (postgres_handles m))"
    "r_command_duration_seconds m' \<in> set (drop 14 (redis_handles m'))"
    by (simp_all add: postgres_handles_def redis_handles_def)
  then show "distinct (postgres_handles m) \<Longrightarrow> p_query_duration_seconds m \<notin> set (postgres_gauges m) \<and> p_rows_returned m \<notin> set (postgres_gauges m)"
    "distinct (redis_handles m') \<Longrightarrow> r_command_duration_seconds m' \<notin> set (redis_gauges m')"
    using set_take_disj_set_drop_if_distinct [of "postgres_handles m" 14 14]
      set_take_disj_set_drop_if_distinct [of "redis_handles m'" 14 14]
    unfolding postgres_gauges_def redis_gauges_def by auto
qed

lemma hists_in_parts:
  assumes "h \<in> set (app_hists st)"
  shows "(\<exists>m. st_pg_metrics st = Some m \<and> h \<in> set (postgres_handles m) \<and> (h = p_query_duration_seconds m \<or> h = p_rows_returned m)) \<or>
    (\<exists>m. st_redis_metrics st = Some m \<and> h \<in> set (redis_handles m) \<and> h = r_command_duration_seconds m)"
proof -
  have "p_query_duration_seconds m \<in> set (postgres_handles m)" "p_rows_returned m \<in> set (postgres_handles m)"
    "r_command_duration_seconds m' \<in> set (redis_handles m')" for m m'
    by (simp_all add: postgres_handles_def redis_handles_def)
  then show ?thesis
    using assms by (cases "st_pg_metrics st"; cases "st_redis_metrics st") (auto simp: app_hists_def)
qed

lemma mine_not_hists:
  assumes own: "app_owned M st ns" and k: "part_of st ns k = Some (own, descs, mine)"
  shows "set mine \<inter> set (app_hists st) = {}"
proof -
  note po = part_of_owned [OF own k]
  have d: "distinct own" using po(1) by (simp add: owned_def)
  have "h \<notin> set mine" if h: "h \<in> set (app_hists st)" for h
  proof -
    consider (pg) m where "st_pg_metrics st = Some m" "h \<in> set (postgres_handles m)"
        "h = p_query_duration_seconds m \<or> h = p_rows_returned m"
      | (rd) m where "st_redis_metrics st = Some m" "h \<in> set (redis_handles m)" "h = r_command_duration_seconds m"
      using hists_in_parts [OF h] by blast
    then show ?thesis
    proof cases
      case m: (pg m)
      show ?thesis
      proof (cases "k = Pg")
        case True
        with k m(1) d gauges_not_hists(1) [of m] m(3) show ?thesis by auto
      next
        case False
        have "set own \<inter> set (postgres_handles m) = {}"
          by (rule parts_disjoint [OF own k _ False]) (simp add: m(1))
        with m(2) po(2) show ?thesis by blast
      qed
    next
      case m: (rd m)
      show ?thesis
      proof (cases "k = Rd")
        case True
        with k m(1) d gauges_not_hists(2) [of m] m(3) show ?thesis by auto
      next
        case False
        have "set own \<inter> set (redis_handles m) = {}"
          by (rule parts_disjoint [OF own k _ False]) (simp add: m(1))
        with m(2) po(2) show ?thesis by blast
      qed
    qed
  qed
  then show ?thesis by blast
qed

lemma untouched_refl: "untouched V own mine s s"
  by (simp add: untouched_def)

lemma touches_untouched:
  "touches V mine' s t \<Longrightarrow> set mine \<inter> set mine' = {} \<Longrightarrow> untouched V own mine s t"
  by (auto simp: touches_def untouched_def disjoint_iff)

lemma sys_step_poll:
  assumes X: "deps_ok X V st" and inv: "sys_inv V hm st ns c" and step: "sys_step X V hm st c d"
    and k: "part_of st ns k = Some (own, descs, mine)"
    and c: "sy_loops c k = Polling p" and d: "sy_loops d k = Polling q"
  shows "coro_step (untouched V own mine) (p, sy_world c) (q, sy_world d)"
proof -
  have i: "http_inv V hm ns (sy_http c)" and app: "app_owned (meta V (sy_world c)) st ns"
    and typed: "app_typed V (sy_world c) st ns"
    using inv by (simp_all add: sys_inv_def)
  have http: "owned (meta V (sy_world c)) (http_handles hm) (http_descs ns)" using i by (simp add: http_inv_def)
  have P: "prom_ok (x_prom X) V" and q: "keys_quiet (x_keys X) V" "sleep_quiet (x_sleep X) V"
    using X by (simp_all add: deps_ok_def)
  note po = part_of_owned [OF app k]
  show ?thesis
    using step
  proof cases
    case (Http d')
    have "set mine \<inter> set (http_handles hm) = {}" using app_http_disjoint [OF http app] po(2,3) by blast
    with http_act_frame [OF P Http(2) i] have "untouched V own mine (sy_world c) (hs_world d')"
      by (simp add: untouched_def disjoint_iff)
    with Http(1) c d show ?thesis by (auto intro: coro_step.Env)
  next
    case (Route h path_key r t)
    have "touches V (app_hists st) (sy_world c) t"
      using run_api_touches [where 'e = metrics_error, OF P q app typed, of "x_now X" h path_key] Route(2) by auto
    from touches_untouched [OF this mine_not_hists [OF app k]] Route(1) c d show ?thesis
      by (auto intro: coro_step.Env)
  next
    case (Run l p' f q' t)
    show ?thesis
    proof (cases "l = k")
      case True
      with Run c d have e: "p = p'" "q = q'" "sy_world d = t" by auto
      show ?thesis
        unfolding e using Run(3,4) by (auto intro: coro_step.Sync coro_step.Await)
    next
      case False
      obtain own' descs' mine' where l: "part_of st ns l = Some (own', descs', mine')" "safe V own' descs' mine' p'"
        using sys_inv_poll [OF inv Run(2)] by blast
      note po' = part_of_owned [OF app l(1)]
      have "touches V mine' (sy_world c) t" using run_safe [OF l(2) Run(3) po'(1) Run(4)] by simp
      moreover have "set mine \<inter> set mine' = {}"
        using parts_disjoint [OF app k l(1)] False po(2) po'(2) by blast
      ultimately have "untouched V own mine (sy_world c) t" by (rule touches_untouched)
      with Run(1) c d False show ?thesis by (auto intro: coro_step.Env)
    qed
  next
    case (Other t)
    have "untouched V own mine (sy_world c) t" using Other(2) po(2,3) by (auto simp: untouched_def)
    with Other(1) c d show ?thesis by (auto intro: coro_step.Env)
  qed (use c d in \<open>auto intro: coro_step.Env untouched_refl split: if_splits\<close>)
qed

text \<open>\<open>poll_stretch k c d\<close>: from \<open>c\<close> to \<open>d\<close> the system runs while the loop of \<open>k\<close> stays in its poll.\<close>

definition poll_stretch ::
  "('s, 'q, 'p, 'h, 'v, 'r, 'd) deps \<Rightarrow> 's prom_view \<Rightarrow> http_metrics \<Rightarrow> app_state \<Rightarrow> backend \<Rightarrow> 's system \<Rightarrow> 's system \<Rightarrow> bool" where
  "poll_stretch X V hm st k = (\<lambda>c d. sys_step X V hm st c d \<and> (\<exists>p. sy_loops d k = Polling p))\<^sup>*\<^sup>*"

lemma poll_stretch_steps:
  assumes X: "deps_ok X V st" and c: "sys_inv V hm st ns c"
    and k: "part_of st ns k = Some (own, descs, mine)"
    and run: "poll_stretch X V hm st k c d" and p: "sy_loops c k = Polling p"
  shows "\<exists>q. sy_loops d k = Polling q \<and> coro_steps (untouched V own mine) (p, sy_world c) (q, sy_world d) \<and>
     sys_inv V hm st ns d"
  using run unfolding poll_stretch_def
proof (induction rule: rtranclp_induct)
  case base
  then show ?case using p c by simp
next
  case (step d e)
  obtain q where q: "sy_loops d k = Polling q" "coro_steps (untouched V own mine) (p, sy_world c) (q, sy_world d)"
    "sys_inv V hm st ns d" using step.IH by blast
  obtain r where r: "sy_loops e k = Polling r" "sys_step X V hm st d e" using step by blast
  have "coro_step (untouched V own mine) (q, sy_world d) (r, sy_world e)"
    by (rule sys_step_poll [OF X q(3) r(2) k q(1) r(1)])
  with q(2) r(1) sys_step_inv [OF X q(3) r(2)] show ?case by (auto intro: rtranclp.rtrancl_into_rtrancl)
qed

text \<open>A poll in progress can run to its end on its own.\<close>

definition same_but :: "backend \<Rightarrow> 's system \<Rightarrow> 's system \<Rightarrow> bool" where
  "same_but k c d \<longleftrightarrow>
     (\<forall>l. l \<noteq> k \<longrightarrow> sy_loops d l = sy_loops c l) \<and> hs_pending (sy_http d) = hs_pending (sy_http c) \<and>
     hs_done (sy_http d) = hs_done (sy_http c) \<and> sy_panics d = sy_panics c"

lemma run_step:
  assumes X: "deps_ok X V st" and inv: "sys_inv V hm st ns c" and c: "sy_loops c k = Polling p"
    and f: "p = Sync f \<or> p = Await f"
  shows "\<exists>d. sys_step X V hm st c d \<and> sy_loops d k = Polling (fst (f (sy_world c))) \<and> same_but k c d \<and> sys_inv V hm st ns d"
proof -
  let ?d = "(set_world c (snd (f (sy_world c))))\<lparr>sy_loops := (sy_loops c)(k := Polling (fst (f (sy_world c))))\<rparr>"
  have s: "sys_step X V hm st c ?d" by (rule sys_step.Run [OF c f]) simp
  with sys_step_inv [OF X inv s] show ?thesis by (intro exI [of _ ?d]) (simp add: same_but_def)
qed

lemma poll_can_finish:
  assumes X: "deps_ok X V st" and k: "part_of st ns k = Some (own, descs, mine)"
  shows "safe V own descs mine p \<Longrightarrow> sys_inv V hm st ns c \<Longrightarrow> sy_loops c k = Polling p \<Longrightarrow>
    \<exists>d r. poll_stretch X V hm st k c d \<and> sy_loops d k = Polling (Done r) \<and> same_but k c d \<and> sys_inv V hm st ns d"
proof (induction arbitrary: c rule: safe.induct)
  case (safe_done r)
  then show ?case by (intro exI [of _ c] exI [of _ r]) (simp add: poll_stretch_def same_but_def)
next
  case (safe_sync f)
  obtain d where d: "sys_step X V hm st c d" "sy_loops d k = Polling (fst (f (sy_world c)))" "same_but k c d" "sys_inv V hm st ns d"
    using run_step [OF X safe_sync.prems, of f] by blast
  have "app_owned (meta V (sy_world c)) st ns" using safe_sync.prems(1) by (simp add: sys_inv_def)
  from safe_sync.IH [OF part_of_owned(1) [OF this k]] d obtain e r where
    "poll_stretch X V hm st k d e" "sy_loops e k = Polling (Done r)" "same_but k d e" "sys_inv V hm st ns e" by blast
  with d show ?case
    by (intro exI [of _ e] exI [of _ r]) (auto simp: poll_stretch_def same_but_def intro: converse_rtranclp_into_rtranclp)
next
  case (safe_await f)
  obtain d where d: "sys_step X V hm st c d" "sy_loops d k = Polling (fst (f (sy_world c)))" "same_but k c d" "sys_inv V hm st ns d"
    using run_step [OF X safe_await.prems, of f] by blast
  from safe_await.IH d obtain e r where
    "poll_stretch X V hm st k d e" "sy_loops e k = Polling (Done r)" "same_but k d e" "sys_inv V hm st ns e" by blast
  with d show ?case
    by (intro exI [of _ e] exI [of _ r]) (auto simp: poll_stretch_def same_but_def intro: converse_rtranclp_into_rtranclp)
qed

lemma poll_stretch_sys: "poll_stretch X V hm st k c d \<Longrightarrow> (sys_step X V hm st)\<^sup>*\<^sup>* c d"
  unfolding poll_stretch_def by (erule rtranclp_mono [THEN predicate2D, rotated]) auto

text \<open>The system right after the start-up.\<close>

definition sys_idle :: "'s \<Rightarrow> 's system" where
  "sys_idle s = \<lparr>sy_http = http_idle s, sy_loops = (\<lambda>_. Waiting), sy_log = [], sy_panics = 0\<rparr>"

lemma fresh_part_typed: "fresh_part V t hs ds \<Longrightarrow> well_typed V t hs"
proof -
  assume f: "fresh_part V t hs ds"
  have "has_kind (d_kind d) (val V t (h, ls))" if h: "h \<in> set hs" "meta V t h = Some d" for h d ls
  proof -
    obtain i where i: "i < length hs" "h = hs ! i" using h(1) by (auto simp: in_set_conv_nth)
    have o: "owned (meta V t) hs ds" using f by (simp add: fresh_part_def)
    have "d = ds ! i" using owned_nth [OF o i(1)] i(2) h(2) by simp
    moreover have "(hs ! i, ds ! i) \<in> set (zip hs ds)" using i(1) owned_length [OF o] by (auto simp: set_zip)
    ultimately have "val V t (h, ls) = initial_value (d_kind d)" using f i(2) by (auto simp: fresh_part_def)
    then show ?thesis by (simp add: has_kind_initial)
  qed
  then show ?thesis by (simp add: well_typed_def)
qed

lemma fresh_sys_start:
  assumes "http_start V hm ''myapp'' (http_idle t)" and "fresh_app V t st"
  shows "sys_start V hm st ''myapp'' (sys_idle t)"
proof -
  have "owned (meta V t) hs ds \<and> well_typed V t hs" if "(hs, ds) \<in> set (app_parts st ''myapp'')" for hs ds
  proof -
    have f: "fresh_part V t hs ds"
      using assms(2) that by (auto simp: fresh_app_def app_parts_def opt_part_def split: option.splits)
    from fresh_part_typed [OF f] f show ?thesis by (simp add: fresh_part_def)
  qed
  then have "app_owned (meta V t) st ''myapp''" "app_typed V t st ''myapp''"
    unfolding app_owned_def app_typed_def by blast+
  with assms(1) show ?thesis by (simp add: sys_start_def sys_idle_def http_idle_def)
qed

text \<open>An application with Redis only, for the examples.\<close>

definition demo_deps :: "(ref_world, demo_request, demo_response, string, djson, string, bson) deps" where
  "demo_deps =
     \<lparr>x_prom = ref_prom, x_api = demo_api, x_now = (\<lambda>_. 0), x_sleep = (\<lambda>_ s. s), x_keys = demo_keys (Inr 8),
      x_serde = demo_serde [], x_deadpool = demo_deadpool \<lparr>st_max_size = 4, st_size = 1, st_available = 3\<rparr> demo_db,
      x_fred = demo_fred (Inr (render_info ''1.5'' sample_info)), x_mongo = demo_mongo_driver (Inl ''down''), x_checks = True\<rparr>"

lemma demo_deps_ok: "deps_ok demo_deps ref_view demo_counter_state"
  using demo_drivers_quiet(1) by (simp add: deps_ok_def demo_deps_def ref_prom_ok demo_keys_quiet demo_fred_quiet sleep_quiet_def
      demo_counter_state_def)

lemma demo_both_start: "sys_start ref_view demo_http demo_counter_state ''myapp'' (sys_idle demo_both_world)"
proof -
  have "http_start ref_view demo_http ''myapp'' (http_idle demo_both_world)"
    using demo_both_owned(1) http_cores [OF demo_both_owned(1)]
    by (auto simp: http_start_def http_idle_def demo_both_world_def world_of_def core_is_def plain_def)
  moreover have "fresh_part ref_view demo_both_world (redis_handles (redis_of 0 [5..<20])) (redis_descs ''myapp'')"
    using demo_both_owned(2) owned_nth [OF demo_both_owned(2)]
    by (auto simp: fresh_part_def demo_both_world_def world_of_def set_zip)
  ultimately show ?thesis by (intro fresh_sys_start) (simp_all add: fresh_app_def demo_counter_state_def)
qed

text \<open>The example after the start of a poll, and at its end.\<close>

definition demo_polling :: "ref_world system" where
  "demo_polling =
     (sys_idle demo_both_world)\<lparr>sy_loops := (\<lambda>_. Waiting)(Rd := Polling (redis_poll ref_prom (x_fred demo_deps) (redis_of 0 [5..<20])))\<rparr>"

lemma demo_polling_reach: "sys_reach demo_deps ref_view demo_http demo_counter_state ''myapp'' demo_polling"
proof -
  have "sys_step demo_deps ref_view demo_http demo_counter_state (sys_idle demo_both_world)
      ((sys_idle demo_both_world)\<lparr>sy_loops := (sy_loops (sys_idle demo_both_world))
         (Rd := Polling (redis_poll ref_prom (x_fred demo_deps) (redis_of 0 [5..<20])))\<rparr>)"
    by (rule sys_step.Tick) (simp_all add: sys_idle_def demo_counter_state_def demo_deps_def del: upt_Suc)
  then show ?thesis
    using sys_reach.step [OF sys_reach.start [OF demo_both_start]] by (simp add: demo_polling_def sys_idle_def del: upt_Suc)
qed

text \<open>The driver of a backend answers the same at any time.\<close>

fun steady :: "('s, 'q, 'p, 'h, 'v, 'r, 'd) deps \<Rightarrow> app_state \<Rightarrow> backend \<Rightarrow> bool" where
  "steady X st Pg = (\<forall>m. st_pg_metrics st = Some m \<longrightarrow> (\<exists>status ans. postgres_steady (pg_adapter X) m status ans))"
| "steady X st Rd = (\<forall>m. st_redis_metrics st = Some m \<longrightarrow> (\<exists>n x. redis_steady (x_fred X) m n x))"
| "steady X st Mg = (\<forall>m. st_mongo_metrics st = Some m \<longrightarrow> (\<exists>x. mongo_steady (x_mongo X) m x))"

lemma steady_undisturbed:
  assumes X: "deps_ok X V st" and own: "app_owned (meta V s) st ns" and st: "steady X st k"
    and p: "poll_of X st k = Some p" and a: "collect_of X st k = Some a" and k: "part_of st ns k = Some (own, descs, mine)"
  shows "undisturbed V (untouched V own mine) mine p a s"
proof -
  have alone: "leaves_alone V (untouched V own mine) own mine" by (simp add: leaves_alone_def)
  have d: "prom_ok (x_prom X) V" "deadpool_quiet (x_deadpool X) V" "fred_quiet (x_fred X) V"
    "\<And>m. st_mongo_metrics st = Some m \<Longrightarrow> mongo_env (x_mongo X) (x_checks X) m V"
    using X by (auto simp: deps_ok_def)
  show ?thesis
  proof (cases k)
    case Pg
    with p a k st obtain m status ans where m: "st_pg_metrics st = Some m" "own = postgres_handles m"
      "descs = postgres_descs ns" "mine = postgres_gauges m" "postgres_steady (pg_adapter X) m status ans"
      "p = postgres_poll (x_prom X) (x_serde X) (pg_adapter X) m" "a = postgres_collect (x_prom X) (x_serde X) (pg_adapter X) m"
      by auto
    from deadpool.postgres_undisturbed [OF d(1,2) m(5) app_ownedD(1) [OF own m(1)]] alone m show ?thesis by simp
  next
    case Rd
    with p a k st obtain m n x where m: "st_redis_metrics st = Some m" "own = redis_handles m"
      "descs = redis_descs ns" "mine = redis_gauges m" "redis_steady (x_fred X) m n x"
      "p = redis_poll (x_prom X) (x_fred X) m" "a = redis_collect (x_prom X) (x_fred X) m"
      by auto
    note o = app_ownedD(2) [OF own m(1)]
    have "\<exists>M. owned M (redis_handles m) (redis_descs ns)" using o by blast
    from redis_poll.poll_undisturbed [OF redis_follows [OF d(1,3) m(5) this] o] alone m show ?thesis by simp
  next
    case Mg
    with p a k st obtain m x where m: "st_mongo_metrics st = Some m" "own = mongo_handles m"
      "descs = mongo_descs ns" "mine = mongo_gauges m" "mongo_steady (x_mongo X) m x"
      "p = mongo_poll (x_prom X) (x_mongo X) (x_checks X) m" "a = mongo_collect (x_prom X) (x_mongo X) (x_checks X) m"
      by auto
    note o = app_ownedD(3) [OF own m(1)]
    have "\<exists>M. owned M (mongo_handles m) (mongo_descs ns)" using o by blast
    from mongo_poll.poll_undisturbed [OF mongo_follows [OF d(1) d(4) [OF m(1)] m(5) this] o] alone m show ?thesis by simp
  qed
qed

subsection \<open>Properties\<close>

text \<open>
  C2: whatever the interleaving of requests, route handlers, statements of polls, aborts of loops and
  other activity, no polling loop, no route handler and no statement of the HTTP layer ever panics, the
  application's metrics stay in place, and the HTTP layer is in a state that it reaches on its own, so
  that its counting properties hold in the running application.  \<open>deps_ok\<close> has a side condition: when
  MongoDB is configured and the build checks for overflow, the memory sizes that its server reports
  fit in an \<open>i64\<close> as bytes (\<open>mongo_env\<close>).  Without it the loop of MongoDB can die.
\<close>

theorem system_safe:
  assumes "deps_ok X V st" and "sys_reach X V hm st ns c"
  shows "sy_panics c = 0 \<and> hs_panics (sy_http c) = 0 \<and> app_owned (meta V (sy_world c)) st ns \<and>
     http_reach (x_prom X) (x_api X) (x_now X) V hm ns (sy_http c)"
  using sys_reach_inv [OF assms] sys_reach_http [OF assms] by (simp add: sys_inv_def http_inv_def)

theorem system_safe_witness:
  "sy_panics demo_polling = 0 \<and> hs_panics (sy_http demo_polling) = 0 \<and>
   http_reach ref_prom demo_api (\<lambda>_. 0) ref_view demo_http ''myapp'' (sy_http demo_polling)"
  using system_safe [OF demo_deps_ok demo_polling_reach] by (simp add: demo_deps_def)

text \<open>
  C15: the poll of a backend in the running system: from its start, through whatever else happens
  meanwhile, to its end.  If the driver's answers stay the same, its result is the one that
  \<open>collect\<close> has when it runs alone from the starting state, and so are the gauges it writes.
\<close>

theorem system_poll:
  assumes X: "deps_ok X V st" and c: "sys_reach X V hm st ns c" and st: "steady X st k"
    and start: "poll_of X st k = Some p" "collect_of X st k = Some collect" "sy_loops c k = Polling p"
    and run: "poll_stretch X V hm st k c d" and stop: "sy_loops d k = Polling (Done r)"
  shows "\<exists>own descs mine u. part_of st ns k = Some (own, descs, mine) \<and>
     collect (sy_world c) = (r, u) \<and> agree mine (val V (sy_world d)) (val V u)"
proof -
  have inv: "sys_inv V hm st ns c" by (rule sys_reach_inv [OF X c])
  then have app: "app_owned (meta V (sy_world c)) st ns" by (simp add: sys_inv_def)
  obtain own descs mine where k: "part_of st ns k = Some (own, descs, mine)"
    using sys_inv_poll [OF inv start(3)] by blast
  have u: "undisturbed V (untouched V own mine) mine p collect (sy_world c)"
    by (rule steady_undisturbed [OF X app st start(1,2) k])
  have "coro_steps (untouched V own mine) (p, sy_world c) (Done r, sy_world d)"
    using poll_stretch_steps [OF X inv k run start(3)] stop by auto
  with u k show ?thesis unfolding undisturbed_def by blast
qed

theorem system_poll_witness:
  "\<exists>d r u. poll_stretch demo_deps ref_view demo_http demo_counter_state Rd demo_polling d \<and> sy_loops d Rd = Polling (Done r) \<and>
     redis_collect ref_prom (x_fred demo_deps) (redis_of 0 [5..<20]) demo_both_world = (r, u) \<and>
     agree (redis_gauges (redis_of 0 [5..<20])) (val ref_view (sy_world d)) (val ref_view u)"
proof -
  let ?p = "redis_poll ref_prom (x_fred demo_deps) (redis_of 0 [5..<20])"
    and ?a = "redis_collect ref_prom (x_fred demo_deps) (redis_of 0 [5..<20])"
  have p: "poll_of demo_deps demo_counter_state Rd = Some ?p" "collect_of demo_deps demo_counter_state Rd = Some ?a"
    by (simp_all add: demo_deps_def demo_counter_state_def)
  have l: "sy_loops demo_polling Rd = Polling ?p" by (simp add: demo_polling_def)
  have "redis_steady (x_fred demo_deps) m 5 (Inr (render_info ''1.5'' sample_info))" for m
    by (simp add: demo_deps_def demo_fred_def redis_steady_def)
  then have st: "steady demo_deps demo_counter_state Rd" unfolding steady.simps by blast
  note inv = sys_reach_inv [OF demo_deps_ok demo_polling_reach]
  obtain own descs mine where k: "part_of demo_counter_state ''myapp'' Rd = Some (own, descs, mine)"
    "safe ref_view own descs mine ?p"
    using sys_inv_poll [OF inv l] by blast
  obtain d r where d: "poll_stretch demo_deps ref_view demo_http demo_counter_state Rd demo_polling d"
    "sy_loops d Rd = Polling (Done r)"
    using poll_can_finish [OF demo_deps_ok k inv l] by blast
  from system_poll [OF demo_deps_ok demo_polling_reach st p l d] d show ?thesis
    by (auto simp: demo_counter_state_def demo_polling_def sys_idle_def http_idle_def simp del: upt_Suc)
qed

end
