(* ===== verification/Spec2Isabelle.thy ===== *)
theory Spec2Isabelle
  imports System
begin

text \<open>
  The dr-metrix workspace exports metrics of PostgreSQL, Redis and MongoDB, and of the HTTP
  traffic of an Axum application, to Prometheus.  This library models its crates and the example
  application definition by definition, and proves what makes them correct.

  \<^bold>\<open>The program and its parts.\<close>  A backend crate has a struct of metrics, made by \<open>new\<close> under a
  namespace, and implements the trait \<open>MetricsCollector\<close>: \<open>register\<close> hands its metrics to a
  registry, \<open>collect\<close> polls the server once and publishes what it reads.  The default method
  \<open>spawn_collect_loop\<close> of the trait polls for ever in a task.  \<open>PrometheusMetrics\<close> owns the
  registry, the HTTP metrics and the task handles; its Tower layer records every request.  The
  application builds it, adds a collector for each backend that is configured, serves requests
  and shuts the collectors down.

  \<^bold>\<open>Theories and sources.\<close>
  \<^item> \<open>Prelude\<close>: words, outcomes (\<open>Ok\<close>, \<open>Err\<close>, \<open>Panic\<close>) and actions, state transformers that end
    in an outcome; \<open>bind_act\<close> is sequencing with the early exit of \<open>?\<close> and of a panic.
  \<^item> \<open>RustStr\<close>, \<open>F64\<close>: what the sources use of the standard library's strings, integer parsing and
    binary64 numbers (\<open>parse\<close>, \<open>trim\<close>, \<open>split\<close>, \<open>as\<close>, \<open>Duration::as_secs_f64\<close>).
  \<^item> \<open>PromApi\<close>: the interface of the crate \<open>prometheus\<close>, a record of operations over a world, and
    its documented laws \<open>prom_ok\<close>; \<open>RefProm\<close>: an instance of these laws, which the witnesses run on.
  \<^item> \<open>Core\<close>: \<open>dr-metrix-core\<close> (\<open>error.rs\<close>, \<open>collector.rs\<close>, \<open>lib.rs\<close>); the trait is the locale
    \<open>metrics_collector\<close>.
  \<^item> \<open>RedisInfo\<close>, \<open>Redis\<close>: \<open>dr-metrix-redis\<close> (\<open>info_parser.rs\<close>, \<open>metrics.rs\<close>).
  \<^item> \<open>Mongo\<close>: \<open>dr-metrix-mongo/src/metrics.rs\<close>.
  \<^item> \<open>Pool\<close>, \<open>Postgres\<close>: \<open>dr-metrix-postgres\<close> (\<open>pool/mod.rs\<close>, \<open>deadpool.rs\<close>, \<open>r2d2.rs\<close>,
    \<open>seaorm.rs\<close>; \<open>metrics.rs\<close>); the trait \<open>PoolAdapter\<close> is the locale \<open>pool_adapter\<close>.
  \<^item> \<open>Http\<close>, \<open>Layer\<close>, \<open>PromState\<close>, \<open>Handler\<close>: \<open>dr-metrix-axum\<close> (\<open>http_metrics.rs\<close>, \<open>layer.rs\<close>,
    \<open>state.rs\<close>, \<open>handler.rs\<close>).
  \<^item> \<open>Example\<close>: \<open>examples/src/main.rs\<close>, from \<open>main\<close> to \<open>shutdown_signal\<close>; \<open>Startup\<close>: lemmas about
    its start-up and its collector tasks.
  \<^item> \<open>Async\<close>, \<open>Polls\<close>: the three \<open>collect\<close> methods as asynchronous bodies, statement by statement;
    the locale \<open>poller\<close> is what others need of a poll.
  \<^item> \<open>Routes\<close>: a request to \<open>/api\<close> through layer, handler and back.  \<open>System\<close>: the running
    application, requests and polls interleaved.
  \<^item> This theory: the properties from one end of the application to the other.

  \<^bold>\<open>State and operations.\<close>  A metric core and a registry live in the world and are named by a
  \<open>handle\<close>; a clone of a metric is the same handle, as a clone in Rust shares the \<open>Arc\<close>.  The
  structs of the program are records of handles with the fields in the order of the source.
  Method bodies are actions on the world; a driver's answer is a sum whose left side is the text
  that \<open>Display\<close> gives for the error.  Mutex and atomic counter of \<open>PrometheusMetrics\<close> are fields
  of the record \<open>prom_state\<close>, which its operations pass along with the world.

  \<^bold>\<open>What the lemmas show.\<close>
  \<^item> \<open>writes V M a ws\<close> (\<open>PromApi\<close>): the action succeeds and performs exactly the assignments \<open>ws\<close>.
    Its rules \<open>writes_intro\<close> compute what a poll writes (\<open>redis_publish_writes\<close>,
    \<open>mongo_publish_writes\<close>, \<open>rows_writes\<close>); the values the metrics show, and that nothing else
    changes, follow from the list of assignments.
  \<^item> \<open>allocated\<close>, \<open>registered\<close>, \<open>owned\<close> (\<open>Core\<close>): construction makes fresh metrics, registration
    appends them up to the first clash of names, a collector owns its cores.
  \<^item> In \<open>metrics_collector\<close>: the loop outlives failed polls (\<open>loop_alive\<close>), a collector with free
    names is added (\<open>add_fresh\<close>, \<open>add_allocated\<close>), one with a taken name is refused
    (\<open>add_clash\<close>).  The three collectors are interpretations; PostgreSQL's come from
    \<open>pool_adapter\<close> by a sublocale, one for each of the three adapters.
  \<^item> \<open>spec_info\<close>, \<open>decode_spec\<close>: declarative readings of the INFO text and of a result set, which
    the parser's loop and the three decoding loops implement.
  \<^item> \<open>http_step\<close>, \<open>app_step\<close>: step relations of the interleaved statements of requests, and of the
    additions and shutdowns of collectors, with their invariants by rule induction.
  \<^item> \<open>spawned\<close>, \<open>tasks_from\<close>, \<open>app_tasks_alive\<close> (\<open>Startup\<close>): which loops the start-up has spawned,
    and that these are alive.
  \<^item> \<open>coro_step\<close>: one statement or one awaited call of a body, or a step of the environment.
    \<open>runs\<close>: alone, the body computes the action; \<open>follows\<close>: its writes and awaits in any
    environment, for a driver with steady answers; \<open>safe\<close>: no panic and only well typed writes to
    its own gauges, for any driver.
  \<^item> \<open>sys_step\<close>: statements of requests, route handlers, statements of polls, aborts and the rest of
    the process.
    \<open>sys_inv\<close> is its invariant.  For the HTTP layer all other steps are an environment
    (\<open>sys_step_http\<close>), and so they are for each poll (\<open>sys_step_poll\<close>), so that what was proved of
    the parts holds in the system.

  \<^bold>\<open>Bounds, loops, time.\<close>  Integers have their Rust width (\<open>i64\<close>, \<open>u32\<close>, \<open>u16\<close>; \<open>usize\<close> is 64
  bits); the one product that can overflow is modelled with and without overflow checks.  All
  loops over data are structural recursions and need no fuel.  The polling loop never returns:
  \<open>collect_loop n\<close> is its state after \<open>n\<close> ticks, and the properties hold for every \<open>n\<close>.
  \<open>run_coro\<close> has fuel, one unit for each statement or await; the three facts \<open>redis_poll_runs\<close>,
  \<open>mongo_poll_runs\<close> and \<open>postgres_poll_runs\<close> show that some fuel is enough, whatever the driver
  answers.  An \<open>Instant\<close> is a number of nanoseconds and differences saturate at zero, as \<open>elapsed\<close> does.

  \<^bold>\<open>Hypotheses.\<close>  Code outside the repository is a parameter.  \<open>prom_ok\<close> are the documented laws of
  \<open>prometheus\<close>; \<open>fred_quiet\<close>, \<open>mongo_quiet\<close>, \<open>deadpool_quiet\<close>, \<open>r2d2_quiet\<close>, \<open>seaorm_quiet\<close> and
  \<open>tokio_quiet\<close>, \<open>keys_quiet\<close> and \<open>sleep_quiet\<close> say that drivers, runtime and clock leave the
  metrics alone; \<open>tokio_tasks\<close>, \<open>prom_tasks\<close>, \<open>backend_tasks\<close> and \<open>server_tasks\<close> say which calls
  spawn a collector task or tell one to stop, and no more: \<open>tokio\<close> documents that \<open>abort\<close> schedules
  the cancellation, so \<open>R\<close> are the tasks whose cancellation was not requested, and a task that is not
  in \<open>R\<close> may run on to its next \<open>await\<close>; \<open>interval_panics\<close> are the periods that \<open>interval\<close> refuses,
  which is zero; \<open>backends_up\<close> that the configured backends answer;
  \<open>redis_steady\<close>, \<open>mongo_steady\<close> and \<open>postgres_steady\<close> that a driver's answers stay the same during
  a poll; \<open>mongo_env\<close> that no checked product overflows; \<open>gather_ok\<close> that a registry shows its
  gauges and the labelled series that were made; \<open>deps_ok\<close> collects what the running system needs.  A namespace is empty or a valid
  metric name where construction is to succeed.

  \<^bold>\<open>Not modelled.\<close>  Log output and the logging set-up; how Axum matches a path against the routing
  table and how its server runs the graceful shutdown, which are parameters (\<open>req_matched_path\<close>,
  \<open>sv_serve\<close>), as are the race of the two signal futures (\<open>sv_select\<close>) and what the extractor \<open>Path\<close>
  makes of the counter's key (\<open>path_key\<close>: the key, or a rejection that is the response); the text format that
  \<open>TextEncoder\<close> writes (library code).  Route handlers are atomic steps of the system: each
  awaits first and writes at its end, to histograms that no poll writes.  The help texts are kept but nothing is proved
  about them.  Each \<open>lib.rs\<close> but that of the core crate only declares modules and re-exports.
\<close>

section \<open>The system\<close>



text \<open>
  C11: however \<open>main\<close> ends - a backend cannot be set up, the address cannot be bound, the server
  fails, a signal handler cannot be installed, or a signal stops it - no collector task is left
  that was not told to stop: each one's cancellation was requested, and takes effect when the task
  next reaches an \<open>await\<close>.
\<close>

theorem main_stops_tasks:
  assumes P: "prom_tasks P R" and T: "tokio_tasks T R" and B: "backend_tasks B R" and W: "server_tasks W R"
    and s: "R s = {}" and run: "main_app P T S DP DR DM checks B W s = (res, t)"
  shows "R t = {}"
proof -
  obtain x u where x: "startup P T S DP DR DM checks B s = (x, u)" by (metis surj_pair)
  note tasks = startup_tasks [OF P T B s x]
  show ?thesis
  proof (cases x)
    case (Ok y)
    obtain st pm where y: "y = (st, pm)" by (cases y)
    obtain r tp where r: "serve_app T B W (u, pm) = (r, tp)" by (metis surj_pair)
    have "task_inv R (u, pm)" using tasks by (simp add: Ok y)
    then have "task_inv R tp" by (rule keepsD [OF keeps_serve_app [OF W T] r])
    from drop_prom_stops [where 'e = app_error, OF T this] run x Ok y r show ?thesis
      by (auto simp: main_app_def)
  qed (use run x tasks in \<open>auto simp: main_app_def\<close>)
qed

theorem main_stops_tasks_witness:
  "demo_running (snd (snd (main_app (beside ref_prom) runtime_beside (demo_serde [])
      (demo_deadpool \<lparr>st_max_size = 4, st_size = 1, st_available = 3\<rparr> demo_db)
      (demo_fred (Inl ''down'')) (demo_mongo_driver (Inl ''down'')) True demo_backends demo_server (empty_world, (0, []))))) = {}"
proof -
  have s: "demo_running (snd (empty_world, (0, []))) = {}" by (simp add: demo_running_def)
  show ?thesis by (rule main_stops_tasks [OF beside_tasks demo_server_tasks s]) (rule surjective_pairing)
qed

text \<open>
  C37: a second collector of the same kind under the same namespace, over any pool, is refused:
  \<open>add_collector\<close> returns \<open>AlreadyReg\<close>, no task is spawned, the handles, the count, the
  registry and all values stay as they are.
\<close>

theorem duplicate_refused:
  assumes P: "prom_ok P V" and r: "regs V s (m_registry pm) = Some rs" and first: "set own \<subseteq> set rs"
  shows "(owned (meta V s) own (redis_descs ns) \<and> owned (meta V s) (redis_handles m) (redis_descs ns) \<longrightarrow>
      refused V T (s, pm) (redis_object P D m)) \<and>
    (owned (meta V s) own (mongo_descs ns) \<and> owned (meta V s) (mongo_handles m') (mongo_descs ns) \<longrightarrow>
      refused V T (s, pm) (mongo_object P D' checks m')) \<and>
    (owned (meta V s) own (postgres_descs ns) \<and> owned (meta V s) (postgres_handles m'') (postgres_descs ns) \<longrightarrow>
      refused V T (s, pm) (postgres_object P S A m''))"
  unfolding refused_def fst_conv snd_conv
  by (intro conjI impI allI; elim conjE;
      rule add_collector_again [OF P r object_registers(1) _ _ first, where descs = "redis_descs ns"] add_collector_again [OF P r object_registers(2) _ _ first, where descs = "mongo_descs ns"]
        add_collector_again [OF P r object_registers(3) _ _ first, where descs = "postgres_descs ns"];
      (assumption | simp add: first_descs))

theorem duplicate_refused_witness:
  "\<exists>t. add_collector demo_spawner (redis_object ref_prom (demo_fred (Inl ''down'')) demo_redis) 5
       (demo_redis_world\<lparr>w_regs := [(0, redis_handles demo_redis)]\<rparr>, ap_prom demo_app) =
     (Err (Prometheus AlreadyReg), (t, ap_prom demo_app)) \<and> collector_count (ap_prom demo_app) = 0"
proof -
  let ?s = "demo_redis_world\<lparr>w_regs := [(0, redis_handles demo_redis)]\<rparr>"
  have own: "owned (meta ref_view ?s) (redis_handles demo_redis) (redis_descs ''myapp'')"
    using demo_redis_owned by simp
  have "regs ref_view ?s (m_registry (ap_prom demo_app)) = Some (redis_handles demo_redis)"
    by (simp add: demo_app_def)
  from duplicate_refused [OF ref_prom_ok this subset_refl] own
  have "refused ref_view demo_spawner (?s, ap_prom demo_app) (redis_object ref_prom (demo_fred (Inl ''down'')) demo_redis)"
    by blast
  then show ?thesis by (auto simp: refused_def demo_app_def collector_count_def)
qed

text \<open>
  C38: the constant labels of the configuration, and the interval, have no influence on the
  metrics of a collector: the constructors read the namespace only.
\<close>

theorem const_labels_ignored:
  "redis_new P pool (c\<lparr>const_labels := ls, collect_interval := i\<rparr>) = redis_new P pool c \<and>
   postgres_new P pool (c\<lparr>const_labels := ls, collect_interval := i\<rparr>) = postgres_new P pool c \<and>
   mongo_new P client admin_db (c\<lparr>const_labels := ls, collect_interval := i\<rparr>) = mongo_new P client admin_db c"
  by (simp add: redis_new_new_all postgres_new_new_all mongo_new_new_all)

subsection \<open>From the server to the scrape\<close>

text \<open>The gauges without labels and their values, under the names that \<open>GET /metrics\<close> shows.\<close>

definition redis_report :: "redis_info \<Rightarrow> (string \<times> metric_value) list" where
  "redis_report i =
     [(''connected_clients'', IntV (i_connected_clients i)),
      (''blocked_clients'', IntV (i_blocked_clients i)),
      (''used_memory_bytes'', IntV (i_used_memory i)),
      (''used_memory_rss_bytes'', IntV (i_used_memory_rss i)),
      (''mem_fragmentation_ratio'', FloatV (i_mem_fragmentation_ratio i)),
      (''keyspace_hits_total'', IntV (i_keyspace_hits i)),
      (''keyspace_misses_total'', IntV (i_keyspace_misses i)),
      (''evicted_keys_total'', IntV (i_evicted_keys i)),
      (''commands_processed_total'', IntV (i_total_commands_processed i)),
      (''replication_offset'', IntV (i_replication_offset i)),
      (''connected_slaves'', IntV (i_connected_slaves i))]"

lemma redis_gathered:
  assumes "gather_ok P V K" "regs V s r = Some rs" "set (redis_handles m) \<subseteq> set rs"
    and own: "owned (meta V s) (redis_handles m) (redis_descs ns)"
    and i: "i \<in> {..<10} \<union> {12, 13}"
  shows "(ns_prefix ns @ ''redis_'' @ redis_names ! i, [([], val V s (plain (redis_handles m ! i)))])
    \<in> set (registry_gather P r s)"
proof (rule gathered [OF assms(1-4)])
  have "i \<in> {0, 1, 2, 3, 4, 5, 6, 7, 8, 9, 12, 13}" using i by auto
  then show "i < length (redis_descs ns)"
    "d_kind (redis_descs ns ! i) = IntGauge \<or> d_kind (redis_descs ns ! i) = Gauge" "d_labels (redis_descs ns ! i) = []"
    "d_names (redis_descs ns ! i) = [ns_prefix ns @ ''redis_'' @ redis_names ! i]"
    by (auto simp: redis_descs_def redis_specs_def redis_names_def redis_macro_defs spec_desc_scoped)
qed

text \<open>A sample of a family with the given name.\<close>

definition sampled :: "metric_family list \<Rightarrow> string \<Rightarrow> string list \<Rightarrow> metric_value \<Rightarrow> bool" where
  "sampled families name ls v \<longleftrightarrow> (\<exists>samples. (name, samples) \<in> set families \<and> (ls, v) \<in> set samples)"

lemma redis_gathered_db:
  assumes "gather_ok P V K" "regs V s r = Some rs" "set (redis_handles m) \<subseteq> set rs"
    and own: "owned (meta V s) (redis_handles m) (redis_descs ns)"
    and h: "(h, n) \<in> {(r_db_keys m, ''db_keys''), (r_db_expires m, ''db_expires'')}" and K: "(h, ls) \<in> K s"
  shows "sampled (registry_gather P r s) (ns_prefix ns @ ''redis_'' @ n) ls (val V s (h, ls))"
proof -
  have "\<exists>i<15. redis_handles m ! i = h \<and> d_kind (redis_descs ns ! i) = IntGaugeVec \<and>
      d_names (redis_descs ns ! i) = [ns_prefix ns @ ''redis_'' @ n]"
  proof (cases "(h, n) = (r_db_keys m, ''db_keys'')")
    case True
    then show ?thesis by (intro exI [of _ 10])
      (simp add: redis_handles_def redis_descs_def redis_specs_def redis_macro_defs spec_desc_scoped)
  next
    case False
    with h have "h = r_db_expires m" "n = ''db_expires''" by auto
    then show ?thesis by (intro exI [of _ 11])
      (simp add: redis_handles_def redis_descs_def redis_specs_def redis_macro_defs spec_desc_scoped)
  qed
  moreover have "length (redis_descs ns) = 15" by (simp add: redis_descs_def redis_specs_def)
  ultimately obtain i where i: "i < length (redis_descs ns)" "redis_handles m ! i = h"
    "d_kind (redis_descs ns ! i) = IntGaugeVec" "d_names (redis_descs ns ! i) = [ns_prefix ns @ ''redis_'' @ n]" by auto
  from gathered_series [OF assms(1-4) i(1,3,4), unfolded i(2), OF K] show ?thesis unfolding sampled_def .
qed

text \<open>A poll makes the series of every database that the server has listed.\<close>

lemma publish_db_series:
  assumes G: "gather_ok P V K" and P: "prom_ok P V" and own: "owned (meta V s) (redis_handles m) (redis_descs ns)"
    and run: "publish_db P m (d, k, x) s = (Ok (), t)"
  shows "{(r_db_keys m, [db_label d]), (r_db_expires m, [db_label d])} \<union> K s \<subseteq> K t \<and> meta V t = meta V s"
proof -
  obtain u where u: "set_labelled P (r_db_keys m) [db_label d] k s = (Ok () :: (metrics_error, unit) outcome, u)"
    "set_labelled P (r_db_expires m) [db_label d] x u = (Ok () :: (metrics_error, unit) outcome, t)"
    using run by (auto simp: publish_db_def Let_def action_iff ret_def)
  have c: "core_is (meta V s) (r_db_keys m) IntGaugeVec (length [db_label d])"
    "core_is (meta V s) (r_db_expires m) IntGaugeVec (length [db_label d])"
    using redis_cores(11,12) [OF own] by simp_all
  have mu: "meta V u = meta V s" using writesD(2) [OF writes_set_labelled [OF P] u(1)] c(1) by simp
  have mt: "meta V t = meta V u" using writesD(2) [OF writes_set_labelled [OF P] u(2)] c(2) mu by simp
  from set_labelled_series [OF G u(1) P c(1)] set_labelled_series [OF G u(2) P] c(2) mu mt show ?thesis by auto
qed

lemma publish_dbs_series:
  assumes G: "gather_ok P V K" and P: "prom_ok P V"
  shows "owned (meta V s) (redis_handles m) (redis_descs ns) \<Longrightarrow> run_all (map (publish_db P m) es) s = (Ok (), t) \<Longrightarrow>
    (\<Union>(d, kx)\<in>set es. {(r_db_keys m, [db_label d]), (r_db_expires m, [db_label d])}) \<union> K s \<subseteq> K t"
proof (induction es arbitrary: s)
  case Nil
  then show ?case by (simp add: ret_def)
next
  case (Cons e es)
  obtain d k x where e: "e = (d, k, x)" by (cases e)
  obtain u where u: "publish_db P m (d, k, x) s = (Ok (), u)" "run_all (map (publish_db P m) es) u = (Ok (), t)"
    using Cons.prems(2) by (auto simp: e action_iff)
  note s = publish_db_series [OF G P Cons.prems(1) u(1)]
  with Cons.prems(1) have "owned (meta V u) (redis_handles m) (redis_descs ns)" by simp
  from Cons.IH [OF this u(2)] s show ?case by (auto simp: e)
qed

lemma redis_collect_series:
  assumes G: "gather_ok P V K" and P: "prom_ok P V" and D: "fred_quiet D V"
    and own: "owned (meta V s) (redis_handles m) (redis_descs ns)"
    and run: "redis_collect P D m s = (Ok (), t)" and info: "\<And>u raw v. redis_query D m u = (Ok raw, v) \<Longrightarrow> parse_info raw = i"
    and d: "(d, kx) \<in> set (i_keyspace i)"
  shows "(r_db_keys m, [db_label d]) \<in> K t \<and> (r_db_expires m, [db_label d]) \<in> K t"
proof -
  have split: "redis_publish P m i =
      bind_act (redis_publish P m (i\<lparr>i_keyspace := []\<rparr>)) (\<lambda>_. run_all (map (publish_db P m) (i_keyspace i)))"
    by (cases i) (simp only: redis_publish_def redis_info.simps list.map run_all.simps(1) bind_ret_right)
  obtain u raw v where u: "set_int P (r_pool_connections m) (ucast (pool_size D (r_pool m) s)) s = (Ok () :: (metrics_error, unit) outcome, u)"
    and v: "redis_query D m u = (Ok raw, v)" and "redis_publish P m (parse_info raw) v = (Ok (), t)"
    using run by (auto simp: redis_collect_def action_iff)
  with info [OF v] obtain w where w: "redis_publish P m (i\<lparr>i_keyspace := []\<rparr>) v = (Ok (), w)"
    "run_all (map (publish_db P m) (i_keyspace i)) w = (Ok (), t)"
    by (auto simp: split action_iff)
  have mu: "meta V u = meta V s" by (rule writesD(2) [OF writes_set_int [OF P redis_cores(1) [OF own]] u])
  have mv: "meta V v = meta V s" using redis_query_quiet [OF D v] mu by (simp add: same_def)
  have "meta V w = meta V s"
    using writesD(2) [OF redis_publish_writes [OF P] w(1)] own mv by simp
  with own have "owned (meta V w) (redis_handles m) (redis_descs ns)" by simp
  from publish_dbs_series [OF G P this w(2)] d show ?thesis by blast
qed

text \<open>
  C1: from the server to the scrape.  Let the Redis server print its statistics \<open>i\<close> as an INFO
  text; then a poll succeeds, and a scrape of \<open>GET /metrics\<close> afterwards answers 200 with the
  encoding of families in which every one of these statistics stands, exactly, under its full name:
  the eleven numbers of the server as gauges without labels, and for each database that the text
  lists a sample of the keys and one of the expiring keys, under the database's label.  (The answer
  is 500 with an empty body when the encoder fails.)
\<close>

theorem redis_scraped:
  assumes P: "prom_ok P V" and G: "gather_ok P V K" and D: "fred_quiet D V"
    and own: "owned (meta V s) (redis_handles m) (redis_descs ns)"
    and reg: "regs V s (m_registry pm) = Some rs" "set (redis_handles m) \<subseteq> set rs"
    and ratio: "\<forall>c\<in>set ratio. printable c" "parse_f64 ratio = Some (i_mem_fragmentation_ratio i)"
    and raw: "\<forall>u. fst (pool_info D (r_pool m) u) = Inr (render_info ratio i)"
  shows "\<exists>t families. redis_collect P D m s = (Ok (), t) \<and>
    (\<forall>(n, v)\<in>set (redis_report i). (ns_prefix ns @ ''redis_'' @ n, [([], v)]) \<in> set families) \<and>
    (\<forall>db keys expires. map_of (rev (i_keyspace i)) db = Some (keys, expires) \<longrightarrow>
       sampled families (ns_prefix ns @ ''redis_db_keys'') [db_label db] (IntV keys) \<and>
       sampled families (ns_prefix ns @ ''redis_db_expires'') [db_label db] (IntV expires)) \<and>
    metrics_handler P pm t =
      (case text_encode P families of
         Inr buf \<Rightarrow> \<lparr>rp_status = 200, rp_headers = [(''content-type'', ''text/plain; version=0.0.4; charset=utf-8'')], rp_body = buf\<rparr>
       | Inl e \<Rightarrow> \<lparr>rp_status = 500, rp_headers = [], rp_body = ''''\<rparr>)"
proof -
  have info: "parse_info (render_info ratio i) = i"
    using fold_parse_info_lines [OF ratio] info_lines_no_newline [OF ratio(1)]
    by (simp add: parse_info_def render_info_def lines_concat_crlf)
  obtain res t where t: "redis_collect P D m s = (res, t)" by (cases "redis_collect P D m s")
  from P D own t have "res = Ok () \<and> meta V t = meta V s \<and> regs V t = regs V s \<and>
      val V t = apply_writes (pool_assign D m s # poll_assigns m i) (val V s)"
  proof (cases rule: redis_collect_cases)
    case (ok raw' u)
    with raw info show ?thesis by (metis sum.inject(2))
  next
    case (failed msg u)
    with raw show ?thesis by (metis sum.distinct(1))
  qed
  then have t': "redis_collect P D m s = (Ok (), t)" "regs V t (m_registry pm) = Some rs"
    "owned (meta V t) (redis_handles m) (redis_descs ns)"
    "val V t = apply_writes (pool_assign D m s # poll_assigns m i) (val V s)"
    using t reg own by simp_all
  have "distinct (redis_handles m)" using own by (simp add: owned_def)
  note v = poll_assigns_values [OF this t'(4)] and g = redis_gathered [OF G t'(2) reg(2) t'(3)]
  let ?fs = "registry_gather P (m_registry pm) t"
  have "\<forall>(n, v)\<in>set (redis_report i). (ns_prefix ns @ ''redis_'' @ n, [([], v)]) \<in> set ?fs"
    using g [of 1] g [of 2] g [of 3] g [of 4] g [of 5] g [of 6] g [of 7] g [of 8] g [of 9] g [of 12] g [of 13]
    by (simp add: redis_report_def redis_names_def redis_handles_def v)
  moreover have "sampled ?fs (ns_prefix ns @ ''redis_db_keys'') [db_label db] (IntV keys) \<and>
      sampled ?fs (ns_prefix ns @ ''redis_db_expires'') [db_label db] (IntV expires)"
    if e: "map_of (rev (i_keyspace i)) db = Some (keys, expires)" for db keys expires
  proof -
    have query: "parse_info raw' = i" if "redis_query D m u = (Ok raw', w)" for u raw' w
      using that raw info by (auto simp: redis_query_def split: prod.splits sum.splits) (metis fst_conv sum.inject(2))
    have "(db, keys, expires) \<in> set (i_keyspace i)" using map_of_SomeD [OF e] by simp
    from redis_collect_series [OF G P D own t'(1) query this]
      redis_gathered_db [OF G t'(2) reg(2) t'(3), of "r_db_keys m" "''db_keys''" "[db_label db]"]
      redis_gathered_db [OF G t'(2) reg(2) t'(3), of "r_db_expires m" "''db_expires''" "[db_label db]"]
    show ?thesis by (simp add: v(13,14) e)
  qed
  ultimately show ?thesis using t'(1)
    by (intro exI [of _ t] exI [of _ ?fs]) (simp add: metrics_handler_def Let_def)
qed

theorem redis_scraped_witness:
  "\<exists>t families buf. redis_collect ref_prom (demo_fred (Inr (render_info ''1.5'' sample_info))) demo_redis
        (demo_redis_world\<lparr>w_regs := [(0, redis_handles demo_redis)]\<rparr>) = (Ok (), t) \<and>
     (''myapp_redis_used_memory_bytes'', [([], IntV 5242880)]) \<in> set families \<and>
     sampled families ''myapp_redis_db_keys'' [db_label 3] (IntV 7) \<and>
     text_encode ref_prom families = Inr buf \<and> rp_body (metrics_handler ref_prom (ap_prom demo_app) t) = buf"
proof -
  let ?s = "demo_redis_world\<lparr>w_regs := [(0, redis_handles demo_redis)]\<rparr>"
  have own: "owned (meta ref_view ?s) (redis_handles demo_redis) (redis_descs ''myapp'')"
    using demo_redis_owned by simp
  have reg: "regs ref_view ?s (m_registry (ap_prom demo_app)) = Some (redis_handles demo_redis)"
    by (simp add: demo_app_def)
  have ratio: "\<forall>c\<in>set ''1.5''. printable c" "parse_f64 ''1.5'' = Some (i_mem_fragmentation_ratio sample_info)"
    by (simp_all add: printable_def sample_info_def sample_ratio)
  have raw: "\<forall>u. fst (pool_info (demo_fred (Inr (render_info ''1.5'' sample_info))) (r_pool demo_redis) u) =
      Inr (render_info ''1.5'' sample_info)"
    by (simp add: demo_fred_def)
  have db: "\<exists>x. map_of (rev (i_keyspace sample_info)) 3 = Some (7, x)" by (simp add: sample_info_def)
  from redis_scraped [OF ref_prom_ok ref_gather_ok demo_fred_quiet own reg subset_refl ratio raw] db
  show ?thesis
    by (fastforce simp: redis_report_def sample_info_def ns_prefix_def ref_prom_def ref_encode_def)
qed

end
